(* ===== verification/Prelude.thy ===== *)
theory Prelude
  imports Main "HOL-Library.Word"
begin

text \<open>
  Shared vocabulary of the development: the machine integers and byte strings of the Go
  program, the idioms for nil-able fields, integer printing and string prefixes, and the generic
  lemmas on lists, maps and words that the component theories use through the collections
  \<open>go_simps\<close> and \<open>list_simps\<close>.
\<close>

named_theorems go_simps \<open>evaluation rules of the Go idioms\<close>
named_theorems list_simps \<open>generic facts on lists and words\<close>

section \<open>Machine types\<close>

type_synonym byte = "8 word"
type_synonym bytes = "byte list"
type_synonym u32 = "32 word"
type_synonym u64 = "64 word"
type_synonym i32 = "32 word"
type_synonym i64 = "64 word"

text \<open>A \<^verbatim>\<open>float64\<close> is only carried, never computed with: its 64 bits.\<close>

type_synonym float64 = "64 word"

section \<open>Nil-able values\<close>

text \<open>
  The two shapes of a generated getter: \<open>get_ptr\<close> returns a pointer field of a receiver that may
  be nil, \<open>get_field\<close> dereferences it and falls back to the default.
\<close>

definition get_ptr :: "('m \<Rightarrow> 'a option) \<Rightarrow> 'm option \<Rightarrow> 'a option" where
  "get_ptr f m = (case m of None \<Rightarrow> None | Some r \<Rightarrow> f r)"

definition get_field :: "'a \<Rightarrow> ('m \<Rightarrow> 'a option) \<Rightarrow> 'm option \<Rightarrow> 'a" where
  "get_field d f m =
     (case m of None \<Rightarrow> d | Some r \<Rightarrow> (case f r of None \<Rightarrow> d | Some v \<Rightarrow> v))"

lemma get_ptr_simps [simp, go_simps]:
  "get_ptr f None = None"
  "get_ptr f (Some r) = f r"
  by (simp_all add: get_ptr_def)

lemma get_field_simps [simp, go_simps]:
  "get_field d f None = d"
  "f r = None \<Longrightarrow> get_field d f (Some r) = d"
  "f r = Some v \<Longrightarrow> get_field d f (Some r) = v"
  by (simp_all add: get_field_def)

section \<open>Characters\<close>

definition lower_char :: "char \<Rightarrow> char" where
  "lower_char c = (let n = of_char c :: nat in if 65 \<le> n \<and> n \<le> 90 then char_of (n + 32) else c)"

section \<open>Integers as decimal strings\<close>

fun show_nat :: "nat \<Rightarrow> string" where
  "show_nat n =
     (if n < 10 then [char_of (48 + n)] else show_nat (n div 10) @ [char_of (48 + n mod 10)])"

declare show_nat.simps [simp del]

definition show_int :: "int \<Rightarrow> string" where
  "show_int i = (if i < 0 then CHR ''-'' # show_nat (nat (- i)) else show_nat (nat i))"

text \<open>A number is determined by its digits.\<close>

definition is_digit :: "char \<Rightarrow> bool" where
  "is_digit c \<longleftrightarrow> 48 \<le> (of_char c :: nat) \<and> (of_char c :: nat) \<le> 57"

definition digits_value :: "string \<Rightarrow> nat" where
  "digits_value s = foldl (\<lambda>n c. 10 * n + (of_char c - 48)) 0 s"

lemma digits_value_show_nat: "digits_value (show_nat n) = n"
proof (induction n rule: show_nat.induct)
  case (1 n)
  show ?case
  proof (cases "n < 10")
    case False
    from 1 [OF False] have "foldl (\<lambda>n c. 10 * n + (of_char c - 48)) 0 (show_nat (n div 10)) = n div 10"
      by (simp add: digits_value_def)
    with False show ?thesis by (subst show_nat.simps) (simp add: digits_value_def)
  qed (subst show_nat.simps, simp add: digits_value_def)
qed

lemma show_nat_digits: "c \<in> set (show_nat n) \<Longrightarrow> is_digit c"
proof (induction n rule: show_nat.induct)
  case (1 n)
  then show ?case
    by (cases "n < 10") (auto simp: show_nat.simps [of n] is_digit_def)
qed

lemma show_nat_ne [simp]: "show_nat n \<noteq> []"
  by (subst show_nat.simps) simp

text \<open>There is no leading zero.\<close>

lemma show_nat_hd: "0 < n \<Longrightarrow> hd (show_nat n) \<noteq> CHR ''0''"
proof (induction n rule: show_nat.induct)
  case (1 n)
  show ?case
  proof (cases "n < 10")
    case True
    then have "of_char (hd (show_nat n)) = 48 + n" by (subst show_nat.simps) simp
    moreover have "of_char (CHR ''0'') = (48 :: nat)" by simp
    ultimately show ?thesis using 1(2) by (metis add_cancel_left_right less_numeral_extra(3))
  next
    case False
    with 1 show ?thesis by (subst show_nat.simps) simp
  qed
qed

end
