(* ===== verification/Api.thy ===== *)
theory Api
  imports Prelude
begin

text \<open>
  The messages of the Pulsar binary protocol, as the Go structs of
  \<^verbatim>\<open>pkg/api/PulsarApi.pb.go\<close> hold them.

  An enum is a datatype with one constructor per constant of the source and one more for every
  other \<^verbatim>\<open>int32\<close> that can arrive on the wire; \<open>E_int32\<close> is its number and \<open>E_String\<close>
  its \<^verbatim>\<open>String\<close> method. A message is a record: a pointer field is an \<open>option\<close>, a
  \<^verbatim>\<open>[]byte\<close> field an optional byte list (\<open>None\<close> is nil), a repeated field a list. The
  constant \<open>new_M\<close> is the zero value of \<open>M\<close>, and \<open>M_GetF\<close> the getter of field
  \<open>F\<close>, which accepts a nil receiver. Getters that no code of the client calls are left out, and so
  are the \<^verbatim>\<open>XXX_\<close> fields, which only the protobuf runtime reads.
\<close>

section \<open>Enums\<close>

datatype CompressionType =
    CompressionType_NONE
  | CompressionType_LZ4
  | CompressionType_ZLIB
  | CompressionType_ZSTD
  | CompressionType_unknown i32

datatype ServerError =
    ServerError_UnknownError
  | ServerError_MetadataError
  | ServerError_PersistenceError
  | ServerError_AuthenticationError
  | ServerError_AuthorizationError
  | ServerError_ConsumerBusy
  | ServerError_ServiceNotReady
  | ServerError_ProducerBlockedQuotaExceededError
  | ServerError_ProducerBlockedQuotaExceededException
  | ServerError_ChecksumError
  | ServerError_UnsupportedVersionError
  | ServerError_TopicNotFound
  | ServerError_SubscriptionNotFound
  | ServerError_ConsumerNotFound
  | ServerError_TooManyRequests
  | ServerError_TopicTerminatedError
  | ServerError_ProducerBusy
  | ServerError_InvalidTopicName
  | ServerError_IncompatibleSchema
  | ServerError_unknown i32

datatype AuthMethod =
    AuthMethod_AuthMethodNone
  | AuthMethod_AuthMethodYcaV1
  | AuthMethod_AuthMethodAthens
  | AuthMethod_unknown i32

datatype ProtocolVersion =
    ProtocolVersion_v0
  | ProtocolVersion_v1
  | ProtocolVersion_v2
  | ProtocolVersion_v3
  | ProtocolVersion_v4
  | ProtocolVersion_v5
  | ProtocolVersion_v6
  | ProtocolVersion_v7
  | ProtocolVersion_v8
  | ProtocolVersion_v9
  | ProtocolVersion_v10
  | ProtocolVersion_v11
  | ProtocolVersion_v12
  | ProtocolVersion_v13
  | ProtocolVersion_unknown i32

datatype Schema_Type =
    Schema_None
  | Schema_String
  | Schema_Json
  | Schema_Protobuf
  | Schema_Avro
  | Schema_Type_unknown i32

datatype CommandSubscribe_SubType =
    CommandSubscribe_Exclusive
  | CommandSubscribe_Shared
  | CommandSubscribe_Failover
  | CommandSubscribe_SubType_unknown i32

datatype CommandSubscribe_InitialPosition =
    CommandSubscribe_Latest
  | CommandSubscribe_Earliest
  | CommandSubscribe_InitialPosition_unknown i32

datatype CommandPartitionedTopicMetadataResponse_LookupType =
    CommandPartitionedTopicMetadataResponse_Success
  | CommandPartitionedTopicMetadataResponse_Failed
  | CommandPartitionedTopicMetadataResponse_LookupType_unknown i32

datatype CommandLookupTopicResponse_LookupType =
    CommandLookupTopicResponse_Redirect
  | CommandLookupTopicResponse_Connect
  | CommandLookupTopicResponse_Failed
  | CommandLookupTopicResponse_LookupType_unknown i32

datatype CommandAck_AckType =
    CommandAck_Individual
  | CommandAck_Cumulative
  | CommandAck_AckType_unknown i32

datatype CommandAck_ValidationError =
    CommandAck_UncompressedSizeCorruption
  | CommandAck_DecompressionError
  | CommandAck_ChecksumMismatch
  | CommandAck_BatchDeSerializeError
  | CommandAck_DecryptionError
  | CommandAck_ValidationError_unknown i32

datatype CommandGetTopicsOfNamespace_Mode =
    CommandGetTopicsOfNamespace_PERSISTENT
  | CommandGetTopicsOfNamespace_NON_PERSISTENT
  | CommandGetTopicsOfNamespace_ALL
  | CommandGetTopicsOfNamespace_Mode_unknown i32

datatype BaseCommand_Type =
    BaseCommand_CONNECT
  | BaseCommand_CONNECTED
  | BaseCommand_SUBSCRIBE
  | BaseCommand_PRODUCER
  | BaseCommand_SEND
  | BaseCommand_SEND_RECEIPT
  | BaseCommand_SEND_ERROR
  | BaseCommand_MESSAGE
  | BaseCommand_ACK
  | BaseCommand_FLOW
  | BaseCommand_UNSUBSCRIBE
  | BaseCommand_SUCCESS
  | BaseCommand_ERROR
  | BaseCommand_CLOSE_PRODUCER
  | BaseCommand_CLOSE_CONSUMER
  | BaseCommand_PRODUCER_SUCCESS
  | BaseCommand_PING
  | BaseCommand_PONG
  | BaseCommand_REDELIVER_UNACKNOWLEDGED_MESSAGES
  | BaseCommand_PARTITIONED_METADATA
  | BaseCommand_PARTITIONED_METADATA_RESPONSE
  | BaseCommand_LOOKUP
  | BaseCommand_LOOKUP_RESPONSE
  | BaseCommand_CONSUMER_STATS
  | BaseCommand_CONSUMER_STATS_RESPONSE
  | BaseCommand_REACHED_END_OF_TOPIC
  | BaseCommand_SEEK
  | BaseCommand_GET_LAST_MESSAGE_ID
  | BaseCommand_GET_LAST_MESSAGE_ID_RESPONSE
  | BaseCommand_ACTIVE_CONSUMER_CHANGE
  | BaseCommand_GET_TOPICS_OF_NAMESPACE
  | BaseCommand_GET_TOPICS_OF_NAMESPACE_RESPONSE
  | BaseCommand_GET_SCHEMA
  | BaseCommand_GET_SCHEMA_RESPONSE
  | BaseCommand_Type_unknown i32

fun CompressionType_int32 :: "CompressionType \<Rightarrow> i32" where
  "CompressionType_int32 CompressionType_NONE = 0"
| "CompressionType_int32 CompressionType_LZ4 = 1"
| "CompressionType_int32 CompressionType_ZLIB = 2"
| "CompressionType_int32 CompressionType_ZSTD = 3"
| "CompressionType_int32 (CompressionType_unknown v) = v"

fun ServerError_int32 :: "ServerError \<Rightarrow> i32" where
  "ServerError_int32 ServerError_UnknownError = 0"
| "ServerError_int32 ServerError_MetadataError = 1"
| "ServerError_int32 ServerError_PersistenceError = 2"
| "ServerError_int32 ServerError_AuthenticationError = 3"
| "ServerError_int32 ServerError_AuthorizationError = 4"
| "ServerError_int32 ServerError_ConsumerBusy = 5"
| "ServerError_int32 ServerError_ServiceNotReady = 6"
| "ServerError_int32 ServerError_ProducerBlockedQuotaExceededError = 7"
| "ServerError_int32 ServerError_ProducerBlockedQuotaExceededException = 8"
| "ServerError_int32 ServerError_ChecksumError = 9"
| "ServerError_int32 ServerError_UnsupportedVersionError = 10"
| "ServerError_int32 ServerError_TopicNotFound = 11"
| "ServerError_int32 ServerError_SubscriptionNotFound = 12"
| "ServerError_int32 ServerError_ConsumerNotFound = 13"
| "ServerError_int32 ServerError_TooManyRequests = 14"
| "ServerError_int32 ServerError_TopicTerminatedError = 15"
| "ServerError_int32 ServerError_ProducerBusy = 16"
| "ServerError_int32 ServerError_InvalidTopicName = 17"
| "ServerError_int32 ServerError_IncompatibleSchema = 18"
| "ServerError_int32 (ServerError_unknown v) = v"

definition ServerError_name :: "(i32 \<times> string) list" where
  "ServerError_name =
     [(0, ''UnknownError''), (1, ''MetadataError''), (2, ''PersistenceError''),
      (3, ''AuthenticationError''), (4, ''AuthorizationError''), (5, ''ConsumerBusy''),
      (6, ''ServiceNotReady''), (7, ''ProducerBlockedQuotaExceededError''),
      (8, ''ProducerBlockedQuotaExceededException''), (9, ''ChecksumError''),
      (10, ''UnsupportedVersionError''), (11, ''TopicNotFound''),
      (12, ''SubscriptionNotFound''), (13, ''ConsumerNotFound''), (14, ''TooManyRequests''),
      (15, ''TopicTerminatedError''), (16, ''ProducerBusy''), (17, ''InvalidTopicName''),
      (18, ''IncompatibleSchema'')]"

definition ServerError_value :: "(string \<times> i32) list" where
  "ServerError_value =
     [(''UnknownError'', 0), (''MetadataError'', 1), (''PersistenceError'', 2),
      (''AuthenticationError'', 3), (''AuthorizationError'', 4), (''ConsumerBusy'', 5),
      (''ServiceNotReady'', 6), (''ProducerBlockedQuotaExceededError'', 7),
      (''ProducerBlockedQuotaExceededException'', 8), (''ChecksumError'', 9),
      (''UnsupportedVersionError'', 10), (''TopicNotFound'', 11),
      (''SubscriptionNotFound'', 12), (''ConsumerNotFound'', 13), (''TooManyRequests'', 14),
      (''TopicTerminatedError'', 15), (''ProducerBusy'', 16), (''InvalidTopicName'', 17),
      (''IncompatibleSchema'', 18)]"

definition ServerError_String :: "ServerError \<Rightarrow> string" where
  "ServerError_String x =
     (case map_of ServerError_name (ServerError_int32 x) of
        Some s \<Rightarrow> s
      | None \<Rightarrow> show_int (sint (ServerError_int32 x)))"

fun AuthMethod_int32 :: "AuthMethod \<Rightarrow> i32" where
  "AuthMethod_int32 AuthMethod_AuthMethodNone = 0"
| "AuthMethod_int32 AuthMethod_AuthMethodYcaV1 = 1"
| "AuthMethod_int32 AuthMethod_AuthMethodAthens = 2"
| "AuthMethod_int32 (AuthMethod_unknown v) = v"

fun ProtocolVersion_int32 :: "ProtocolVersion \<Rightarrow> i32" where
  "ProtocolVersion_int32 ProtocolVersion_v0 = 0"
| "ProtocolVersion_int32 ProtocolVersion_v1 = 1"
| "ProtocolVersion_int32 ProtocolVersion_v2 = 2"
| "ProtocolVersion_int32 ProtocolVersion_v3 = 3"
| "ProtocolVersion_int32 ProtocolVersion_v4 = 4"
| "ProtocolVersion_int32 ProtocolVersion_v5 = 5"
| "ProtocolVersion_int32 ProtocolVersion_v6 = 6"
| "ProtocolVersion_int32 ProtocolVersion_v7 = 7"
| "ProtocolVersion_int32 ProtocolVersion_v8 = 8"
| "ProtocolVersion_int32 ProtocolVersion_v9 = 9"
| "ProtocolVersion_int32 ProtocolVersion_v10 = 10"
| "ProtocolVersion_int32 ProtocolVersion_v11 = 11"
| "ProtocolVersion_int32 ProtocolVersion_v12 = 12"
| "ProtocolVersion_int32 ProtocolVersion_v13 = 13"
| "ProtocolVersion_int32 (ProtocolVersion_unknown v) = v"

fun Schema_Type_int32 :: "Schema_Type \<Rightarrow> i32" where
  "Schema_Type_int32 Schema_None = 0"
| "Schema_Type_int32 Schema_String = 1"
| "Schema_Type_int32 Schema_Json = 2"
| "Schema_Type_int32 Schema_Protobuf = 3"
| "Schema_Type_int32 Schema_Avro = 4"
| "Schema_Type_int32 (Schema_Type_unknown v) = v"

fun CommandSubscribe_SubType_int32 :: "CommandSubscribe_SubType \<Rightarrow> i32" where
  "CommandSubscribe_SubType_int32 CommandSubscribe_Exclusive = 0"
| "CommandSubscribe_SubType_int32 CommandSubscribe_Shared = 1"
| "CommandSubscribe_SubType_int32 CommandSubscribe_Failover = 2"
| "CommandSubscribe_SubType_int32 (CommandSubscribe_SubType_unknown v) = v"

fun CommandSubscribe_InitialPosition_int32 :: "CommandSubscribe_InitialPosition \<Rightarrow> i32" where
  "CommandSubscribe_InitialPosition_int32 CommandSubscribe_Latest = 0"
| "CommandSubscribe_InitialPosition_int32 CommandSubscribe_Earliest = 1"
| "CommandSubscribe_InitialPosition_int32 (CommandSubscribe_InitialPosition_unknown v) = v"

fun CommandPartitionedTopicMetadataResponse_LookupType_int32 :: "CommandPartitionedTopicMetadataResponse_LookupType \<Rightarrow> i32" where
  "CommandPartitionedTopicMetadataResponse_LookupType_int32 CommandPartitionedTopicMetadataResponse_Success = 0"
| "CommandPartitionedTopicMetadataResponse_LookupType_int32 CommandPartitionedTopicMetadataResponse_Failed = 1"
| "CommandPartitionedTopicMetadataResponse_LookupType_int32 (CommandPartitionedTopicMetadataResponse_LookupType_unknown v) = v"

fun CommandLookupTopicResponse_LookupType_int32 :: "CommandLookupTopicResponse_LookupType \<Rightarrow> i32" where
  "CommandLookupTopicResponse_LookupType_int32 CommandLookupTopicResponse_Redirect = 0"
| "CommandLookupTopicResponse_LookupType_int32 CommandLookupTopicResponse_Connect = 1"
| "CommandLookupTopicResponse_LookupType_int32 CommandLookupTopicResponse_Failed = 2"
| "CommandLookupTopicResponse_LookupType_int32 (CommandLookupTopicResponse_LookupType_unknown v) = v"

fun CommandAck_AckType_int32 :: "CommandAck_AckType \<Rightarrow> i32" where
  "CommandAck_AckType_int32 CommandAck_Individual = 0"
| "CommandAck_AckType_int32 CommandAck_Cumulative = 1"
| "CommandAck_AckType_int32 (CommandAck_AckType_unknown v) = v"

fun CommandAck_ValidationError_int32 :: "CommandAck_ValidationError \<Rightarrow> i32" where
  "CommandAck_ValidationError_int32 CommandAck_UncompressedSizeCorruption = 0"
| "CommandAck_ValidationError_int32 CommandAck_DecompressionError = 1"
| "CommandAck_ValidationError_int32 CommandAck_ChecksumMismatch = 2"
| "CommandAck_ValidationError_int32 CommandAck_BatchDeSerializeError = 3"
| "CommandAck_ValidationError_int32 CommandAck_DecryptionError = 4"
| "CommandAck_ValidationError_int32 (CommandAck_ValidationError_unknown v) = v"

fun CommandGetTopicsOfNamespace_Mode_int32 :: "CommandGetTopicsOfNamespace_Mode \<Rightarrow> i32" where
  "CommandGetTopicsOfNamespace_Mode_int32 CommandGetTopicsOfNamespace_PERSISTENT = 0"
| "CommandGetTopicsOfNamespace_Mode_int32 CommandGetTopicsOfNamespace_NON_PERSISTENT = 1"
| "CommandGetTopicsOfNamespace_Mode_int32 CommandGetTopicsOfNamespace_ALL = 2"
| "CommandGetTopicsOfNamespace_Mode_int32 (CommandGetTopicsOfNamespace_Mode_unknown v) = v"

fun BaseCommand_Type_int32 :: "BaseCommand_Type \<Rightarrow> i32" where
  "BaseCommand_Type_int32 BaseCommand_CONNECT = 2"
| "BaseCommand_Type_int32 BaseCommand_CONNECTED = 3"
| "BaseCommand_Type_int32 BaseCommand_SUBSCRIBE = 4"
| "BaseCommand_Type_int32 BaseCommand_PRODUCER = 5"
| "BaseCommand_Type_int32 BaseCommand_SEND = 6"
| "BaseCommand_Type_int32 BaseCommand_SEND_RECEIPT = 7"
| "BaseCommand_Type_int32 BaseCommand_SEND_ERROR = 8"
| "BaseCommand_Type_int32 BaseCommand_MESSAGE = 9"
| "BaseCommand_Type_int32 BaseCommand_ACK = 10"
| "BaseCommand_Type_int32 BaseCommand_FLOW = 11"
| "BaseCommand_Type_int32 BaseCommand_UNSUBSCRIBE = 12"
| "BaseCommand_Type_int32 BaseCommand_SUCCESS = 13"
| "BaseCommand_Type_int32 BaseCommand_ERROR = 14"
| "BaseCommand_Type_int32 BaseCommand_CLOSE_PRODUCER = 15"
| "BaseCommand_Type_int32 BaseCommand_CLOSE_CONSUMER = 16"
| "BaseCommand_Type_int32 BaseCommand_PRODUCER_SUCCESS = 17"
| "BaseCommand_Type_int32 BaseCommand_PING = 18"
| "BaseCommand_Type_int32 BaseCommand_PONG = 19"
| "BaseCommand_Type_int32 BaseCommand_REDELIVER_UNACKNOWLEDGED_MESSAGES = 20"
| "BaseCommand_Type_int32 BaseCommand_PARTITIONED_METADATA = 21"
| "BaseCommand_Type_int32 BaseCommand_PARTITIONED_METADATA_RESPONSE = 22"
| "BaseCommand_Type_int32 BaseCommand_LOOKUP = 23"
| "BaseCommand_Type_int32 BaseCommand_LOOKUP_RESPONSE = 24"
| "BaseCommand_Type_int32 BaseCommand_CONSUMER_STATS = 25"
| "BaseCommand_Type_int32 BaseCommand_CONSUMER_STATS_RESPONSE = 26"
| "BaseCommand_Type_int32 BaseCommand_REACHED_END_OF_TOPIC = 27"
| "BaseCommand_Type_int32 BaseCommand_SEEK = 28"
| "BaseCommand_Type_int32 BaseCommand_GET_LAST_MESSAGE_ID = 29"
| "BaseCommand_Type_int32 BaseCommand_GET_LAST_MESSAGE_ID_RESPONSE = 30"
| "BaseCommand_Type_int32 BaseCommand_ACTIVE_CONSUMER_CHANGE = 31"
| "BaseCommand_Type_int32 BaseCommand_GET_TOPICS_OF_NAMESPACE = 32"
| "BaseCommand_Type_int32 BaseCommand_GET_TOPICS_OF_NAMESPACE_RESPONSE = 33"
| "BaseCommand_Type_int32 BaseCommand_GET_SCHEMA = 34"
| "BaseCommand_Type_int32 BaseCommand_GET_SCHEMA_RESPONSE = 35"
| "BaseCommand_Type_int32 (BaseCommand_Type_unknown v) = v"

definition BaseCommand_Type_name :: "(i32 \<times> string) list" where
  "BaseCommand_Type_name =
     [(2, ''CONNECT''), (3, ''CONNECTED''), (4, ''SUBSCRIBE''), (5, ''PRODUCER''),
      (6, ''SEND''), (7, ''SEND_RECEIPT''), (8, ''SEND_ERROR''), (9, ''MESSAGE''),
      (10, ''ACK''), (11, ''FLOW''), (12, ''UNSUBSCRIBE''), (13, ''SUCCESS''),
      (14, ''ERROR''), (15, ''CLOSE_PRODUCER''), (16, ''CLOSE_CONSUMER''),
      (17, ''PRODUCER_SUCCESS''), (18, ''PING''), (19, ''PONG''),
      (20, ''REDELIVER_UNACKNOWLEDGED_MESSAGES''), (21, ''PARTITIONED_METADATA''),
      (22, ''PARTITIONED_METADATA_RESPONSE''), (23, ''LOOKUP''), (24, ''LOOKUP_RESPONSE''),
      (25, ''CONSUMER_STATS''), (26, ''CONSUMER_STATS_RESPONSE''),
      (27, ''REACHED_END_OF_TOPIC''), (28, ''SEEK''), (29, ''GET_LAST_MESSAGE_ID''),
      (30, ''GET_LAST_MESSAGE_ID_RESPONSE''), (31, ''ACTIVE_CONSUMER_CHANGE''),
      (32, ''GET_TOPICS_OF_NAMESPACE''), (33, ''GET_TOPICS_OF_NAMESPACE_RESPONSE''),
      (34, ''GET_SCHEMA''), (35, ''GET_SCHEMA_RESPONSE'')]"

definition BaseCommand_Type_value :: "(string \<times> i32) list" where
  "BaseCommand_Type_value =
     [(''CONNECT'', 2), (''CONNECTED'', 3), (''SUBSCRIBE'', 4), (''PRODUCER'', 5),
      (''SEND'', 6), (''SEND_RECEIPT'', 7), (''SEND_ERROR'', 8), (''MESSAGE'', 9),
      (''ACK'', 10), (''FLOW'', 11), (''UNSUBSCRIBE'', 12), (''SUCCESS'', 13),
      (''ERROR'', 14), (''CLOSE_PRODUCER'', 15), (''CLOSE_CONSUMER'', 16),
      (''PRODUCER_SUCCESS'', 17), (''PING'', 18), (''PONG'', 19),
      (''REDELIVER_UNACKNOWLEDGED_MESSAGES'', 20), (''PARTITIONED_METADATA'', 21),
      (''PARTITIONED_METADATA_RESPONSE'', 22), (''LOOKUP'', 23), (''LOOKUP_RESPONSE'', 24),
      (''CONSUMER_STATS'', 25), (''CONSUMER_STATS_RESPONSE'', 26),
      (''REACHED_END_OF_TOPIC'', 27), (''SEEK'', 28), (''GET_LAST_MESSAGE_ID'', 29),
      (''GET_LAST_MESSAGE_ID_RESPONSE'', 30), (''ACTIVE_CONSUMER_CHANGE'', 31),
      (''GET_TOPICS_OF_NAMESPACE'', 32), (''GET_TOPICS_OF_NAMESPACE_RESPONSE'', 33),
      (''GET_SCHEMA'', 34), (''GET_SCHEMA_RESPONSE'', 35)]"

definition BaseCommand_Type_String :: "BaseCommand_Type \<Rightarrow> string" where
  "BaseCommand_Type_String x =
     (case map_of BaseCommand_Type_name (BaseCommand_Type_int32 x) of
        Some s \<Rightarrow> s
      | None \<Rightarrow> show_int (sint (BaseCommand_Type_int32 x)))"

section \<open>Messages\<close>

record MessageIdData =
  MessageIdData_LedgerId :: "u64 option"
  MessageIdData_EntryId :: "u64 option"
  MessageIdData_Partition :: "i32 option"
  MessageIdData_BatchIndex :: "i32 option"

record KeyValue =
  KeyValue_Key :: "string option"
  KeyValue_Value :: "string option"

record Schema =
  Schema_Name :: "string option"
  Schema_SchemaData :: "bytes option"
  Schema_Type :: "Schema_Type option"
  Schema_Properties :: "KeyValue option list"

record KeyLongValue =
  KeyLongValue_Key :: "string option"
  KeyLongValue_Value :: "u64 option"

record EncryptionKeys =
  EncryptionKeys_Key :: "string option"
  EncryptionKeys_Value :: "bytes option"
  EncryptionKeys_Metadata :: "KeyValue option list"

record MessageMetadata =
  MessageMetadata_ProducerName :: "string option"
  MessageMetadata_SequenceId :: "u64 option"
  MessageMetadata_PublishTime :: "u64 option"
  MessageMetadata_Properties :: "KeyValue option list"
  MessageMetadata_ReplicatedFrom :: "string option"
  MessageMetadata_PartitionKey :: "string option"
  MessageMetadata_ReplicateTo :: "string list"
  MessageMetadata_Compression :: "CompressionType option"
  MessageMetadata_UncompressedSize :: "u32 option"
  MessageMetadata_NumMessagesInBatch :: "i32 option"
  MessageMetadata_EventTime :: "u64 option"
  MessageMetadata_EncryptionKeys :: "EncryptionKeys option list"
  MessageMetadata_EncryptionAlgo :: "string option"
  MessageMetadata_EncryptionParam :: "bytes option"
  MessageMetadata_SchemaVersion :: "bytes option"
  MessageMetadata_PartitionKeyB64Encoded :: "bool option"

record SingleMessageMetadata =
  SingleMessageMetadata_Properties :: "KeyValue option list"
  SingleMessageMetadata_PartitionKey :: "string option"
  SingleMessageMetadata_PayloadSize :: "i32 option"
  SingleMessageMetadata_CompactedOut :: "bool option"
  SingleMessageMetadata_EventTime :: "u64 option"
  SingleMessageMetadata_PartitionKeyB64Encoded :: "bool option"

record CommandConnect =
  CommandConnect_ClientVersion :: "string option"
  CommandConnect_AuthMethod :: "AuthMethod option"
  CommandConnect_AuthMethodName :: "string option"
  CommandConnect_AuthData :: "bytes option"
  CommandConnect_ProtocolVersion :: "i32 option"
  CommandConnect_ProxyToBrokerUrl :: "string option"
  CommandConnect_OriginalPrincipal :: "string option"
  CommandConnect_OriginalAuthData :: "string option"
  CommandConnect_OriginalAuthMethod :: "string option"

record CommandConnected =
  CommandConnected_ServerVersion :: "string option"
  CommandConnected_ProtocolVersion :: "i32 option"

record CommandSubscribe =
  CommandSubscribe_Topic :: "string option"
  CommandSubscribe_Subscription :: "string option"
  CommandSubscribe_SubType :: "CommandSubscribe_SubType option"
  CommandSubscribe_ConsumerId :: "u64 option"
  CommandSubscribe_RequestId :: "u64 option"
  CommandSubscribe_ConsumerName :: "string option"
  CommandSubscribe_PriorityLevel :: "i32 option"
  CommandSubscribe_Durable :: "bool option"
  CommandSubscribe_StartMessageId :: "MessageIdData option"
  CommandSubscribe_Metadata :: "KeyValue option list"
  CommandSubscribe_ReadCompacted :: "bool option"
  CommandSubscribe_Schema :: "Schema option"
  CommandSubscribe_InitialPosition :: "CommandSubscribe_InitialPosition option"

record CommandPartitionedTopicMetadata =
  CommandPartitionedTopicMetadata_Topic :: "string option"
  CommandPartitionedTopicMetadata_RequestId :: "u64 option"
  CommandPartitionedTopicMetadata_OriginalPrincipal :: "string option"
  CommandPartitionedTopicMetadata_OriginalAuthData :: "string option"
  CommandPartitionedTopicMetadata_OriginalAuthMethod :: "string option"

record CommandPartitionedTopicMetadataResponse =
  CommandPartitionedTopicMetadataResponse_Partitions :: "u32 option"
  CommandPartitionedTopicMetadataResponse_RequestId :: "u64 option"
  CommandPartitionedTopicMetadataResponse_Response :: "CommandPartitionedTopicMetadataResponse_LookupType option"
  CommandPartitionedTopicMetadataResponse_Error :: "ServerError option"
  CommandPartitionedTopicMetadataResponse_Message :: "string option"

record CommandLookupTopic =
  CommandLookupTopic_Topic :: "string option"
  CommandLookupTopic_RequestId :: "u64 option"
  CommandLookupTopic_Authoritative :: "bool option"
  CommandLookupTopic_OriginalPrincipal :: "string option"
  CommandLookupTopic_OriginalAuthData :: "string option"
  CommandLookupTopic_OriginalAuthMethod :: "string option"

record CommandLookupTopicResponse =
  CommandLookupTopicResponse_BrokerServiceUrl :: "string option"
  CommandLookupTopicResponse_BrokerServiceUrlTls :: "string option"
  CommandLookupTopicResponse_Response :: "CommandLookupTopicResponse_LookupType option"
  CommandLookupTopicResponse_RequestId :: "u64 option"
  CommandLookupTopicResponse_Authoritative :: "bool option"
  CommandLookupTopicResponse_Error :: "ServerError option"
  CommandLookupTopicResponse_Message :: "string option"
  CommandLookupTopicResponse_ProxyThroughServiceUrl :: "bool option"

record CommandProducer =
  CommandProducer_Topic :: "string option"
  CommandProducer_ProducerId :: "u64 option"
  CommandProducer_RequestId :: "u64 option"
  CommandProducer_ProducerName :: "string option"
  CommandProducer_Encrypted :: "bool option"
  CommandProducer_Metadata :: "KeyValue option list"
  CommandProducer_Schema :: "Schema option"

record CommandSend =
  CommandSend_ProducerId :: "u64 option"
  CommandSend_SequenceId :: "u64 option"
  CommandSend_NumMessages :: "i32 option"

record CommandSendReceipt =
  CommandSendReceipt_ProducerId :: "u64 option"
  CommandSendReceipt_SequenceId :: "u64 option"
  CommandSendReceipt_MessageId :: "MessageIdData option"

record CommandSendError =
  CommandSendError_ProducerId :: "u64 option"
  CommandSendError_SequenceId :: "u64 option"
  CommandSendError_Error :: "ServerError option"
  CommandSendError_Message :: "string option"

record CommandMessage =
  CommandMessage_ConsumerId :: "u64 option"
  CommandMessage_MessageId :: "MessageIdData option"
  CommandMessage_RedeliveryCount :: "u32 option"

record CommandAck =
  CommandAck_ConsumerId :: "u64 option"
  CommandAck_AckType :: "CommandAck_AckType option"
  CommandAck_MessageId :: "MessageIdData option list"
  CommandAck_ValidationError :: "CommandAck_ValidationError option"
  CommandAck_Properties :: "KeyLongValue option list"

record CommandActiveConsumerChange =
  CommandActiveConsumerChange_ConsumerId :: "u64 option"
  CommandActiveConsumerChange_IsActive :: "bool option"

record CommandFlow =
  CommandFlow_ConsumerId :: "u64 option"
  CommandFlow_MessagePermits :: "u32 option"

record CommandUnsubscribe =
  CommandUnsubscribe_ConsumerId :: "u64 option"
  CommandUnsubscribe_RequestId :: "u64 option"

record CommandSeek =
  CommandSeek_ConsumerId :: "u64 option"
  CommandSeek_RequestId :: "u64 option"
  CommandSeek_MessageId :: "MessageIdData option"
  CommandSeek_MessagePublishTime :: "u64 option"

record CommandReachedEndOfTopic =
  CommandReachedEndOfTopic_ConsumerId :: "u64 option"

record CommandCloseProducer =
  CommandCloseProducer_ProducerId :: "u64 option"
  CommandCloseProducer_RequestId :: "u64 option"

record CommandCloseConsumer =
  CommandCloseConsumer_ConsumerId :: "u64 option"
  CommandCloseConsumer_RequestId :: "u64 option"

record CommandRedeliverUnacknowledgedMessages =
  CommandRedeliverUnacknowledgedMessages_ConsumerId :: "u64 option"
  CommandRedeliverUnacknowledgedMessages_MessageIds :: "MessageIdData option list"

record CommandSuccess =
  CommandSuccess_RequestId :: "u64 option"
  CommandSuccess_Schema :: "Schema option"

record CommandProducerSuccess =
  CommandProducerSuccess_RequestId :: "u64 option"
  CommandProducerSuccess_ProducerName :: "string option"
  CommandProducerSuccess_LastSequenceId :: "i64 option"
  CommandProducerSuccess_SchemaVersion :: "bytes option"

record CommandError =
  CommandError_RequestId :: "u64 option"
  CommandError_Error :: "ServerError option"
  CommandError_Message :: "string option"

datatype CommandPing = CommandPing

datatype CommandPong = CommandPong

record CommandConsumerStats =
  CommandConsumerStats_RequestId :: "u64 option"
  CommandConsumerStats_ConsumerId :: "u64 option"

record CommandConsumerStatsResponse =
  CommandConsumerStatsResponse_RequestId :: "u64 option"
  CommandConsumerStatsResponse_ErrorCode :: "ServerError option"
  CommandConsumerStatsResponse_ErrorMessage :: "string option"
  CommandConsumerStatsResponse_MsgRateOut :: "float64 option"
  CommandConsumerStatsResponse_MsgThroughputOut :: "float64 option"
  CommandConsumerStatsResponse_MsgRateRedeliver :: "float64 option"
  CommandConsumerStatsResponse_ConsumerName :: "string option"
  CommandConsumerStatsResponse_AvailablePermits :: "u64 option"
  CommandConsumerStatsResponse_UnackedMessages :: "u64 option"
  CommandConsumerStatsResponse_BlockedConsumerOnUnackedMsgs :: "bool option"
  CommandConsumerStatsResponse_Address :: "string option"
  CommandConsumerStatsResponse_ConnectedSince :: "string option"
  CommandConsumerStatsResponse_Type :: "string option"
  CommandConsumerStatsResponse_MsgRateExpired :: "float64 option"
  CommandConsumerStatsResponse_MsgBacklog :: "u64 option"

record CommandGetLastMessageId =
  CommandGetLastMessageId_ConsumerId :: "u64 option"
  CommandGetLastMessageId_RequestId :: "u64 option"

record CommandGetLastMessageIdResponse =
  CommandGetLastMessageIdResponse_LastMessageId :: "MessageIdData option"
  CommandGetLastMessageIdResponse_RequestId :: "u64 option"

record CommandGetTopicsOfNamespace =
  CommandGetTopicsOfNamespace_RequestId :: "u64 option"
  CommandGetTopicsOfNamespace_Namespace :: "string option"
  CommandGetTopicsOfNamespace_Mode :: "CommandGetTopicsOfNamespace_Mode option"

record CommandGetTopicsOfNamespaceResponse =
  CommandGetTopicsOfNamespaceResponse_RequestId :: "u64 option"
  CommandGetTopicsOfNamespaceResponse_Topics :: "string list"

record CommandGetSchema =
  CommandGetSchema_RequestId :: "u64 option"
  CommandGetSchema_Topic :: "string option"
  CommandGetSchema_SchemaVersion :: "bytes option"

record CommandGetSchemaResponse =
  CommandGetSchemaResponse_RequestId :: "u64 option"
  CommandGetSchemaResponse_ErrorCode :: "ServerError option"
  CommandGetSchemaResponse_ErrorMessage :: "string option"
  CommandGetSchemaResponse_Schema :: "Schema option"
  CommandGetSchemaResponse_SchemaVersion :: "bytes option"

record BaseCommand =
  BaseCommand_Type :: "BaseCommand_Type option"
  BaseCommand_Connect :: "CommandConnect option"
  BaseCommand_Connected :: "CommandConnected option"
  BaseCommand_Subscribe :: "CommandSubscribe option"
  BaseCommand_Producer :: "CommandProducer option"
  BaseCommand_Send :: "CommandSend option"
  BaseCommand_SendReceipt :: "CommandSendReceipt option"
  BaseCommand_SendError :: "CommandSendError option"
  BaseCommand_Message :: "CommandMessage option"
  BaseCommand_Ack :: "CommandAck option"
  BaseCommand_Flow :: "CommandFlow option"
  BaseCommand_Unsubscribe :: "CommandUnsubscribe option"
  BaseCommand_Success :: "CommandSuccess option"
  BaseCommand_Error :: "CommandError option"
  BaseCommand_CloseProducer :: "CommandCloseProducer option"
  BaseCommand_CloseConsumer :: "CommandCloseConsumer option"
  BaseCommand_ProducerSuccess :: "CommandProducerSuccess option"
  BaseCommand_Ping :: "CommandPing option"
  BaseCommand_Pong :: "CommandPong option"
  BaseCommand_RedeliverUnacknowledgedMessages :: "CommandRedeliverUnacknowledgedMessages option"
  BaseCommand_PartitionMetadata :: "CommandPartitionedTopicMetadata option"
  BaseCommand_PartitionMetadataResponse :: "CommandPartitionedTopicMetadataResponse option"
  BaseCommand_LookupTopic :: "CommandLookupTopic option"
  BaseCommand_LookupTopicResponse :: "CommandLookupTopicResponse option"
  BaseCommand_ConsumerStats :: "CommandConsumerStats option"
  BaseCommand_ConsumerStatsResponse :: "CommandConsumerStatsResponse option"
  BaseCommand_ReachedEndOfTopic :: "CommandReachedEndOfTopic option"
  BaseCommand_Seek :: "CommandSeek option"
  BaseCommand_GetLastMessageId :: "CommandGetLastMessageId option"
  BaseCommand_GetLastMessageIdResponse :: "CommandGetLastMessageIdResponse option"
  BaseCommand_ActiveConsumerChange :: "CommandActiveConsumerChange option"
  BaseCommand_GetTopicsOfNamespace :: "CommandGetTopicsOfNamespace option"
  BaseCommand_GetTopicsOfNamespaceResponse :: "CommandGetTopicsOfNamespaceResponse option"
  BaseCommand_GetSchema :: "CommandGetSchema option"
  BaseCommand_GetSchemaResponse :: "CommandGetSchemaResponse option"

subsection \<open>Zero values\<close>

definition new_MessageIdData :: MessageIdData where
  "new_MessageIdData = \<lparr>
     MessageIdData_LedgerId = None, MessageIdData_EntryId = None,
     MessageIdData_Partition = None, MessageIdData_BatchIndex = None\<rparr>"

definition new_MessageMetadata :: MessageMetadata where
  "new_MessageMetadata = \<lparr>
     MessageMetadata_ProducerName = None, MessageMetadata_SequenceId = None,
     MessageMetadata_PublishTime = None, MessageMetadata_Properties = [],
     MessageMetadata_ReplicatedFrom = None, MessageMetadata_PartitionKey = None,
     MessageMetadata_ReplicateTo = [], MessageMetadata_Compression = None,
     MessageMetadata_UncompressedSize = None, MessageMetadata_NumMessagesInBatch = None,
     MessageMetadata_EventTime = None, MessageMetadata_EncryptionKeys = [],
     MessageMetadata_EncryptionAlgo = None, MessageMetadata_EncryptionParam = None,
     MessageMetadata_SchemaVersion = None, MessageMetadata_PartitionKeyB64Encoded = None\<rparr>"

definition new_SingleMessageMetadata :: SingleMessageMetadata where
  "new_SingleMessageMetadata = \<lparr>
     SingleMessageMetadata_Properties = [], SingleMessageMetadata_PartitionKey = None,
     SingleMessageMetadata_PayloadSize = None, SingleMessageMetadata_CompactedOut = None,
     SingleMessageMetadata_EventTime = None,
     SingleMessageMetadata_PartitionKeyB64Encoded = None\<rparr>"

definition new_CommandConnect :: CommandConnect where
  "new_CommandConnect = \<lparr>
     CommandConnect_ClientVersion = None, CommandConnect_AuthMethod = None,
     CommandConnect_AuthMethodName = None, CommandConnect_AuthData = None,
     CommandConnect_ProtocolVersion = None, CommandConnect_ProxyToBrokerUrl = None,
     CommandConnect_OriginalPrincipal = None, CommandConnect_OriginalAuthData = None,
     CommandConnect_OriginalAuthMethod = None\<rparr>"

definition new_CommandConnected :: CommandConnected where
  "new_CommandConnected = \<lparr>
     CommandConnected_ServerVersion = None, CommandConnected_ProtocolVersion = None\<rparr>"

definition new_CommandSubscribe :: CommandSubscribe where
  "new_CommandSubscribe = \<lparr>
     CommandSubscribe_Topic = None, CommandSubscribe_Subscription = None,
     CommandSubscribe_SubType = None, CommandSubscribe_ConsumerId = None,
     CommandSubscribe_RequestId = None, CommandSubscribe_ConsumerName = None,
     CommandSubscribe_PriorityLevel = None, CommandSubscribe_Durable = None,
     CommandSubscribe_StartMessageId = None, CommandSubscribe_Metadata = [],
     CommandSubscribe_ReadCompacted = None, CommandSubscribe_Schema = None,
     CommandSubscribe_InitialPosition = None\<rparr>"

definition new_CommandPartitionedTopicMetadata :: CommandPartitionedTopicMetadata where
  "new_CommandPartitionedTopicMetadata = \<lparr>
     CommandPartitionedTopicMetadata_Topic = None,
     CommandPartitionedTopicMetadata_RequestId = None,
     CommandPartitionedTopicMetadata_OriginalPrincipal = None,
     CommandPartitionedTopicMetadata_OriginalAuthData = None,
     CommandPartitionedTopicMetadata_OriginalAuthMethod = None\<rparr>"

definition new_CommandPartitionedTopicMetadataResponse :: CommandPartitionedTopicMetadataResponse where
  "new_CommandPartitionedTopicMetadataResponse = \<lparr>
     CommandPartitionedTopicMetadataResponse_Partitions = None,
     CommandPartitionedTopicMetadataResponse_RequestId = None,
     CommandPartitionedTopicMetadataResponse_Response = None,
     CommandPartitionedTopicMetadataResponse_Error = None,
     CommandPartitionedTopicMetadataResponse_Message = None\<rparr>"

definition new_CommandLookupTopic :: CommandLookupTopic where
  "new_CommandLookupTopic = \<lparr>
     CommandLookupTopic_Topic = None, CommandLookupTopic_RequestId = None,
     CommandLookupTopic_Authoritative = None, CommandLookupTopic_OriginalPrincipal = None,
     CommandLookupTopic_OriginalAuthData = None,
     CommandLookupTopic_OriginalAuthMethod = None\<rparr>"

definition new_CommandLookupTopicResponse :: CommandLookupTopicResponse where
  "new_CommandLookupTopicResponse = \<lparr>
     CommandLookupTopicResponse_BrokerServiceUrl = None,
     CommandLookupTopicResponse_BrokerServiceUrlTls = None,
     CommandLookupTopicResponse_Response = None, CommandLookupTopicResponse_RequestId = None,
     CommandLookupTopicResponse_Authoritative = None,
     CommandLookupTopicResponse_Error = None, CommandLookupTopicResponse_Message = None,
     CommandLookupTopicResponse_ProxyThroughServiceUrl = None\<rparr>"

definition new_CommandProducer :: CommandProducer where
  "new_CommandProducer = \<lparr>
     CommandProducer_Topic = None, CommandProducer_ProducerId = None,
     CommandProducer_RequestId = None, CommandProducer_ProducerName = None,
     CommandProducer_Encrypted = None, CommandProducer_Metadata = [],
     CommandProducer_Schema = None\<rparr>"

definition new_CommandSend :: CommandSend where
  "new_CommandSend = \<lparr>
     CommandSend_ProducerId = None, CommandSend_SequenceId = None,
     CommandSend_NumMessages = None\<rparr>"

definition new_CommandSendReceipt :: CommandSendReceipt where
  "new_CommandSendReceipt = \<lparr>
     CommandSendReceipt_ProducerId = None, CommandSendReceipt_SequenceId = None,
     CommandSendReceipt_MessageId = None\<rparr>"

definition new_CommandSendError :: CommandSendError where
  "new_CommandSendError = \<lparr>
     CommandSendError_ProducerId = None, CommandSendError_SequenceId = None,
     CommandSendError_Error = None, CommandSendError_Message = None\<rparr>"

definition new_CommandMessage :: CommandMessage where
  "new_CommandMessage = \<lparr>
     CommandMessage_ConsumerId = None, CommandMessage_MessageId = None,
     CommandMessage_RedeliveryCount = None\<rparr>"

definition new_CommandAck :: CommandAck where
  "new_CommandAck = \<lparr>
     CommandAck_ConsumerId = None, CommandAck_AckType = None, CommandAck_MessageId = [],
     CommandAck_ValidationError = None, CommandAck_Properties = []\<rparr>"

definition new_CommandActiveConsumerChange :: CommandActiveConsumerChange where
  "new_CommandActiveConsumerChange = \<lparr>
     CommandActiveConsumerChange_ConsumerId = None,
     CommandActiveConsumerChange_IsActive = None\<rparr>"

definition new_CommandFlow :: CommandFlow where
  "new_CommandFlow = \<lparr>
     CommandFlow_ConsumerId = None, CommandFlow_MessagePermits = None\<rparr>"

definition new_CommandUnsubscribe :: CommandUnsubscribe where
  "new_CommandUnsubscribe = \<lparr>
     CommandUnsubscribe_ConsumerId = None, CommandUnsubscribe_RequestId = None\<rparr>"

definition new_CommandReachedEndOfTopic :: CommandReachedEndOfTopic where
  "new_CommandReachedEndOfTopic = \<lparr>
     CommandReachedEndOfTopic_ConsumerId = None\<rparr>"

definition new_CommandCloseProducer :: CommandCloseProducer where
  "new_CommandCloseProducer = \<lparr>
     CommandCloseProducer_ProducerId = None, CommandCloseProducer_RequestId = None\<rparr>"

definition new_CommandCloseConsumer :: CommandCloseConsumer where
  "new_CommandCloseConsumer = \<lparr>
     CommandCloseConsumer_ConsumerId = None, CommandCloseConsumer_RequestId = None\<rparr>"

definition new_CommandRedeliverUnacknowledgedMessages :: CommandRedeliverUnacknowledgedMessages where
  "new_CommandRedeliverUnacknowledgedMessages = \<lparr>
     CommandRedeliverUnacknowledgedMessages_ConsumerId = None,
     CommandRedeliverUnacknowledgedMessages_MessageIds = []\<rparr>"

definition new_CommandSuccess :: CommandSuccess where
  "new_CommandSuccess = \<lparr>
     CommandSuccess_RequestId = None, CommandSuccess_Schema = None\<rparr>"

definition new_CommandProducerSuccess :: CommandProducerSuccess where
  "new_CommandProducerSuccess = \<lparr>
     CommandProducerSuccess_RequestId = None, CommandProducerSuccess_ProducerName = None,
     CommandProducerSuccess_LastSequenceId = None,
     CommandProducerSuccess_SchemaVersion = None\<rparr>"

definition new_CommandError :: CommandError where
  "new_CommandError = \<lparr>
     CommandError_RequestId = None, CommandError_Error = None, CommandError_Message = None\<rparr>"

definition new_BaseCommand :: BaseCommand where
  "new_BaseCommand = \<lparr>
     BaseCommand_Type = None, BaseCommand_Connect = None, BaseCommand_Connected = None,
     BaseCommand_Subscribe = None, BaseCommand_Producer = None, BaseCommand_Send = None,
     BaseCommand_SendReceipt = None, BaseCommand_SendError = None,
     BaseCommand_Message = None, BaseCommand_Ack = None, BaseCommand_Flow = None,
     BaseCommand_Unsubscribe = None, BaseCommand_Success = None, BaseCommand_Error = None,
     BaseCommand_CloseProducer = None, BaseCommand_CloseConsumer = None,
     BaseCommand_ProducerSuccess = None, BaseCommand_Ping = None, BaseCommand_Pong = None,
     BaseCommand_RedeliverUnacknowledgedMessages = None,
     BaseCommand_PartitionMetadata = None, BaseCommand_PartitionMetadataResponse = None,
     BaseCommand_LookupTopic = None, BaseCommand_LookupTopicResponse = None,
     BaseCommand_ConsumerStats = None, BaseCommand_ConsumerStatsResponse = None,
     BaseCommand_ReachedEndOfTopic = None, BaseCommand_Seek = None,
     BaseCommand_GetLastMessageId = None, BaseCommand_GetLastMessageIdResponse = None,
     BaseCommand_ActiveConsumerChange = None, BaseCommand_GetTopicsOfNamespace = None,
     BaseCommand_GetTopicsOfNamespaceResponse = None, BaseCommand_GetSchema = None,
     BaseCommand_GetSchemaResponse = None\<rparr>"

subsection \<open>Getters\<close>

definition MessageMetadata_GetNumMessagesInBatch :: "MessageMetadata option \<Rightarrow> i32" where
  "MessageMetadata_GetNumMessagesInBatch m = get_field 1 MessageMetadata_NumMessagesInBatch m"

definition SingleMessageMetadata_GetPayloadSize :: "SingleMessageMetadata option \<Rightarrow> i32" where
  "SingleMessageMetadata_GetPayloadSize m = get_field 0 SingleMessageMetadata_PayloadSize m"

definition CommandPartitionedTopicMetadataResponse_GetPartitions :: "CommandPartitionedTopicMetadataResponse option \<Rightarrow> u32" where
  "CommandPartitionedTopicMetadataResponse_GetPartitions m = get_field 0 CommandPartitionedTopicMetadataResponse_Partitions m"

definition CommandPartitionedTopicMetadataResponse_GetRequestId :: "CommandPartitionedTopicMetadataResponse option \<Rightarrow> u64" where
  "CommandPartitionedTopicMetadataResponse_GetRequestId m = get_field 0 CommandPartitionedTopicMetadataResponse_RequestId m"

definition CommandLookupTopic_GetTopic :: "CommandLookupTopic option \<Rightarrow> string" where
  "CommandLookupTopic_GetTopic m = get_field '''' CommandLookupTopic_Topic m"

definition CommandLookupTopicResponse_GetBrokerServiceUrl :: "CommandLookupTopicResponse option \<Rightarrow> string" where
  "CommandLookupTopicResponse_GetBrokerServiceUrl m = get_field '''' CommandLookupTopicResponse_BrokerServiceUrl m"

definition CommandLookupTopicResponse_GetBrokerServiceUrlTls :: "CommandLookupTopicResponse option \<Rightarrow> string" where
  "CommandLookupTopicResponse_GetBrokerServiceUrlTls m = get_field '''' CommandLookupTopicResponse_BrokerServiceUrlTls m"

definition CommandLookupTopicResponse_GetResponse :: "CommandLookupTopicResponse option \<Rightarrow> CommandLookupTopicResponse_LookupType" where
  "CommandLookupTopicResponse_GetResponse m = get_field CommandLookupTopicResponse_Redirect CommandLookupTopicResponse_Response m"

definition CommandLookupTopicResponse_GetRequestId :: "CommandLookupTopicResponse option \<Rightarrow> u64" where
  "CommandLookupTopicResponse_GetRequestId m = get_field 0 CommandLookupTopicResponse_RequestId m"

definition CommandLookupTopicResponse_GetAuthoritative :: "CommandLookupTopicResponse option \<Rightarrow> bool" where
  "CommandLookupTopicResponse_GetAuthoritative m = get_field False CommandLookupTopicResponse_Authoritative m"

definition CommandLookupTopicResponse_GetError :: "CommandLookupTopicResponse option \<Rightarrow> ServerError" where
  "CommandLookupTopicResponse_GetError m = get_field ServerError_UnknownError CommandLookupTopicResponse_Error m"

definition CommandLookupTopicResponse_GetMessage :: "CommandLookupTopicResponse option \<Rightarrow> string" where
  "CommandLookupTopicResponse_GetMessage m = get_field '''' CommandLookupTopicResponse_Message m"

definition CommandLookupTopicResponse_GetProxyThroughServiceUrl :: "CommandLookupTopicResponse option \<Rightarrow> bool" where
  "CommandLookupTopicResponse_GetProxyThroughServiceUrl m = get_field False CommandLookupTopicResponse_ProxyThroughServiceUrl m"

definition CommandSendReceipt_GetProducerId :: "CommandSendReceipt option \<Rightarrow> u64" where
  "CommandSendReceipt_GetProducerId m = get_field 0 CommandSendReceipt_ProducerId m"

definition CommandSendReceipt_GetSequenceId :: "CommandSendReceipt option \<Rightarrow> u64" where
  "CommandSendReceipt_GetSequenceId m = get_field 0 CommandSendReceipt_SequenceId m"

definition CommandSendError_GetProducerId :: "CommandSendError option \<Rightarrow> u64" where
  "CommandSendError_GetProducerId m = get_field 0 CommandSendError_ProducerId m"

definition CommandSendError_GetSequenceId :: "CommandSendError option \<Rightarrow> u64" where
  "CommandSendError_GetSequenceId m = get_field 0 CommandSendError_SequenceId m"

definition CommandSendError_GetError :: "CommandSendError option \<Rightarrow> ServerError" where
  "CommandSendError_GetError m = get_field ServerError_UnknownError CommandSendError_Error m"

definition CommandSendError_GetMessage :: "CommandSendError option \<Rightarrow> string" where
  "CommandSendError_GetMessage m = get_field '''' CommandSendError_Message m"

definition CommandMessage_GetConsumerId :: "CommandMessage option \<Rightarrow> u64" where
  "CommandMessage_GetConsumerId m = get_field 0 CommandMessage_ConsumerId m"

definition CommandMessage_GetMessageId :: "CommandMessage option \<Rightarrow> MessageIdData option" where
  "CommandMessage_GetMessageId m = get_ptr CommandMessage_MessageId m"

definition CommandActiveConsumerChange_GetConsumerId :: "CommandActiveConsumerChange option \<Rightarrow> u64" where
  "CommandActiveConsumerChange_GetConsumerId m = get_field 0 CommandActiveConsumerChange_ConsumerId m"

definition CommandActiveConsumerChange_GetIsActive :: "CommandActiveConsumerChange option \<Rightarrow> bool" where
  "CommandActiveConsumerChange_GetIsActive m = get_field False CommandActiveConsumerChange_IsActive m"

definition CommandReachedEndOfTopic_GetConsumerId :: "CommandReachedEndOfTopic option \<Rightarrow> u64" where
  "CommandReachedEndOfTopic_GetConsumerId m = get_field 0 CommandReachedEndOfTopic_ConsumerId m"

definition CommandCloseProducer_GetProducerId :: "CommandCloseProducer option \<Rightarrow> u64" where
  "CommandCloseProducer_GetProducerId m = get_field 0 CommandCloseProducer_ProducerId m"

definition CommandCloseConsumer_GetConsumerId :: "CommandCloseConsumer option \<Rightarrow> u64" where
  "CommandCloseConsumer_GetConsumerId m = get_field 0 CommandCloseConsumer_ConsumerId m"

definition CommandSuccess_GetRequestId :: "CommandSuccess option \<Rightarrow> u64" where
  "CommandSuccess_GetRequestId m = get_field 0 CommandSuccess_RequestId m"

definition CommandProducerSuccess_GetRequestId :: "CommandProducerSuccess option \<Rightarrow> u64" where
  "CommandProducerSuccess_GetRequestId m = get_field 0 CommandProducerSuccess_RequestId m"

definition CommandProducerSuccess_GetProducerName :: "CommandProducerSuccess option \<Rightarrow> string" where
  "CommandProducerSuccess_GetProducerName m = get_field '''' CommandProducerSuccess_ProducerName m"

definition CommandError_GetRequestId :: "CommandError option \<Rightarrow> u64" where
  "CommandError_GetRequestId m = get_field 0 CommandError_RequestId m"

definition CommandError_GetError :: "CommandError option \<Rightarrow> ServerError" where
  "CommandError_GetError m = get_field ServerError_UnknownError CommandError_Error m"

definition CommandError_GetMessage :: "CommandError option \<Rightarrow> string" where
  "CommandError_GetMessage m = get_field '''' CommandError_Message m"

definition BaseCommand_GetType :: "BaseCommand option \<Rightarrow> BaseCommand_Type" where
  "BaseCommand_GetType m = get_field BaseCommand_CONNECT BaseCommand_Type m"

definition BaseCommand_GetConnected :: "BaseCommand option \<Rightarrow> CommandConnected option" where
  "BaseCommand_GetConnected m = get_ptr BaseCommand_Connected m"

definition BaseCommand_GetSubscribe :: "BaseCommand option \<Rightarrow> CommandSubscribe option" where
  "BaseCommand_GetSubscribe m = get_ptr BaseCommand_Subscribe m"

definition BaseCommand_GetProducer :: "BaseCommand option \<Rightarrow> CommandProducer option" where
  "BaseCommand_GetProducer m = get_ptr BaseCommand_Producer m"

definition BaseCommand_GetSend :: "BaseCommand option \<Rightarrow> CommandSend option" where
  "BaseCommand_GetSend m = get_ptr BaseCommand_Send m"

definition BaseCommand_GetSendReceipt :: "BaseCommand option \<Rightarrow> CommandSendReceipt option" where
  "BaseCommand_GetSendReceipt m = get_ptr BaseCommand_SendReceipt m"

definition BaseCommand_GetSendError :: "BaseCommand option \<Rightarrow> CommandSendError option" where
  "BaseCommand_GetSendError m = get_ptr BaseCommand_SendError m"

definition BaseCommand_GetMessage :: "BaseCommand option \<Rightarrow> CommandMessage option" where
  "BaseCommand_GetMessage m = get_ptr BaseCommand_Message m"

definition BaseCommand_GetSuccess :: "BaseCommand option \<Rightarrow> CommandSuccess option" where
  "BaseCommand_GetSuccess m = get_ptr BaseCommand_Success m"

definition BaseCommand_GetError :: "BaseCommand option \<Rightarrow> CommandError option" where
  "BaseCommand_GetError m = get_ptr BaseCommand_Error m"

definition BaseCommand_GetCloseProducer :: "BaseCommand option \<Rightarrow> CommandCloseProducer option" where
  "BaseCommand_GetCloseProducer m = get_ptr BaseCommand_CloseProducer m"

definition BaseCommand_GetCloseConsumer :: "BaseCommand option \<Rightarrow> CommandCloseConsumer option" where
  "BaseCommand_GetCloseConsumer m = get_ptr BaseCommand_CloseConsumer m"

definition BaseCommand_GetProducerSuccess :: "BaseCommand option \<Rightarrow> CommandProducerSuccess option" where
  "BaseCommand_GetProducerSuccess m = get_ptr BaseCommand_ProducerSuccess m"

definition BaseCommand_GetPing :: "BaseCommand option \<Rightarrow> CommandPing option" where
  "BaseCommand_GetPing m = get_ptr BaseCommand_Ping m"

definition BaseCommand_GetPartitionMetadataResponse :: "BaseCommand option \<Rightarrow> CommandPartitionedTopicMetadataResponse option" where
  "BaseCommand_GetPartitionMetadataResponse m = get_ptr BaseCommand_PartitionMetadataResponse m"

definition BaseCommand_GetLookupTopic :: "BaseCommand option \<Rightarrow> CommandLookupTopic option" where
  "BaseCommand_GetLookupTopic m = get_ptr BaseCommand_LookupTopic m"

definition BaseCommand_GetLookupTopicResponse :: "BaseCommand option \<Rightarrow> CommandLookupTopicResponse option" where
  "BaseCommand_GetLookupTopicResponse m = get_ptr BaseCommand_LookupTopicResponse m"

definition BaseCommand_GetReachedEndOfTopic :: "BaseCommand option \<Rightarrow> CommandReachedEndOfTopic option" where
  "BaseCommand_GetReachedEndOfTopic m = get_ptr BaseCommand_ReachedEndOfTopic m"

definition BaseCommand_GetActiveConsumerChange :: "BaseCommand option \<Rightarrow> CommandActiveConsumerChange option" where
  "BaseCommand_GetActiveConsumerChange m = get_ptr BaseCommand_ActiveConsumerChange m"

lemmas api_getter_defs =
  MessageMetadata_GetNumMessagesInBatch_def SingleMessageMetadata_GetPayloadSize_def
  CommandPartitionedTopicMetadataResponse_GetPartitions_def
  CommandPartitionedTopicMetadataResponse_GetRequestId_def CommandLookupTopic_GetTopic_def
  CommandLookupTopicResponse_GetBrokerServiceUrl_def
  CommandLookupTopicResponse_GetBrokerServiceUrlTls_def CommandLookupTopicResponse_GetResponse_def
  CommandLookupTopicResponse_GetRequestId_def CommandLookupTopicResponse_GetAuthoritative_def
  CommandLookupTopicResponse_GetError_def CommandLookupTopicResponse_GetMessage_def
  CommandLookupTopicResponse_GetProxyThroughServiceUrl_def CommandSendReceipt_GetProducerId_def
  CommandSendReceipt_GetSequenceId_def CommandSendError_GetProducerId_def
  CommandSendError_GetSequenceId_def CommandSendError_GetError_def CommandSendError_GetMessage_def
  CommandMessage_GetConsumerId_def CommandMessage_GetMessageId_def
  CommandActiveConsumerChange_GetConsumerId_def CommandActiveConsumerChange_GetIsActive_def
  CommandReachedEndOfTopic_GetConsumerId_def CommandCloseProducer_GetProducerId_def
  CommandCloseConsumer_GetConsumerId_def CommandSuccess_GetRequestId_def
  CommandProducerSuccess_GetRequestId_def CommandProducerSuccess_GetProducerName_def
  CommandError_GetRequestId_def CommandError_GetError_def CommandError_GetMessage_def
  BaseCommand_GetType_def BaseCommand_GetConnected_def BaseCommand_GetSubscribe_def
  BaseCommand_GetProducer_def BaseCommand_GetSend_def BaseCommand_GetSendReceipt_def
  BaseCommand_GetSendError_def BaseCommand_GetMessage_def BaseCommand_GetSuccess_def
  BaseCommand_GetError_def BaseCommand_GetCloseProducer_def BaseCommand_GetCloseConsumer_def
  BaseCommand_GetProducerSuccess_def BaseCommand_GetPing_def
  BaseCommand_GetPartitionMetadataResponse_def BaseCommand_GetLookupTopic_def
  BaseCommand_GetLookupTopicResponse_def BaseCommand_GetReachedEndOfTopic_def
  BaseCommand_GetActiveConsumerChange_def

lemmas api_new_defs =
  new_MessageIdData_def
  new_MessageMetadata_def
  new_SingleMessageMetadata_def
  new_CommandConnect_def
  new_CommandConnected_def
  new_CommandSubscribe_def
  new_CommandPartitionedTopicMetadata_def
  new_CommandPartitionedTopicMetadataResponse_def
  new_CommandLookupTopic_def
  new_CommandLookupTopicResponse_def
  new_CommandProducer_def
  new_CommandSend_def
  new_CommandSendReceipt_def
  new_CommandSendError_def
  new_CommandMessage_def
  new_CommandAck_def
  new_CommandActiveConsumerChange_def
  new_CommandFlow_def
  new_CommandUnsubscribe_def
  new_CommandReachedEndOfTopic_def
  new_CommandCloseProducer_def
  new_CommandCloseConsumer_def
  new_CommandRedeliverUnacknowledgedMessages_def
  new_CommandSuccess_def
  new_CommandProducerSuccess_def
  new_CommandError_def
  new_BaseCommand_def

end
