(* ===== verification/Errors.thy ===== *)
theory Errors
  imports Api
begin

text \<open>
  Error values. \<open>go_error\<close> has one constructor per error the program returns or receives, with the
  arguments its format string prints; a run-time panic that ends a goroutine is the constructor
  \<open>ErrPanic\<close>. \<open>UnexpectedErrMsg\<close> and the non-blocking error channel \<open>AsyncErrors\<close> are
  those of \<^verbatim>\<open>utils/error.go\<close>. A buffered Go channel is a record \<open>chan\<close>: its buffer, its
  capacity, the goroutines blocked on a receive and the values handed to them.
\<close>

section \<open>Errors\<close>

record UnexpectedErrMsg =
  UnexpectedErrMsg_msgType :: BaseCommand_Type
  UnexpectedErrMsg_ids :: "u64 list"

datatype ctx_error = Canceled | DeadlineExceeded

datatype go_error =
    EOF
  | ErrUnexpectedEOF
  | ErrNet string
  | ErrProto string
  | ErrPanic string
  | ErrCtx ctx_error
  | ErrFrameSize int
  | ErrFrameCmdSize u32
  | ErrFrameMetadataSize u32
  | ErrFramePayloadSize int
  | ErrChecksum "bytes option" "bytes option"
  | ErrEncodedFrameSize u32
  | ErrNumMessagesInBatch
  | ErrOutstandingGlobal
  | ErrOutstandingProdSeqID u64 u64
  | ErrOutstandingReqID u64
  | ErrUnexpected UnexpectedErrMsg
  | ErrServer ServerError string
  | ErrLookup ServerError string
  | ErrClosedProducer
  | ErrPermits u32
  | ErrQueueFull string nat
  | ErrUnhandled BaseCommand_Type
  | ErrStopped
  | ErrMaxRedirects nat string
  | ErrorInvalidSubMode
  | ErrConsumerOverflow
  | ErrConsumerClosed
  | ErrConsumerConnClosed
  | ErrHandler string
  | ErrFrameType BaseCommand_Type BaseCommand_Type

definition NewUnexpectedErrMsg :: "BaseCommand_Type \<Rightarrow> u64 list \<Rightarrow> go_error" where
  "NewUnexpectedErrMsg msgType ids =
     ErrUnexpected \<lparr>UnexpectedErrMsg_msgType = msgType, UnexpectedErrMsg_ids = ids\<rparr>"

text \<open>
  The message of an \<open>UnexpectedErrMsg\<close>. The verb \<^verbatim>\<open>%q\<close> puts double quotes around the type
  name, which needs no escapes: it is made of letters, digits, underscores and a minus sign.
\<close>

definition UnexpectedErrMsg_Error :: "UnexpectedErrMsg \<Rightarrow> string" where
  "UnexpectedErrMsg_Error e =
     foldl (\<lambda>msg i. msg @ '' id='' @ show_nat (unat i))
       (''received unexpected message of type '' @
        [char_of (34::nat)] @ BaseCommand_Type_String (UnexpectedErrMsg_msgType e) @ [char_of (34::nat)])
       (UnexpectedErrMsg_ids e)"

section \<open>Channels\<close>

record 'a chan =
  ch_cap :: nat
  ch_buf :: "'a list"
  ch_receivers :: nat
  ch_taken :: "'a list"

definition make_chan :: "nat \<Rightarrow> 'a chan" where
  "make_chan n = \<lparr>ch_cap = n, ch_buf = [], ch_receivers = 0, ch_taken = []\<rparr>"

text \<open>
  A send that does not block: to a goroutine already blocked in a receive, else into free buffer
  space; \<open>None\<close> where the send would block. A receive that does not block takes the oldest value.
\<close>

definition try_send :: "'a \<Rightarrow> 'a chan \<Rightarrow> 'a chan option" where
  "try_send v c =
     (if 0 < ch_receivers c
      then Some (c\<lparr>ch_receivers := ch_receivers c - 1, ch_taken := ch_taken c @ [v]\<rparr>)
      else if length (ch_buf c) < ch_cap c then Some (c\<lparr>ch_buf := ch_buf c @ [v]\<rparr>)
      else None)"

definition try_recv :: "'a chan \<Rightarrow> ('a \<times> 'a chan) option" where
  "try_recv c =
     (case ch_buf c of [] \<Rightarrow> None | v # vs \<Rightarrow> Some (v, c\<lparr>ch_buf := vs, ch_taken := ch_taken c @ [v]\<rparr>))"

definition chan_inv :: "'a chan \<Rightarrow> bool" where
  "chan_inv c \<longleftrightarrow> length (ch_buf c) \<le> ch_cap c \<and> (0 < ch_receivers c \<longrightarrow> ch_buf c = [])"

text \<open>Every value sent, in order: those already received and those still buffered.\<close>

definition chan_history :: "'a chan \<Rightarrow> 'a list" where
  "chan_history c = ch_taken c @ ch_buf c"

lemma chan_inv_make [simp]: "chan_inv (make_chan n)"
  by (simp add: chan_inv_def make_chan_def)

lemma try_send_inv:
  "try_send v c = Some c' \<Longrightarrow> chan_inv c \<Longrightarrow> chan_inv c'"
  by (auto simp: try_send_def chan_inv_def split: if_splits)

lemma try_send_history:
  "try_send v c = Some c' \<Longrightarrow> chan_inv c \<Longrightarrow> chan_history c' = chan_history c @ [v]"
  by (auto simp: try_send_def chan_inv_def chan_history_def split: if_splits)

lemma try_send_cap: "try_send v c = Some c' \<Longrightarrow> ch_cap c' = ch_cap c"
  by (auto simp: try_send_def split: if_splits)

lemma try_send_None:
  "try_send v c = None \<longleftrightarrow> ch_receivers c = 0 \<and> ch_cap c \<le> length (ch_buf c)"
  by (auto simp: try_send_def)

lemma try_recv_inv: "try_recv c = Some (v, c') \<Longrightarrow> chan_inv c \<Longrightarrow> chan_inv c'"
  by (auto simp: try_recv_def chan_inv_def split: list.splits)

lemma try_recv_history:
  "try_recv c = Some (v, c') \<Longrightarrow> chan_history c' = chan_history c"
  by (auto simp: try_recv_def chan_history_def split: list.splits)

text \<open>
  A channel that only ever gets closed is its closed flag; closing it again is a panic.
\<close>

definition close_signal :: "bool \<Rightarrow> go_error + bool" where
  "close_signal closed =
     (if closed then Inl (ErrPanic ''close of closed channel'') else Inr True)"

section \<open>AsyncErrors\<close>

text \<open>The channel may be nil (\<open>None\<close>), on which a non-blocking send does nothing.\<close>

type_synonym AsyncErrors = "go_error chan option"

definition AsyncErrors_Send :: "go_error \<Rightarrow> AsyncErrors \<Rightarrow> AsyncErrors" where
  "AsyncErrors_Send err a =
     (case a of
        None \<Rightarrow> None
      | Some c \<Rightarrow> (case try_send err c of Some c' \<Rightarrow> Some c' | None \<Rightarrow> Some c))"

fun AsyncErrors_SendAll :: "go_error list \<Rightarrow> AsyncErrors \<Rightarrow> AsyncErrors" where
  "AsyncErrors_SendAll [] a = a"
| "AsyncErrors_SendAll (e # es) a = AsyncErrors_SendAll es (AsyncErrors_Send e a)"

lemma AsyncErrors_Send_nil [simp]: "AsyncErrors_Send e None = None"
  by (simp add: AsyncErrors_Send_def)

lemma AsyncErrors_Send_buffered:
  assumes "ch_receivers c = 0"
  shows "AsyncErrors_Send e (Some c) =
    Some (c\<lparr>ch_buf := take (max (ch_cap c) (length (ch_buf c))) (ch_buf c @ [e])\<rparr>)"
  using assms by (auto simp: AsyncErrors_Send_def try_send_def)

end
