(* ===== verification/GoIO.thy ===== *)
theory GoIO
  imports Errors
begin

unbundle bit_operations_syntax

text \<open>
  The parts of Go's \<^verbatim>\<open>io\<close>, \<^verbatim>\<open>bytes\<close>, \<^verbatim>\<open>strings\<close> and \<^verbatim>\<open>encoding/binary\<close> that the
  client uses. A reader is the bytes it still holds and the error it returns after the last of
  them; a writer is the bytes it has accepted, how many more it takes and the error it then
  returns.
\<close>

section \<open>Big-endian integers\<close>

definition be32 :: "u32 \<Rightarrow> bytes" where
  "be32 x = [ucast (drop_bit 24 x), ucast (drop_bit 16 x), ucast (drop_bit 8 x), ucast x]"

fun be32_get :: "bytes \<Rightarrow> u32" where
  "be32_get (b0 # b1 # b2 # b3 # _) =
     push_bit 24 (ucast b0) OR push_bit 16 (ucast b1) OR push_bit 8 (ucast b2) OR ucast b3"
| "be32_get _ = 0"

lemma length_be32 [simp]: "length (be32 x) = 4"
  by (simp add: be32_def)

lemma be32_get_be32 [simp]: "be32_get (be32 x @ r) = x"
proof -
  let ?y = "push_bit 24 (ucast (ucast (drop_bit 24 x) :: byte)) OR
    push_bit 16 (ucast (ucast (drop_bit 16 x) :: byte)) OR
    push_bit 8 (ucast (ucast (drop_bit 8 x) :: byte)) OR ucast (ucast x :: byte) :: u32"
  have "?y = x"
  proof (rule bit_word_eqI)
    fix n :: nat
    assume n: "n < LENGTH(32)"
    consider "n < 8" | "8 \<le> n" "n < 16" | "16 \<le> n" "n < 24" | "24 \<le> n" "n < 32"
      using n by fastforce
    then show "bit ?y n = bit x n"
      by cases (auto simp: bit_simps)
  qed
  then show ?thesis by (simp add: be32_def)
qed

lemma be32_get_be32_Nil [simp]: "be32_get (be32 x) = x"
  using be32_get_be32 [of x "[]"] by simp

lemma bit_byte_high: "8 \<le> n \<Longrightarrow> \<not> bit (b :: byte) n"
  by (auto dest: bit_imp_le_length)

lemma be32_be32_get:
  assumes "length bs = 4"
  shows "be32 (be32_get bs) = bs"
proof -
  from assms obtain a b c d where bs: "bs = [a, b, c, d]"
    by (auto simp: numeral_eq_Suc length_Suc_conv)
  show ?thesis
    unfolding bs be32_def
    by (auto intro!: bit_word_eqI simp: bit_simps bit_byte_high)
qed

lemma be32_inject [simp]: "be32 x = be32 y \<longleftrightarrow> x = y"
  using be32_get_be32_Nil by metis

section \<open>Readers\<close>

record reader =
  rd_data :: bytes
  rd_err :: go_error

text \<open>
  \<open>ReadFull n\<close> reads exactly \<open>n\<close> bytes. With fewer left it has consumed them all and returns
  the reader's error, except that an end of file after the first byte is unexpected.
\<close>

definition ReadFull :: "nat \<Rightarrow> reader \<Rightarrow> bytes \<times> go_error option \<times> reader" where
  "ReadFull n r =
     (let d = rd_data r in
      if n \<le> length d then (take n d, None, r\<lparr>rd_data := drop n d\<rparr>)
      else (d, Some (if rd_err r = EOF \<and> d \<noteq> [] then ErrUnexpectedEOF else rd_err r),
            r\<lparr>rd_data := []\<rparr>))"

lemma ReadFull_ok [simp]:
  "n \<le> length (rd_data r) \<Longrightarrow>
   ReadFull n r = (take n (rd_data r), None, r\<lparr>rd_data := drop n (rd_data r)\<rparr>)"
  by (simp add: ReadFull_def Let_def)

lemma ReadFull_split:
  assumes "ReadFull n r = (bs, e, r')"
  shows "rd_data r = bs @ rd_data r'" "rd_err r' = rd_err r" "length bs \<le> n"
    and "e = None \<longleftrightarrow> length bs = n"
  using assms by (auto simp: ReadFull_def Let_def split: if_splits)

section \<open>Writers\<close>

record writer =
  wr_out :: bytes
  wr_room :: "nat option"
  wr_err :: go_error

definition new_buffer :: writer where
  "new_buffer = \<lparr>wr_out = [], wr_room = None, wr_err = ErrUnexpectedEOF\<rparr>"

definition Write :: "bytes \<Rightarrow> writer \<Rightarrow> go_error option \<times> writer" where
  "Write bs w =
     (case wr_room w of
        None \<Rightarrow> (None, w\<lparr>wr_out := wr_out w @ bs\<rparr>)
      | Some n \<Rightarrow>
          if length bs \<le> n
          then (None, w\<lparr>wr_out := wr_out w @ bs, wr_room := Some (n - length bs)\<rparr>)
          else (Some (wr_err w), w\<lparr>wr_out := wr_out w @ take n bs, wr_room := Some 0\<rparr>))"

text \<open>Writing pieces one after another, up to the first error.\<close>

fun write_all :: "bytes list \<Rightarrow> writer \<Rightarrow> go_error option \<times> writer" where
  "write_all [] w = (None, w)"
| "write_all (p # ps) w =
     (case Write p w of (Some e, w') \<Rightarrow> (Some e, w') | (None, w') \<Rightarrow> write_all ps w')"

lemma Write_unbounded [simp]:
  "wr_room w = None \<Longrightarrow> Write bs w = (None, w\<lparr>wr_out := wr_out w @ bs\<rparr>)"
  by (simp add: Write_def)

lemma write_all_unbounded [simp]:
  "wr_room w = None \<Longrightarrow> write_all ps w = (None, w\<lparr>wr_out := wr_out w @ concat ps\<rparr>)"
  by (induction ps arbitrary: w) auto

lemma Write_prefix:
  assumes "Write bs w = (e, w')"
  obtains k where "wr_out w' = wr_out w @ take k bs" and "e = None \<longrightarrow> take k bs = bs"
  using assms by (fastforce simp: Write_def split: option.splits if_splits intro: that [of "length bs"])

text \<open>What reaches the wire is always a prefix of what was to be written.\<close>

lemma write_all_prefix:
  assumes "write_all ps w = (e, w')"
  shows "\<exists>k. wr_out w' = wr_out w @ take k (concat ps) \<and> (e = None \<longrightarrow> take k (concat ps) = concat ps)"
  using assms
proof (induction ps arbitrary: w)
  case Nil
  then show ?case by auto
next
  case (Cons p ps)
  obtain e1 w1 where w1: "Write p w = (e1, w1)" by fastforce
  obtain k where k: "wr_out w1 = wr_out w @ take k p" "e1 = None \<longrightarrow> take k p = p"
    using w1 by (rule Write_prefix)
  show ?case
  proof (cases e1)
    case None
    with Cons.prems w1 have "write_all ps w1 = (e, w')" by simp
    from Cons.IH [OF this] obtain m where
      m: "wr_out w' = wr_out w1 @ take m (concat ps)" "e = None \<longrightarrow> take m (concat ps) = concat ps"
      by blast
    with k None have "wr_out w' = wr_out w @ take (length p + m) (concat (p # ps))" by simp
    with m(2) show ?thesis by (intro exI [of _ "length p + m"]) auto
  next
    case (Some x)
    with Cons.prems w1 have "e = Some x" "w' = w1" by auto
    moreover have "take k p = take (min k (length p)) (concat (p # ps))" by (simp add: min_def)
    ultimately show ?thesis using k(1) by fastforce
  qed
qed

section \<open>Strings\<close>

fun TrimPrefix :: "string \<Rightarrow> string \<Rightarrow> string" where
  "TrimPrefix s p = (if take (length p) s = p then drop (length p) s else s)"

declare TrimPrefix.simps [simp del]

lemma TrimPrefix_append [simp]: "TrimPrefix (p @ s) p = s"
  by (simp add: TrimPrefix.simps)

end
