(* ===== verification/Checksum.thy ===== *)
theory Checksum
  imports GoIO
begin

unbundle bit_operations_syntax

text \<open>
  The frame checksum of \<^verbatim>\<open>core/frame/frame_checksum.go\<close>: CRC-32 with the Castagnoli
  polynomial, as Go's \<^verbatim>\<open>hash/crc32\<close> computes it from a table of 256 words. The lemmas show that
  the hash does not depend on how the input is cut into writes, that it tells any two inputs apart
  that differ only inside a window of four consecutive bytes, and that it is the checksum defined bit
  by bit.
\<close>

section \<open>CRC-32C\<close>

definition Castagnoli :: u32 where
  "Castagnoli = 0x82f63b78"

definition crc_shift :: "u32 \<Rightarrow> u32" where
  "crc_shift c = (if bit c 0 then drop_bit 1 c XOR Castagnoli else drop_bit 1 c)"

definition crc32cTbl :: "byte \<Rightarrow> u32" where
  "crc32cTbl i = (crc_shift ^^ 8) (ucast i)"

definition crc_byte :: "u32 \<Rightarrow> byte \<Rightarrow> u32" where
  "crc_byte crc v = crc32cTbl (ucast crc XOR v) XOR drop_bit 8 crc"

definition crc_update :: "u32 \<Rightarrow> bytes \<Rightarrow> u32" where
  "crc_update crc p = NOT (foldl crc_byte (NOT crc) p)"

section \<open>frameChecksum\<close>

text \<open>The hash of a \<open>frameChecksum\<close> is nil until the first write.\<close>

record frameChecksum =
  frameChecksum_h :: "u32 option"

definition new_frameChecksum :: frameChecksum where
  "new_frameChecksum = \<lparr>frameChecksum_h = None\<rparr>"

definition frameChecksum_Write :: "bytes \<Rightarrow> frameChecksum \<Rightarrow> frameChecksum" where
  "frameChecksum_Write p f =
     (let crc = (case frameChecksum_h f of None \<Rightarrow> 0 | Some c \<Rightarrow> c)
      in f\<lparr>frameChecksum_h := Some (crc_update crc p)\<rparr>)"

definition frameChecksum_compute :: "frameChecksum \<Rightarrow> bytes option" where
  "frameChecksum_compute f = map_option be32 (frameChecksum_h f)"

definition crc32c :: "bytes \<Rightarrow> u32" where
  "crc32c p = crc_update 0 p"

section \<open>The shift register is linear and injective\<close>

lemma xor_cancel_right [list_simps]: "a XOR c = b XOR c \<longleftrightarrow> a = b" for a b c :: "'a::len word"
proof
  assume "a XOR c = b XOR c"
  then have "(a XOR c) XOR c = (b XOR c) XOR c" by (rule arg_cong)
  then show "a = b" by (simp add: xor.assoc)
qed simp

lemma xor_cancel_left [list_simps]: "c XOR a = c XOR b \<longleftrightarrow> a = b" for a b c :: "'a::len word"
  using xor_cancel_right [of a c b] by (simp add: xor.commute)

lemma crc_shift_xor: "crc_shift (a XOR b) = crc_shift a XOR crc_shift b"
  by (auto simp: crc_shift_def bit_xor_iff drop_bit_xor ac_simps intro!: bit_word_eqI)

lemma crc_shift_pow_xor:
  "(crc_shift ^^ n) (a XOR b) = (crc_shift ^^ n) a XOR (crc_shift ^^ n) b"
  by (induction n) (simp_all add: crc_shift_xor)

lemma bit_crc_shift_31: "bit (crc_shift c) 31 = bit c 0"
  by (auto simp: crc_shift_def bit_simps Castagnoli_def bit_imp_le_length dest: bit_imp_le_length)

lemma inj_crc_shift: "inj crc_shift"
proof (rule injI)
  fix a b :: u32
  assume eq: "crc_shift a = crc_shift b"
  then have b0: "bit a 0 = bit b 0" using bit_crc_shift_31 by metis
  with eq have "drop_bit 1 a = drop_bit 1 b"
    by (auto simp: crc_shift_def xor_cancel_right split: if_splits)
  then have "bit a (Suc n) = bit b (Suc n)" for n
    using bit_drop_bit_eq [of 1 a] bit_drop_bit_eq [of 1 b] by (metis comp_apply plus_1_eq_Suc)
  with b0 show "a = b"
    by (intro bit_word_eqI) (metis not0_implies_Suc)
qed

lemma inj_crc_shift_pow: "inj (crc_shift ^^ n)"
  using inj_crc_shift inj_fn by blast

lemma crc_shift_pow_low:
  "(\<And>i. i < n \<Longrightarrow> \<not> bit x i) \<Longrightarrow> (crc_shift ^^ n) x = drop_bit n x"
proof (induction n arbitrary: x)
  case 0
  then show ?case by simp
next
  case (Suc n)
  have "(crc_shift ^^ Suc n) x = (crc_shift ^^ n) (crc_shift x)"
    by (simp add: funpow_swap1)
  also have "crc_shift x = drop_bit 1 x"
    using Suc.prems [of 0] by (simp add: crc_shift_def)
  also have "(crc_shift ^^ n) (drop_bit 1 x) = drop_bit n (drop_bit 1 x)"
    using Suc.prems by (intro Suc.IH) (auto simp: bit_simps)
  finally show ?case by simp
qed

section \<open>One byte and four bytes\<close>

lemma crc_byte_shift: "crc_byte c v = (crc_shift ^^ 8) (c XOR ucast v)"
proof -
  let ?lo = "ucast (ucast c XOR v :: byte) :: u32"
  let ?hi = "push_bit 8 (drop_bit 8 c) :: u32"
  have "c XOR ucast v = ?lo XOR ?hi"
    by (rule bit_word_eqI) (auto simp: bit_simps bit_byte_high)
  moreover have "bit c (8 + n) \<Longrightarrow> n < 24" for n
    using bit_imp_le_length [of c "8 + n"] by simp
  then have "(crc_shift ^^ 8) ?hi = drop_bit 8 c"
    by (subst crc_shift_pow_low) (auto simp: bit_simps intro!: bit_word_eqI)
  ultimately show ?thesis
    by (simp only: crc_shift_pow_xor crc_byte_def crc32cTbl_def)
qed

text \<open>The little-endian value of up to four bytes.\<close>

fun le_word :: "bytes \<Rightarrow> u32" where
  "le_word [] = 0"
| "le_word (b # bs) = ucast b XOR push_bit 8 (le_word bs)"

lemma bit_le_word_high: "8 * length bs \<le> n \<Longrightarrow> \<not> bit (le_word bs) n"
proof (induction bs arbitrary: n)
  case Nil
  then show ?case by simp
next
  case (Cons b bs)
  then show ?case by (auto simp: bit_simps bit_byte_high)
qed

lemma crc_window:
  "length bs \<le> 4 \<Longrightarrow> foldl crc_byte c bs = (crc_shift ^^ (8 * length bs)) (c XOR le_word bs)"
proof (induction bs arbitrary: c)
  case Nil
  then show ?case by simp
next
  case (Cons b bs)
  have "(crc_shift ^^ 8) (push_bit 8 (le_word bs)) = drop_bit 8 (push_bit 8 (le_word bs))"
    by (rule crc_shift_pow_low) (simp add: bit_simps)
  also have "\<dots> = le_word bs"
    using Cons.prems bit_le_word_high [of bs]
    by (intro bit_word_eqI) (auto simp: bit_simps intro: ccontr)
  finally have sh: "(crc_shift ^^ 8) (push_bit 8 (le_word bs)) = le_word bs" .
  have "foldl crc_byte c (b # bs) =
      (crc_shift ^^ (8 * length bs)) ((crc_shift ^^ 8) (c XOR ucast b) XOR le_word bs)"
    using Cons.IH [of "crc_byte c b"] Cons.prems by (simp add: crc_byte_shift [of c b])
  also have "(crc_shift ^^ 8) (c XOR ucast b) XOR le_word bs = (crc_shift ^^ 8) (c XOR le_word (b # bs))"
    using sh by (simp add: crc_shift_pow_xor ac_simps)
  finally show ?case
    by (simp add: funpow_add add.commute [of 8])
qed

lemma le_word_inject:
  "length as = length bs \<Longrightarrow> length bs \<le> 4 \<Longrightarrow> le_word as = le_word bs \<Longrightarrow> as = bs"
proof (induction as bs rule: list_induct2)
  case Nil
  then show ?case by simp
next
  case (Cons a as b bs)
  have eq: "bit (le_word (a # as)) n = bit (le_word (b # bs)) n" for n
    using Cons.prems by simp
  have "bit a n = bit b n" if "n < 8" for n
    using eq [of n] that by (simp add: bit_simps)
  then have "a = b" by (intro bit_word_eqI) simp
  moreover have "bit (le_word as) n = bit (le_word bs) n" if "n < 24" for n
    using eq [of "8 + n"] that by (simp add: bit_simps bit_byte_high)
  then have "le_word as = le_word bs"
  proof (intro bit_word_eqI)
    fix n :: nat
    assume low: "\<And>n. n < 24 \<Longrightarrow> bit (le_word as) n = bit (le_word bs) n"
    have "8 * length as \<le> 24" "8 * length bs \<le> 24" using Cons by simp_all
    then have "24 \<le> n \<Longrightarrow> \<not> bit (le_word as) n \<and> \<not> bit (le_word bs) n"
      using bit_le_word_high [of as n] bit_le_word_high [of bs n] by linarith
    with low show "bit (le_word as) n = bit (le_word bs) n" by (cases "n < 24") auto
  qed
  ultimately show ?case using Cons by simp
qed

lemma foldl_crc_byte_inj: "foldl crc_byte c bs = foldl crc_byte d bs \<Longrightarrow> c = d"
proof (induction bs arbitrary: c d)
  case Nil
  then show ?case by simp
next
  case (Cons b bs)
  then have "crc_byte c b = crc_byte d b" by simp
  then have "(crc_shift ^^ 8) (c XOR ucast b) = (crc_shift ^^ 8) (d XOR ucast b)"
    by (simp only: crc_byte_shift)
  then have "c XOR ucast b = d XOR ucast b"
    by (rule injD [OF inj_crc_shift_pow])
  then show ?case by (simp add: xor_cancel_right)
qed

section \<open>Facts on the hash\<close>

lemma crc_update_append: "crc_update (crc_update c p) q = crc_update c (p @ q)"
  by (simp add: crc_update_def)

lemma frameChecksum_Write_append [simp]:
  "frameChecksum_Write q (frameChecksum_Write p f) = frameChecksum_Write (p @ q) f"
  by (simp add: frameChecksum_Write_def crc_update_append)

lemma frameChecksum_compute_new [simp]: "frameChecksum_compute new_frameChecksum = None"
  by (simp add: frameChecksum_compute_def new_frameChecksum_def)

lemma frameChecksum_compute_Write [simp]:
  "frameChecksum_compute (frameChecksum_Write p new_frameChecksum) = Some (be32 (crc32c p))"
  by (simp add: frameChecksum_compute_def frameChecksum_Write_def new_frameChecksum_def crc32c_def)

theorem crc32c_window:
  assumes "length u = length v" "length v \<le> 4" "crc32c (p @ u @ s) = crc32c (p @ v @ s)"
  shows "u = v"
proof -
  let ?c = "foldl crc_byte (NOT 0) p"
  have "foldl crc_byte (foldl crc_byte ?c u) s = foldl crc_byte (foldl crc_byte ?c v) s"
    using arg_cong [OF assms(3), of "\<lambda>x. NOT x"] by (simp add: crc32c_def crc_update_def)
  then have "foldl crc_byte ?c u = foldl crc_byte ?c v"
    by (rule foldl_crc_byte_inj)
  then have "(crc_shift ^^ (8 * length v)) (?c XOR le_word u) = (crc_shift ^^ (8 * length v)) (?c XOR le_word v)"
    using assms(1,2) by (simp only: crc_window)
  then have "?c XOR le_word u = ?c XOR le_word v"
    by (rule injD [OF inj_crc_shift_pow])
  then have "le_word u = le_word v"
    by (simp only: xor_cancel_left)
  with assms(1,2) show ?thesis by (intro le_word_inject)
qed

section \<open>The bitwise definition\<close>

text \<open>
  CRC-32C as it is specified: the bits of the input, least significant first, go one by one into the
  shift register, which starts and ends inverted.
\<close>

definition byte_bits :: "byte \<Rightarrow> bool list" where
  "byte_bits v = map (bit v) [0..<8]"

definition crc_bit :: "u32 \<Rightarrow> bool \<Rightarrow> u32" where
  "crc_bit c b = crc_shift (if b then c XOR 1 else c)"

definition crc32c_spec :: "bytes \<Rightarrow> u32" where
  "crc32c_spec bs = NOT (foldl crc_bit (NOT 0) (concat (map byte_bits bs)))"

lemma crc_shift_pow_bit: "n < 32 \<Longrightarrow> (crc_shift ^^ n) (push_bit n 1) = 1"
proof -
  assume n: "n < 32"
  have "(crc_shift ^^ n) (push_bit n 1) = drop_bit n (push_bit n 1)"
    by (rule crc_shift_pow_low) (simp only: bit_push_bit_iff, simp)
  also have "\<dots> = 1"
    using n by (intro bit_word_eqI)
      (simp only: bit_drop_bit_eq comp_apply bit_push_bit_iff bit_1_iff, auto)
  finally show ?thesis .
qed

lemma take_bit_Suc_xor:
  "n < 32 \<Longrightarrow> take_bit (Suc n) x = take_bit n x XOR (if bit x n then push_bit n 1 else 0)" for x :: u32
  by (rule bit_word_eqI)
    (auto simp only: bit_take_bit_iff bit_xor_iff bit_push_bit_iff bit_1_iff bit_0_eq bot_apply
       less_Suc_eq split: if_splits, auto)

lemma crc_shift_pow_0: "(crc_shift ^^ n) 0 = 0"
  by (simp add: crc_shift_pow_low)

lemma crc_bits:
  "n \<le> 32 \<Longrightarrow> foldl crc_bit c (map (bit x) [0..<n]) = (crc_shift ^^ n) (c XOR take_bit n x)"
proof (induction n)
  case (Suc n)
  then have "(crc_shift ^^ n) (c XOR take_bit (Suc n) x) =
      (crc_shift ^^ n) (c XOR take_bit n x) XOR (if bit x n then 1 else 0)"
    by (simp add: take_bit_Suc_xor crc_shift_pow_xor crc_shift_pow_0 ac_simps
        crc_shift_pow_bit [unfolded push_bit_of_1])
  with Suc show ?case by (simp add: crc_bit_def)
qed simp

lemma crc_byte_bits: "crc_byte c v = foldl crc_bit c (byte_bits v)"
proof -
  have "byte_bits v = map (bit (ucast v :: u32)) [0..<8]"
    by (simp add: byte_bits_def bit_ucast_iff)
  moreover have "take_bit 8 (ucast v :: u32) = ucast v"
    by (rule bit_word_eqI) (auto simp: bit_take_bit_iff bit_ucast_iff dest: bit_imp_le_length)
  ultimately show ?thesis by (simp add: crc_byte_shift crc_bits)
qed

lemma crc32c_bitwise: "crc32c bs = crc32c_spec bs"
proof -
  have "foldl crc_byte c bs = foldl crc_bit c (concat (map byte_bits bs))" for c
    by (induction bs arbitrary: c) (simp_all add: crc_byte_bits)
  then show ?thesis by (simp add: crc32c_def crc_update_def crc32c_spec_def)
qed

lemma frameChecksum_Writes:
  "ps \<noteq> [] \<Longrightarrow> fold frameChecksum_Write ps f = frameChecksum_Write (concat ps) f"
proof (induction ps arbitrary: f)
  case (Cons p ps)
  then show ?case by (cases "ps = []") simp_all
qed simp

section \<open>Properties\<close>

text \<open>
  C33. The checksum computed with the table of 256 words is the CRC-32C of the specification, bit by bit,
  in big-endian order, however the input is cut into writes; with no write at all there is none.
\<close>

theorem checksum_is_bitwise_crc:
  "frameChecksum_compute (fold frameChecksum_Write ps new_frameChecksum) =
     (if ps = [] then None else Some (be32 (crc32c_spec (concat ps))))"
  by (cases "ps = []") (simp_all add: frameChecksum_Writes crc32c_bitwise)

end
