(* ===== verification/Frame.thy ===== *)
theory Frame
  imports Checksum
begin

text \<open>
  The frame codec of \<^verbatim>\<open>core/frame/frame.go\<close>. The protobuf runtime, which is not part of the
  repository, is the parameter \<open>proto\<close> of every definition that marshals a message: the record
  of the functions the client calls. What the client relies on is stated as the predicates
  \<open>proto_cmd_ok\<close> and \<open>proto_meta_ok\<close>: unmarshalling what was marshalled gives the message back.
  The lemmas give the round trip, the bytes a decode consumes, the bounds on frame sizes, and
  what the checksum rejects.
\<close>

section \<open>The protobuf runtime\<close>

record proto =
  Marshal_BaseCommand :: "BaseCommand option \<Rightarrow> go_error + bytes"
  Unmarshal_BaseCommand :: "bytes \<Rightarrow> BaseCommand \<times> go_error option"
  Marshal_MessageMetadata :: "MessageMetadata \<Rightarrow> go_error + bytes"
  Unmarshal_MessageMetadata :: "bytes \<Rightarrow> MessageMetadata \<times> go_error option"
  Unmarshal_SingleMessageMetadata :: "bytes \<Rightarrow> SingleMessageMetadata \<times> go_error option"
  Equal_BaseCommand :: "BaseCommand option \<Rightarrow> BaseCommand option \<Rightarrow> bool"
  Equal_MessageMetadata :: "MessageMetadata option \<Rightarrow> MessageMetadata option \<Rightarrow> bool"
  Equal_CommandMessage :: "CommandMessage option \<Rightarrow> CommandMessage option \<Rightarrow> bool"
  Equal_MessageIdData :: "MessageIdData option \<Rightarrow> MessageIdData option \<Rightarrow> bool"

definition proto_cmd_ok :: "proto \<Rightarrow> BaseCommand \<Rightarrow> bool" where
  "proto_cmd_ok pc c \<longleftrightarrow>
     (case Marshal_BaseCommand pc (Some c) of
        Inl _ \<Rightarrow> True
      | Inr bs \<Rightarrow> Unmarshal_BaseCommand pc bs = (c, None))"

text \<open>A \<open>MessageMetadata\<close> has required fields, so its encoding is never empty.\<close>

definition proto_meta_ok :: "proto \<Rightarrow> MessageMetadata \<Rightarrow> bool" where
  "proto_meta_ok pc m \<longleftrightarrow>
     (case Marshal_MessageMetadata pc m of
        Inl _ \<Rightarrow> True
      | Inr bs \<Rightarrow> bs \<noteq> [] \<and> Unmarshal_MessageMetadata pc bs = (m, None))"

section \<open>Frames\<close>

definition MaxFrameSize :: nat where
  "MaxFrameSize = 5 * 1024 * 1024"

definition magicNumber :: bytes where
  "magicNumber = [0x0e, 0x01]"

record Frame =
  Frame_BaseCmd :: "BaseCommand option"
  Frame_Metadata :: "MessageMetadata option"
  Frame_Payload :: bytes

definition new_Frame :: Frame where
  "new_Frame = \<lparr>Frame_BaseCmd = None, Frame_Metadata = None, Frame_Payload = []\<rparr>"

definition Frame_Equal :: "proto \<Rightarrow> Frame \<Rightarrow> Frame \<Rightarrow> bool" where
  "Frame_Equal pc f other =
     (if \<not> Equal_BaseCommand pc (Frame_BaseCmd f) (Frame_BaseCmd other) then False
      else if \<not> Equal_MessageMetadata pc (Frame_Metadata f) (Frame_Metadata other) then False
      else Frame_Payload f = Frame_Payload other)"

section \<open>Decode\<close>

text \<open>
  The \<open>LimitedReader\<close> keeps the decoder inside its frame; \<open>lr_tee\<close> is the checksum that a
  \<^verbatim>\<open>TeeReader\<close> below it writes every byte to, once one is installed.
\<close>

record LimitedReader =
  lr_R :: reader
  lr_N :: nat
  lr_tee :: "frameChecksum option"

definition tee_write :: "bytes \<Rightarrow> frameChecksum option \<Rightarrow> frameChecksum option" where
  "tee_write bs t = (if bs = [] then t else map_option (frameChecksum_Write bs) t)"

definition lr_ReadFull :: "nat \<Rightarrow> LimitedReader \<Rightarrow> bytes \<times> go_error option \<times> LimitedReader" where
  "lr_ReadFull n lr =
     (let d = rd_data (lr_R lr);
          lim = \<lparr>rd_data = take (lr_N lr) d,
                 rd_err = (if lr_N lr \<le> length d then EOF else rd_err (lr_R lr))\<rparr>
      in case ReadFull n lim of
           (bs, e, _) \<Rightarrow>
             (bs, e, lr\<lparr>lr_R := (lr_R lr)\<lparr>rd_data := drop (length bs) d\<rparr>,
                        lr_N := lr_N lr - length bs,
                        lr_tee := tee_write bs (lr_tee lr)\<rparr>))"

definition lr_compute :: "LimitedReader \<Rightarrow> bytes option" where
  "lr_compute lr = (case lr_tee lr of None \<Rightarrow> None | Some c \<Rightarrow> frameChecksum_compute c)"

definition bytes_Equal :: "bytes option \<Rightarrow> bytes option \<Rightarrow> bool" where
  "bytes_Equal a b = (case_option [] id a = case_option [] id b)"

text \<open>
  \<open>Frame_Decode\<close> follows the Go method and its early returns; its three tails are the command, the
  optional checksum, and the metadata with the payload. The receiver \<open>f\<close> is the frame that is
  filled in: fields the input does not set keep their values.
\<close>

definition Frame_Decode_payload ::
    "Frame \<Rightarrow> bytes option \<Rightarrow> LimitedReader \<Rightarrow> go_error option \<times> Frame \<times> reader" where
  "Frame_Decode_payload f expectedChksum lr =
     (if lr_N lr > MaxFrameSize then (Some (ErrFramePayloadSize (int (lr_N lr))), f, lr_R lr)
      else
        (case (if lr_N lr > 0 then lr_ReadFull (lr_N lr) lr else (Frame_Payload f, None, lr)) of
           (buf, Some e, lr1) \<Rightarrow>
             (Some e, f\<lparr>Frame_Payload := buf @ replicate (lr_N lr - length buf) 0\<rparr>, lr_R lr1)
         | (buf, None, lr1) \<Rightarrow>
             let f1 = f\<lparr>Frame_Payload := buf\<rparr>; computed = lr_compute lr1
             in if \<not> bytes_Equal computed expectedChksum
                then (Some (ErrChecksum computed expectedChksum), f1, lr_R lr1)
                else (None, f1, lr_R lr1)))"

definition Frame_Decode_metadata ::
    "proto \<Rightarrow> Frame \<Rightarrow> bytes option \<Rightarrow> bytes \<Rightarrow> LimitedReader \<Rightarrow> go_error option \<times> Frame \<times> reader" where
  "Frame_Decode_metadata pc f expectedChksum buf32 lr =
     (let metadataSize = be32_get buf32 in
      if unat metadataSize > MaxFrameSize
      then (Some (ErrFrameMetadataSize metadataSize), f, lr_R lr)
      else
        (case lr_ReadFull (unat metadataSize) lr of
           (_, Some e, lr1) \<Rightarrow> (Some e, f, lr_R lr1)
         | (metaBuf, None, lr1) \<Rightarrow>
             (case Unmarshal_MessageMetadata pc metaBuf of
                (m, Some e) \<Rightarrow> (Some e, f\<lparr>Frame_Metadata := Some m\<rparr>, lr_R lr1)
              | (m, None) \<Rightarrow>
                  Frame_Decode_payload (f\<lparr>Frame_Metadata := Some m\<rparr>) expectedChksum lr1)))"

definition Frame_Decode_checksum ::
    "proto \<Rightarrow> Frame \<Rightarrow> LimitedReader \<Rightarrow> go_error option \<times> Frame \<times> reader" where
  "Frame_Decode_checksum pc f lr =
     (case lr_ReadFull 4 lr of
        (_, Some e, lr1) \<Rightarrow> (Some e, f, lr_R lr1)
      | (buf32, None, lr1) \<Rightarrow>
          if take 2 buf32 = magicNumber then
            (case lr_ReadFull 2 lr1 of
               (_, Some e, lr2) \<Rightarrow> (Some e, f, lr_R lr2)
             | (rest, None, lr2) \<Rightarrow>
                 (case lr_ReadFull 4 (lr2\<lparr>lr_tee := Some new_frameChecksum\<rparr>) of
                    (_, Some e, lr3) \<Rightarrow> (Some e, f, lr_R lr3)
                  | (buf, None, lr3) \<Rightarrow>
                      Frame_Decode_metadata pc f (Some (drop 2 buf32 @ rest)) buf lr3))
          else Frame_Decode_metadata pc f None buf32 lr1)"

definition Frame_Decode_cmd ::
    "proto \<Rightarrow> Frame \<Rightarrow> LimitedReader \<Rightarrow> go_error option \<times> Frame \<times> reader" where
  "Frame_Decode_cmd pc f lr =
     (case lr_ReadFull 4 lr of
        (_, Some e, lr1) \<Rightarrow> (Some e, f, lr_R lr1)
      | (buf32, None, lr1) \<Rightarrow>
          let cmdSize = be32_get buf32 in
          if unat cmdSize > MaxFrameSize then (Some (ErrFrameCmdSize cmdSize), f, lr_R lr1)
          else
            (case lr_ReadFull (unat cmdSize) lr1 of
               (_, Some e, lr2) \<Rightarrow> (Some e, f, lr_R lr2)
             | (cmdBuf, None, lr2) \<Rightarrow>
                 (case Unmarshal_BaseCommand pc cmdBuf of
                    (c, Some e) \<Rightarrow> (Some e, f\<lparr>Frame_BaseCmd := Some c\<rparr>, lr_R lr2)
                  | (c, None) \<Rightarrow>
                      if lr_N lr2 = 0 then (None, f\<lparr>Frame_BaseCmd := Some c\<rparr>, lr_R lr2)
                      else Frame_Decode_checksum pc (f\<lparr>Frame_BaseCmd := Some c\<rparr>) lr2)))"

definition Frame_Decode ::
    "proto \<Rightarrow> Frame \<Rightarrow> reader \<Rightarrow> go_error option \<times> Frame \<times> reader" where
  "Frame_Decode pc f r =
     (case ReadFull 4 r of
        (_, Some e, r1) \<Rightarrow> (Some e, f, r1)
      | (buf32, None, r1) \<Rightarrow>
          let totalSize = be32_get buf32; frameSize = uint totalSize + 4 in
          if frameSize > int MaxFrameSize then (Some (ErrFrameSize frameSize), f, r1)
          else Frame_Decode_cmd pc f \<lparr>lr_R = r1, lr_N = unat totalSize, lr_tee = None\<rparr>)"

section \<open>Encode\<close>

definition Frame_checksum :: "bytes \<Rightarrow> bytes \<Rightarrow> bytes" where
  "Frame_checksum encodedMetadata payload =
     case_option [] id
       (frameChecksum_compute
         (frameChecksum_Write payload
           (frameChecksum_Write encodedMetadata
             (frameChecksum_Write (be32 (word_of_nat (length encodedMetadata))) new_frameChecksum))))"

definition Frame_totalSize :: "u32 \<Rightarrow> u32 \<Rightarrow> nat \<Rightarrow> u32" where
  "Frame_totalSize cmdSize metadataSize payloadLen =
     cmdSize + 4 +
     (if metadataSize > 0 then 6 + metadataSize + 4 + word_of_nat payloadLen else 0)"

definition Frame_Encode :: "proto \<Rightarrow> Frame \<Rightarrow> writer \<Rightarrow> go_error option \<times> writer" where
  "Frame_Encode pc f w =
     (case Marshal_BaseCommand pc (Frame_BaseCmd f) of
        Inl e \<Rightarrow> (Some e, w)
      | Inr encodedBaseCmd \<Rightarrow>
          (case (case Frame_Metadata f of
                   None \<Rightarrow> Inr []
                 | Some m \<Rightarrow> Marshal_MessageMetadata pc m) of
             Inl e \<Rightarrow> (Some e, w)
           | Inr encodedMetadata \<Rightarrow>
               let cmdSize = word_of_nat (length encodedBaseCmd) :: u32;
                   metadataSize = word_of_nat (length encodedMetadata) :: u32;
                   totalSize = Frame_totalSize cmdSize metadataSize (length (Frame_Payload f));
                   frameSize = totalSize + 4
               in if unat frameSize > MaxFrameSize then (Some (ErrEncodedFrameSize frameSize), w)
                  else if metadataSize = 0
                  then write_all [be32 totalSize, be32 cmdSize, encodedBaseCmd] w
                  else write_all [be32 totalSize, be32 cmdSize, encodedBaseCmd, magicNumber,
                         Frame_checksum encodedMetadata (Frame_Payload f), be32 metadataSize,
                         encodedMetadata, Frame_Payload f] w))"

section \<open>Reading inside the frame\<close>

definition lr_adv :: "nat \<Rightarrow> LimitedReader \<Rightarrow> LimitedReader" where
  "lr_adv n lr = lr\<lparr>lr_R := (lr_R lr)\<lparr>rd_data := drop n (rd_data (lr_R lr))\<rparr>,
     lr_N := lr_N lr - n, lr_tee := tee_write (take n (rd_data (lr_R lr))) (lr_tee lr)\<rparr>"

abbreviation lr_data :: "LimitedReader \<Rightarrow> bytes" where
  "lr_data lr \<equiv> rd_data (lr_R lr)"

lemma tee_write_append [simp]: "tee_write q (tee_write p t) = tee_write (p @ q) t"
  by (cases t) (auto simp: tee_write_def)

lemma tee_write_simps [simp]:
  "tee_write [] t = t"
  "tee_write bs None = None"
  "bs \<noteq> [] \<Longrightarrow> tee_write bs (Some c) = Some (frameChecksum_Write bs c)"
  by (simp_all add: tee_write_def)

lemma lr_adv_simps [simp]:
  "lr_R (lr_adv n lr) = (lr_R lr)\<lparr>rd_data := drop n (lr_data lr)\<rparr>"
  "lr_N (lr_adv n lr) = lr_N lr - n"
  "lr_tee (lr_adv n lr) = tee_write (take n (lr_data lr)) (lr_tee lr)"
  by (simp_all add: lr_adv_def)

lemma lr_adv_0 [simp]: "lr_adv 0 lr = lr"
  by (simp add: lr_adv_def)

lemma lr_adv_add: "lr_adv m (lr_adv n lr) = lr_adv (n + m) lr"
  by (simp add: lr_adv_def add.commute [of m n] take_add)

lemma lr_ReadFull_adv:
  "lr_ReadFull n lr = (bs, e, lr') \<Longrightarrow> lr' = lr_adv (length bs) lr \<and> length bs \<le> lr_N lr"
  by (auto simp: lr_ReadFull_def lr_adv_def Let_def ReadFull_def split: if_splits)

lemma lr_ReadFull_ok:
  "n \<le> lr_N lr \<Longrightarrow> n \<le> length (lr_data lr) \<Longrightarrow>
   lr_ReadFull n lr = (take n (lr_data lr), None, lr_adv n lr)"
  by (simp add: lr_ReadFull_def lr_adv_def Let_def min_def)

lemma lr_ReadFull_None:
  assumes "lr_ReadFull n lr = (bs, None, lr')"
  shows "n \<le> lr_N lr" "n \<le> length (lr_data lr)" "bs = take n (lr_data lr)" "lr' = lr_adv n lr"
  using assms by (auto simp: lr_ReadFull_def lr_adv_def Let_def ReadFull_def min_def split: if_splits)

text \<open>A decode that started with \<open>lr\<close> ended inside the frame, at most at its last byte.\<close>

definition lr_within :: "LimitedReader \<Rightarrow> reader \<Rightarrow> bool" where
  "lr_within lr r' \<longleftrightarrow> (\<exists>k \<le> lr_N lr. r' = lr_R (lr_adv k lr))"

lemma lr_within_refl [simp, intro]: "lr_within lr (lr_R lr)"
  by (auto simp: lr_within_def intro!: exI [of _ 0])

lemma lr_within_tee [simp]: "lr_within (lr\<lparr>lr_tee := t\<rparr>) r' = lr_within lr r'"
  by (simp add: lr_within_def)

lemma lr_within_ReadFull:
  assumes "lr_ReadFull n lr = (bs, e, lr')" and "lr_within lr' r'"
  shows "lr_within lr r'"
proof -
  have lr': "lr' = lr_adv (length bs) lr" and le: "length bs \<le> lr_N lr"
    using lr_ReadFull_adv [OF assms(1)] by auto
  from assms(2) obtain k where "k \<le> lr_N lr - length bs" "r' = lr_R (lr_adv k lr')"
    by (auto simp: lr_within_def lr')
  with le show ?thesis
    unfolding lr_within_def by (intro exI [of _ "length bs + k"]) (simp add: lr' lr_adv_add)
qed

lemma lr_within_ReadFull_tee:
  "lr_ReadFull n (lr\<lparr>lr_tee := t\<rparr>) = (bs, e, lr') \<Longrightarrow> lr_within lr' r' \<Longrightarrow> lr_within lr r'"
  using lr_within_ReadFull by fastforce

lemmas lr_within_intros = lr_within_ReadFull lr_within_ReadFull_tee

lemma Frame_Decode_payload_within:
  "Frame_Decode_payload f x lr = (e, f', r') \<Longrightarrow> lr_within lr r'"
  by (auto simp: Frame_Decode_payload_def Let_def
      split: if_splits prod.splits option.splits intro: lr_within_intros)

lemma Frame_Decode_metadata_within:
  "Frame_Decode_metadata pc f x buf lr = (e, f', r') \<Longrightarrow> lr_within lr r'"
  by (auto simp: Frame_Decode_metadata_def Let_def
      split: if_splits prod.splits option.splits
      intro: lr_within_intros dest: Frame_Decode_payload_within)

lemma Frame_Decode_checksum_within:
  "Frame_Decode_checksum pc f lr = (e, f', r') \<Longrightarrow> lr_within lr r'"
  by (auto simp: Frame_Decode_checksum_def Let_def
      split: if_splits prod.splits option.splits dest!: Frame_Decode_metadata_within)
    (blast intro: lr_within_refl lr_within_intros)+

lemma Frame_Decode_cmd_within:
  "Frame_Decode_cmd pc f lr = (e, f', r') \<Longrightarrow> lr_within lr r'"
  by (auto simp: Frame_Decode_cmd_def Let_def
      split: if_splits prod.splits option.splits dest!: Frame_Decode_checksum_within)
    (blast intro: lr_within_refl lr_within_intros)+

section \<open>What a successful decode has read and checked\<close>

lemma Frame_Decode_payload_ok:
  assumes "Frame_Decode_payload f x lr = (None, f', r')"
  shows "lr_N lr \<le> length (lr_data lr)" "r' = lr_R (lr_adv (lr_N lr) lr)"
    and "bytes_Equal (lr_compute (lr_adv (lr_N lr) lr)) x"
  using assms by (auto simp: Frame_Decode_payload_def Let_def
      split: if_splits prod.splits option.splits dest: lr_ReadFull_None)

lemma Frame_Decode_metadata_ok:
  assumes "Frame_Decode_metadata pc f x buf lr = (None, f', r')"
  shows "lr_N lr \<le> length (lr_data lr)" "r' = lr_R (lr_adv (lr_N lr) lr)"
    and "bytes_Equal (lr_compute (lr_adv (lr_N lr) lr)) x"
proof -
  obtain n bs lr1 f1 where rd: "lr_ReadFull n lr = (bs, None, lr1)"
    and pl: "Frame_Decode_payload f1 x lr1 = (None, f', r')"
    using assms by (auto simp: Frame_Decode_metadata_def Let_def
        split: if_splits prod.splits option.splits)
  note n = lr_ReadFull_None [OF rd] and ok = Frame_Decode_payload_ok [OF pl]
  have adv: "lr_adv (lr_N lr1) lr1 = lr_adv (lr_N lr) lr"
    using n by (simp add: lr_adv_add)
  from n ok show "lr_N lr \<le> length (lr_data lr)" by simp
  from ok show "r' = lr_R (lr_adv (lr_N lr) lr)" and "bytes_Equal (lr_compute (lr_adv (lr_N lr) lr)) x"
    by (simp_all only: adv)
qed

lemma Frame_Decode_checksum_ok:
  assumes "Frame_Decode_checksum pc f lr = (None, f', r')"
  shows "lr_N lr \<le> length (lr_data lr) \<and> r' = lr_R (lr_adv (lr_N lr) lr)"
proof -
  obtain buf lr1 where rd: "lr_ReadFull 4 lr = (buf, None, lr1)"
    using assms by (auto simp: Frame_Decode_checksum_def split: prod.splits option.splits)
  note n = lr_ReadFull_None [OF rd]
  show ?thesis
  proof (cases "take 2 buf = magicNumber")
    case False
    with assms rd have "Frame_Decode_metadata pc f None buf lr1 = (None, f', r')"
      by (simp add: Frame_Decode_checksum_def)
    from Frame_Decode_metadata_ok [OF this] n show ?thesis by (simp add: lr_adv_add)
  next
    case True
    with assms rd obtain rest lr2 buf' lr3 x where
      rd2: "lr_ReadFull 2 lr1 = (rest, None, lr2)"
      and rd3: "lr_ReadFull 4 (lr2\<lparr>lr_tee := Some new_frameChecksum\<rparr>) = (buf', None, lr3)"
      and md: "Frame_Decode_metadata pc f x buf' lr3 = (None, f', r')"
      by (auto simp: Frame_Decode_checksum_def split: prod.splits option.splits)
    from Frame_Decode_metadata_ok [OF md] n lr_ReadFull_None [OF rd2] lr_ReadFull_None [OF rd3]
    show ?thesis by (simp add: add.assoc)
  qed
qed

lemma Frame_Decode_cmd_ok:
  assumes "Frame_Decode_cmd pc f lr = (None, f', r')"
  shows "lr_N lr \<le> length (lr_data lr) \<and> r' = lr_R (lr_adv (lr_N lr) lr)"
proof -
  obtain buf lr1 n cmd lr2 f1 where rd: "lr_ReadFull 4 lr = (buf, None, lr1)"
    and rd2: "lr_ReadFull n lr1 = (cmd, None, lr2)"
    and "lr_N lr2 = 0 \<and> r' = lr_R lr2 \<or> Frame_Decode_checksum pc f1 lr2 = (None, f', r')"
    using assms by (auto simp: Frame_Decode_cmd_def Let_def split: if_splits prod.splits option.splits)
  then have "lr_N lr2 \<le> length (lr_data lr2) \<and> r' = lr_R (lr_adv (lr_N lr2) lr2)"
    using Frame_Decode_checksum_ok by auto
  with lr_ReadFull_None [OF rd] lr_ReadFull_None [OF rd2] show ?thesis
    by (auto simp: lr_adv_add)
qed

lemma uint_u32_le: "uint (x :: u32) + 4 \<le> int m \<longleftrightarrow> unat x + 4 \<le> m"
proof -
  have "uint x = int (unat x)" by (rule uint_nat)
  then show ?thesis by linarith
qed

text \<open>
  Where a decode stops: after at most \<open>MaxFrameSize\<close> bytes in any case, and exactly at the end of
  the frame that the total size announces when it succeeds.
\<close>

lemma Frame_Decode_consumes:
  assumes "Frame_Decode pc f r = (e, f', r')"
  shows "\<exists>k \<le> MaxFrameSize. r' = r\<lparr>rd_data := drop k (rd_data r)\<rparr>"
proof (cases "4 \<le> length (rd_data r)")
  case False
  with assms have "r' = r\<lparr>rd_data := drop 4 (rd_data r)\<rparr>"
    by (auto simp: Frame_Decode_def ReadFull_def Let_def)
  then show ?thesis by (intro exI [of _ 4]) (simp add: MaxFrameSize_def)
next
  case True
  let ?t = "be32_get (take 4 (rd_data r))"
  show ?thesis
  proof (cases "uint ?t + 4 > int MaxFrameSize")
    case big: True
    with assms True have "r' = r\<lparr>rd_data := drop 4 (rd_data r)\<rparr>"
      by (simp add: Frame_Decode_def Let_def)
    then show ?thesis by (intro exI [of _ 4]) (simp add: MaxFrameSize_def)
  next
    case False
    with assms True have "Frame_Decode_cmd pc f \<lparr>lr_R = r\<lparr>rd_data := drop 4 (rd_data r)\<rparr>,
        lr_N = unat ?t, lr_tee = None\<rparr> = (e, f', r')"
      by (simp add: Frame_Decode_def Let_def)
    then obtain k where "k \<le> unat ?t" "r' = r\<lparr>rd_data := drop (k + 4) (rd_data r)\<rparr>"
      by (auto dest!: Frame_Decode_cmd_within simp: lr_within_def)
    moreover from False have "unat ?t + 4 \<le> MaxFrameSize"
      using uint_u32_le [of ?t MaxFrameSize] by simp
    ultimately show ?thesis by (intro exI [of _ "k + 4"]) simp
  qed
qed

lemma Frame_Decode_ok:
  assumes "Frame_Decode pc f r = (None, f', r')"
  defines "n \<equiv> unat (be32_get (take 4 (rd_data r))) + 4"
  shows "4 \<le> length (rd_data r)" "n \<le> MaxFrameSize" "n \<le> length (rd_data r)"
    and "r' = r\<lparr>rd_data := drop n (rd_data r)\<rparr>"
proof -
  let ?t = "be32_get (take 4 (rd_data r))"
  let ?lr = "\<lparr>lr_R = r\<lparr>rd_data := drop 4 (rd_data r)\<rparr>, lr_N = unat ?t, lr_tee = None\<rparr>"
  from assms(1) show len: "4 \<le> length (rd_data r)"
    by (auto simp: Frame_Decode_def ReadFull_def Let_def split: if_splits)
  with assms(1) have le: "uint ?t + 4 \<le> int MaxFrameSize"
    and dec: "Frame_Decode_cmd pc f ?lr = (None, f', r')"
    by (auto simp: Frame_Decode_def Let_def split: if_splits)
  from le show "n \<le> MaxFrameSize" unfolding n_def by (simp only: uint_u32_le)
  from Frame_Decode_cmd_ok [OF dec] len show "n \<le> length (rd_data r)"
    and "r' = r\<lparr>rd_data := drop n (rd_data r)\<rparr>"
    by (auto simp: n_def)
qed

section \<open>The wire layout\<close>

text \<open>The two layouts drawn in the comment on the Go type \<open>Frame\<close>, as byte strings.\<close>

definition simple_layout :: "bytes \<Rightarrow> bytes" where
  "simple_layout cmd =
     be32 (word_of_nat (length cmd + 4)) @ be32 (word_of_nat (length cmd)) @ cmd"

definition body_layout :: "bytes \<Rightarrow> bytes \<Rightarrow> bytes" where
  "body_layout meta payload = be32 (word_of_nat (length meta)) @ meta @ payload"

definition payload_layout :: "bytes \<Rightarrow> bytes \<Rightarrow> bytes \<Rightarrow> bytes" where
  "payload_layout cmd chksum body =
     be32 (word_of_nat (length cmd + 4 + 6 + length body)) @ be32 (word_of_nat (length cmd)) @ cmd @
     magicNumber @ chksum @ body"

lemma length_magicNumber [simp]: "length magicNumber = 2"
  by (simp add: magicNumber_def)

lemma Frame_checksum_eq [simp]:
  "Frame_checksum meta payload = be32 (crc32c (body_layout meta payload))"
  by (simp add: Frame_checksum_def body_layout_def)

lemma unat_word_of_nat32 [simp]: "n < 2 ^ 32 \<Longrightarrow> unat (word_of_nat n :: u32) = n"
  by (simp add: unat_of_nat)

lemma word_of_nat32_eq_0: "n < 2 ^ 32 \<Longrightarrow> (word_of_nat n :: u32) = 0 \<longleftrightarrow> n = 0"
  by (metis unat_0 unat_word_of_nat32 unat_eq_zero)

lemma lr_ReadFull_append:
  assumes "length bs = n" "n \<le> N"
  shows "lr_ReadFull n \<lparr>lr_R = \<lparr>rd_data = bs @ rest, rd_err = e\<rparr>, lr_N = N, lr_tee = t\<rparr> =
    (bs, None, \<lparr>lr_R = \<lparr>rd_data = rest, rd_err = e\<rparr>, lr_N = N - n, lr_tee = tee_write bs t\<rparr>)"
  using assms by (subst lr_ReadFull_ok) (auto simp: lr_adv_def)

lemma ReadFull_append:
  "length bs = n \<Longrightarrow>
   ReadFull n \<lparr>rd_data = bs @ rest, rd_err = e\<rparr> = (bs, None, \<lparr>rd_data = rest, rd_err = e\<rparr>)"
  by (subst ReadFull_ok) auto

lemma Frame_Decode_header:
  assumes "n + 4 \<le> MaxFrameSize"
  shows "Frame_Decode pc f \<lparr>rd_data = be32 (word_of_nat n) @ d, rd_err = e\<rparr> =
    Frame_Decode_cmd pc f \<lparr>lr_R = \<lparr>rd_data = d, rd_err = e\<rparr>, lr_N = n, lr_tee = None\<rparr>"
proof -
  have n: "n < 2 ^ 32" using assms by (simp add: MaxFrameSize_def)
  then have "uint (word_of_nat n :: u32) + 4 \<le> int MaxFrameSize"
    using assms by (simp only: uint_u32_le) simp
  with n show ?thesis by (simp add: Frame_Decode_def ReadFull_append Let_def)
qed

lemma Frame_Decode_cmd_layout:
  assumes "length cmd \<le> MaxFrameSize" "length cmd + 4 \<le> N"
    and "Unmarshal_BaseCommand pc cmd = (c, None)"
  shows "Frame_Decode_cmd pc f
      \<lparr>lr_R = \<lparr>rd_data = be32 (word_of_nat (length cmd)) @ cmd @ d, rd_err = e\<rparr>, lr_N = N, lr_tee = None\<rparr> =
    (if N = length cmd + 4 then (None, f\<lparr>Frame_BaseCmd := Some c\<rparr>, \<lparr>rd_data = d, rd_err = e\<rparr>)
     else Frame_Decode_checksum pc (f\<lparr>Frame_BaseCmd := Some c\<rparr>)
       \<lparr>lr_R = \<lparr>rd_data = d, rd_err = e\<rparr>, lr_N = N - 4 - length cmd, lr_tee = None\<rparr>)"
proof -
  have "length cmd < 2 ^ 32" using assms(1) by (simp add: MaxFrameSize_def)
  with assms show ?thesis
    by (auto simp: Frame_Decode_cmd_def lr_ReadFull_append Let_def)
qed

lemma Frame_Decode_checksum_layout:
  assumes "length chk = 4" "length b4 = 4" "10 \<le> N"
  shows "Frame_Decode_checksum pc f
      \<lparr>lr_R = \<lparr>rd_data = magicNumber @ chk @ b4 @ d, rd_err = e\<rparr>, lr_N = N, lr_tee = None\<rparr> =
    Frame_Decode_metadata pc f (Some chk) b4
      \<lparr>lr_R = \<lparr>rd_data = d, rd_err = e\<rparr>, lr_N = N - 10,
       lr_tee = Some (frameChecksum_Write b4 new_frameChecksum)\<rparr>"
proof -
  obtain c1 c2 where chk: "chk = c1 @ c2" and len: "length c1 = 2" "length c2 = 2"
    using assms(1) that [of "take 2 chk" "drop 2 chk"] by simp
  have "lr_ReadFull 4 \<lparr>lr_R = \<lparr>rd_data = (magicNumber @ c1) @ (c2 @ b4 @ d), rd_err = e\<rparr>,
        lr_N = N, lr_tee = None\<rparr> =
      (magicNumber @ c1, None,
       \<lparr>lr_R = \<lparr>rd_data = c2 @ b4 @ d, rd_err = e\<rparr>, lr_N = N - 4, lr_tee = None\<rparr>)"
    using assms len by (subst lr_ReadFull_append) auto
  moreover have "b4 \<noteq> []" using assms by auto
  ultimately show ?thesis
    using assms len by (simp add: chk Frame_Decode_checksum_def lr_ReadFull_append)
qed

text \<open>Decoding a payload frame, up to the point where the checksum starts to count.\<close>

lemma Frame_Decode_payload_layout:
  assumes "length cmd + 14 + length body \<le> MaxFrameSize" "length chk = 4"
    and "body = b4 @ b" "length b4 = 4" "Unmarshal_BaseCommand pc cmd = (c, None)"
  shows "Frame_Decode pc f \<lparr>rd_data = payload_layout cmd chk body @ rest, rd_err = e\<rparr> =
    Frame_Decode_metadata pc (f\<lparr>Frame_BaseCmd := Some c\<rparr>) (Some chk) b4
      \<lparr>lr_R = \<lparr>rd_data = b @ rest, rd_err = e\<rparr>, lr_N = length b,
       lr_tee = Some (frameChecksum_Write b4 new_frameChecksum)\<rparr>"
  using assms by (simp add: payload_layout_def Frame_Decode_header Frame_Decode_cmd_layout
      Frame_Decode_checksum_layout del: of_nat_add)

lemma Frame_Decode_simple_layout:
  assumes "length cmd + 8 \<le> MaxFrameSize" "Unmarshal_BaseCommand pc cmd = (c, None)"
  shows "Frame_Decode pc f \<lparr>rd_data = simple_layout cmd @ rest, rd_err = e\<rparr> =
    (None, f\<lparr>Frame_BaseCmd := Some c\<rparr>, \<lparr>rd_data = rest, rd_err = e\<rparr>)"
  using assms by (simp add: simple_layout_def Frame_Decode_header Frame_Decode_cmd_layout
      del: of_nat_add)

lemma Frame_Decode_cmd_error:
  assumes "Unmarshal_BaseCommand pc cmd = (c, Some x)" "length cmd + 4 \<le> N" "N + 4 \<le> MaxFrameSize"
  shows "fst (Frame_Decode pc f
    \<lparr>rd_data = be32 (word_of_nat N) @ be32 (word_of_nat (length cmd)) @ cmd @ d, rd_err = e\<rparr>) = Some x"
proof -
  have "length cmd < 2 ^ 32" "length cmd \<le> MaxFrameSize" using assms by (simp_all add: MaxFrameSize_def)
  with assms show ?thesis
    by (simp add: Frame_Decode_header Frame_Decode_cmd_def lr_ReadFull_append Let_def)
qed

text \<open>Acceptance of a payload frame, however its bytes came about, means the checksum matches.\<close>

lemma Frame_Decode_layout_crc:
  assumes "Frame_Decode pc f \<lparr>rd_data = payload_layout cmd chk body @ rest, rd_err = e\<rparr> = (None, f', r')"
    and "length cmd + 14 + length body \<le> MaxFrameSize" "length chk = 4" "4 \<le> length body"
  shows "be32 (crc32c body) = chk"
proof -
  obtain c x where um: "Unmarshal_BaseCommand pc cmd = (c, x)" by fastforce
  have "x = None"
  proof (cases x)
    case (Some err)
    have "fst (Frame_Decode pc f \<lparr>rd_data = payload_layout cmd chk body @ rest, rd_err = e\<rparr>) = Some err"
      using Frame_Decode_cmd_error [of pc cmd c err "length cmd + 4 + 6 + length body" f
          "magicNumber @ chk @ body @ rest" e] um Some assms(2)
      by (simp add: payload_layout_def del: of_nat_add)
    with assms(1) show ?thesis by simp
  qed
  define b4 b where "b4 = take 4 body" and "b = drop 4 body"
  then have body: "body = b4 @ b" "length b4 = 4" using assms(4) by simp_all
  let ?lr = "\<lparr>lr_R = \<lparr>rd_data = b @ rest, rd_err = e\<rparr>, lr_N = length b,
       lr_tee = Some (frameChecksum_Write b4 new_frameChecksum)\<rparr>"
  have "Frame_Decode_metadata pc (f\<lparr>Frame_BaseCmd := Some c\<rparr>) (Some chk) b4 ?lr = (None, f', r')"
    using assms(1-3) body um \<open>x = None\<close> by (simp add: Frame_Decode_payload_layout)
  from Frame_Decode_metadata_ok(3) [OF this]
  have "bytes_Equal (lr_compute (lr_adv (length b) ?lr)) (Some chk)" by simp
  moreover have "lr_compute (lr_adv (length b) ?lr) = Some (be32 (crc32c body))"
    by (cases "b = []") (simp_all add: lr_compute_def body)
  ultimately show ?thesis by (simp add: bytes_Equal_def)
qed

section \<open>Encoding\<close>

text \<open>The number of bytes of the encoded frame, without the wrap-around of \<^verbatim>\<open>uint32\<close>.\<close>

definition encoded_size :: "proto \<Rightarrow> Frame \<Rightarrow> nat" where
  "encoded_size pc f =
     (case Marshal_BaseCommand pc (Frame_BaseCmd f) of
        Inl _ \<Rightarrow> 0
      | Inr cmd \<Rightarrow> length cmd + 8 +
          (case Frame_Metadata f of
             None \<Rightarrow> 0
           | Some m \<Rightarrow>
               (case Marshal_MessageMetadata pc m of
                  Inl _ \<Rightarrow> 0
                | Inr meta \<Rightarrow> if meta = [] then 0 else 10 + length meta + length (Frame_Payload f))))"

lemma Frame_Encode_simple:
  assumes "Marshal_BaseCommand pc (Frame_BaseCmd f) = Inr cmd" "Frame_Metadata f = None"
    and "length cmd + 8 < 2 ^ 32"
  shows "Frame_Encode pc f w =
    (if length cmd + 8 > MaxFrameSize then (Some (ErrEncodedFrameSize (word_of_nat (length cmd + 8))), w)
     else write_all [be32 (word_of_nat (length cmd + 4)), be32 (word_of_nat (length cmd)), cmd] w)"
proof -
  have tot: "Frame_totalSize (word_of_nat (length cmd)) 0 k = word_of_nat (length cmd + 4)" for k
    by (simp add: Frame_totalSize_def)
  have tot4: "word_of_nat (length cmd + 4) + 4 = (word_of_nat (length cmd + 8) :: u32)" by simp
  have un: "unat (word_of_nat (length cmd + 8) :: u32) = length cmd + 8"
    using assms(3) by (rule unat_word_of_nat32)
  show ?thesis
    unfolding Frame_Encode_def Let_def assms(1,2) sum.case option.case list.size semiring_1_class.of_nat_0 tot tot4 un
    by (simp only: simp_thms if_True)
qed

lemma Frame_Encode_payload:
  assumes "Marshal_BaseCommand pc (Frame_BaseCmd f) = Inr cmd"
    and "Frame_Metadata f = Some m" "Marshal_MessageMetadata pc m = Inr meta" "meta \<noteq> []"
    and "length cmd + 18 + length meta + length (Frame_Payload f) < 2 ^ 32"
  defines "n \<equiv> length cmd + 18 + length meta + length (Frame_Payload f)"
  shows "Frame_Encode pc f w =
    (if n > MaxFrameSize then (Some (ErrEncodedFrameSize (word_of_nat n)), w)
     else write_all [be32 (word_of_nat (n - 4)), be32 (word_of_nat (length cmd)), cmd, magicNumber,
            be32 (crc32c (body_layout meta (Frame_Payload f))), be32 (word_of_nat (length meta)), meta,
            Frame_Payload f] w)"
proof -
  let ?p = "length (Frame_Payload f)"
  have m0: "(word_of_nat (length meta) :: u32) \<noteq> 0"
    using assms(4,5) by (subst word_of_nat32_eq_0) auto
  have tot: "Frame_totalSize (word_of_nat (length cmd)) (word_of_nat (length meta)) ?p = word_of_nat (n - 4)"
    using m0 by (simp add: Frame_totalSize_def n_def word_gt_0)
  have tot4: "word_of_nat (n - 4) + 4 = (word_of_nat n :: u32)" by (simp add: n_def)
  have un: "unat (word_of_nat n :: u32) = n" using assms(5) unfolding n_def by (rule unat_word_of_nat32)
  show ?thesis
    unfolding Frame_Encode_def Let_def assms(1-3) sum.case option.case tot tot4 un Frame_checksum_eq
    by (simp only: m0 if_False)
qed

text \<open>How an encoded frame looks on the wire.\<close>

lemma Frame_Encode_simple_wire:
  assumes "Frame_Encode pc f new_buffer = (None, w)" "encoded_size pc f < 2 ^ 32"
    and "Frame_Metadata f = None" "Marshal_BaseCommand pc (Frame_BaseCmd f) = Inr cmd"
  shows "wr_out w = simple_layout cmd" "length cmd + 8 \<le> MaxFrameSize"
proof -
  have lt: "length cmd + 8 < 2 ^ 32" using assms by (simp add: encoded_size_def)
  from assms(1) show "length cmd + 8 \<le> MaxFrameSize"
    by (simp only: Frame_Encode_simple [OF assms(4,3) lt] split: if_splits) simp_all
  with assms(1) show "wr_out w = simple_layout cmd"
    unfolding Frame_Encode_simple [OF assms(4,3) lt]
    by (auto simp: new_buffer_def simple_layout_def)
qed

lemma Frame_Encode_payload_wire:
  assumes "Frame_Encode pc f new_buffer = (None, w)" "encoded_size pc f < 2 ^ 32"
    and "Frame_Metadata f = Some m" "Marshal_MessageMetadata pc m = Inr meta" "meta \<noteq> []"
    and "Marshal_BaseCommand pc (Frame_BaseCmd f) = Inr cmd"
  defines "body \<equiv> body_layout meta (Frame_Payload f)"
  shows "wr_out w = payload_layout cmd (be32 (crc32c body)) body"
    and "length cmd + 14 + length body \<le> MaxFrameSize"
proof -
  have lt: "length cmd + 18 + length meta + length (Frame_Payload f) < 2 ^ 32"
    using assms(2-6) by (simp add: encoded_size_def)
  note enc = Frame_Encode_payload [OF assms(6,3-5) lt]
  have le: "\<not> length cmd + 18 + length meta + length (Frame_Payload f) > MaxFrameSize"
    using assms(1) by (simp only: enc split: if_splits) simp_all
  then show "length cmd + 14 + length body \<le> MaxFrameSize"
    by (simp add: body_def body_layout_def)
  have sz: "length cmd + 18 + length meta + length (Frame_Payload f) - 4 = length cmd + 4 + 6 + length body"
    by (simp add: body_def body_layout_def)
  from assms(1) show "wr_out w = payload_layout cmd (be32 (crc32c body)) body"
    unfolding enc if_not_P [OF le] sz
    by (auto simp: new_buffer_def payload_layout_def body_def body_layout_def)
qed

lemma Frame_Encode_cases:
  assumes "Marshal_BaseCommand pc (Frame_BaseCmd f) = Inr cmd" "encoded_size pc f < 2 ^ 32"
    and "\<And>m. Frame_Metadata f = Some m \<Longrightarrow> \<exists>meta. Marshal_MessageMetadata pc m = Inr meta \<and> meta \<noteq> []"
  shows "encoded_size pc f > MaxFrameSize \<Longrightarrow>
      Frame_Encode pc f w = (Some (ErrEncodedFrameSize (word_of_nat (encoded_size pc f))), w)"
    and "encoded_size pc f \<le> MaxFrameSize \<Longrightarrow>
      \<exists>w'. Frame_Encode pc f new_buffer = (None, w') \<and> length (wr_out w') = encoded_size pc f"
proof -
  consider (simple) "Frame_Metadata f = None"
    | (payload) m meta where "Frame_Metadata f = Some m" "Marshal_MessageMetadata pc m = Inr meta" "meta \<noteq> []"
    using assms(3) by (cases "Frame_Metadata f") auto
  note both = this
  show "Frame_Encode pc f w = (Some (ErrEncodedFrameSize (word_of_nat (encoded_size pc f))), w)"
    if big: "encoded_size pc f > MaxFrameSize"
    using both
  proof cases
    case simple
    have sz: "encoded_size pc f = length cmd + 8" using assms(1) simple by (simp add: encoded_size_def)
    show ?thesis
      unfolding Frame_Encode_simple [OF assms(1) simple assms(2) [unfolded sz]] sz
      by (rule if_P [OF big [unfolded sz]])
  next
    case payload
    have sz: "encoded_size pc f = length cmd + 18 + length meta + length (Frame_Payload f)"
      using assms(1) payload by (simp add: encoded_size_def)
    show ?thesis
      unfolding Frame_Encode_payload [OF assms(1) payload assms(2) [unfolded sz]] sz
      by (rule if_P [OF big [unfolded sz]])
  qed
  show "\<exists>w'. Frame_Encode pc f new_buffer = (None, w') \<and> length (wr_out w') = encoded_size pc f"
    if fits: "encoded_size pc f \<le> MaxFrameSize"
    using both
  proof cases
    case simple
    have sz: "encoded_size pc f = length cmd + 8" using assms(1) simple by (simp add: encoded_size_def)
    show ?thesis
      unfolding Frame_Encode_simple [OF assms(1) simple assms(2) [unfolded sz]]
      using fits sz by (simp add: new_buffer_def)
  next
    case payload
    have sz: "encoded_size pc f = length cmd + 18 + length meta + length (Frame_Payload f)"
      using assms(1) payload by (simp add: encoded_size_def)
    show ?thesis
      unfolding Frame_Encode_payload [OF assms(1) payload assms(2) [unfolded sz]]
      using fits sz by (simp add: new_buffer_def)
  qed
qed

lemma Frame_Encode_length_prefix:
  assumes "Frame_Encode pc f new_buffer = (None, w)" "encoded_size pc f < 2 ^ 32"
    and "\<And>m. Frame_Metadata f = Some m \<Longrightarrow> Marshal_MessageMetadata pc m \<noteq> Inr []"
  shows "unat (be32_get (take 4 (wr_out w))) + 4 = length (wr_out w)"
proof -
  obtain cmd where cmd: "Marshal_BaseCommand pc (Frame_BaseCmd f) = Inr cmd"
    using assms(1) by (cases "Marshal_BaseCommand pc (Frame_BaseCmd f)") (auto simp: Frame_Encode_def)
  show ?thesis
  proof (cases "Frame_Metadata f")
    case None
    note wire = Frame_Encode_simple_wire [OF assms(1,2) None cmd]
    have "length cmd + 4 < 2 ^ 32" using wire(2) by (simp add: MaxFrameSize_def)
    from unat_word_of_nat32 [OF this] wire(1) show ?thesis
      by (simp add: simple_layout_def del: of_nat_add)
  next
    case (Some m)
    obtain meta where meta: "Marshal_MessageMetadata pc m = Inr meta" "meta \<noteq> []"
      using assms(1,3) cmd Some by (cases "Marshal_MessageMetadata pc m") (auto simp: Frame_Encode_def)
    note wire = Frame_Encode_payload_wire [OF assms(1,2) Some meta cmd]
    have "length cmd + 4 + 6 + length (body_layout meta (Frame_Payload f)) < 2 ^ 32"
      using wire(2) by (simp add: MaxFrameSize_def)
    from unat_word_of_nat32 [OF this] wire(1) show ?thesis
      by (simp add: payload_layout_def del: of_nat_add)
  qed
qed

lemma Frame_Decode_metadata_layout:
  assumes "Unmarshal_MessageMetadata pc meta = (m, None)" "meta \<noteq> []"
    and "length meta + length payload \<le> MaxFrameSize" "Frame_Payload f = []"
    and "be32 (crc32c (body_layout meta payload)) = chk"
  shows "Frame_Decode_metadata pc f (Some chk) (be32 (word_of_nat (length meta)))
      \<lparr>lr_R = \<lparr>rd_data = meta @ payload @ rest, rd_err = e\<rparr>, lr_N = length meta + length payload,
       lr_tee = Some (frameChecksum_Write (be32 (word_of_nat (length meta))) new_frameChecksum)\<rparr> =
    (None, f\<lparr>Frame_Metadata := Some m, Frame_Payload := payload\<rparr>, \<lparr>rd_data = rest, rd_err = e\<rparr>)"
proof -
  have lt: "length meta < 2 ^ 32" using assms(3) by (simp add: MaxFrameSize_def)
  have "bytes_Equal (Some (be32 (crc32c (body_layout meta payload)))) (Some chk)"
    using assms(5) by (simp add: bytes_Equal_def)
  with lt assms show ?thesis
    by (cases "payload = []")
      (simp_all add: Frame_Decode_metadata_def Frame_Decode_payload_def lr_ReadFull_append Let_def
        lr_compute_def body_layout_def)
qed

lemma Frame_Decode_Encode:
  assumes "Frame_BaseCmd f = Some c" "proto_cmd_ok pc c"
    and "\<And>m. Frame_Metadata f = Some m \<Longrightarrow> proto_meta_ok pc m"
    and "Frame_Metadata f = None \<Longrightarrow> Frame_Payload f = []"
    and "encoded_size pc f < 2 ^ 32" "Frame_Encode pc f new_buffer = (None, w)"
  shows "Frame_Decode pc new_Frame \<lparr>rd_data = wr_out w @ rest, rd_err = e\<rparr> =
    (None, f, \<lparr>rd_data = rest, rd_err = e\<rparr>)"
proof -
  obtain cmd where cmd: "Marshal_BaseCommand pc (Frame_BaseCmd f) = Inr cmd"
    using assms(6) by (cases "Marshal_BaseCommand pc (Frame_BaseCmd f)") (auto simp: Frame_Encode_def)
  then have um: "Unmarshal_BaseCommand pc cmd = (c, None)"
    using assms(1,2) by (simp add: proto_cmd_ok_def)
  show ?thesis
  proof (cases "Frame_Metadata f")
    case None
    note wire = Frame_Encode_simple_wire [OF assms(6,5) None cmd]
    with um None assms(1,4) show ?thesis
      by (simp add: Frame_Decode_simple_layout new_Frame_def)
  next
    case (Some m)
    obtain meta where meta: "Marshal_MessageMetadata pc m = Inr meta"
      using assms(6) cmd Some by (cases "Marshal_MessageMetadata pc m") (auto simp: Frame_Encode_def)
    then have ne: "meta \<noteq> []" and umm: "Unmarshal_MessageMetadata pc meta = (m, None)"
      using assms(3) [OF Some] by (simp_all add: proto_meta_ok_def)
    note wire = Frame_Encode_payload_wire [OF assms(6,5) Some meta ne cmd]
    from wire(2) have le: "length meta + length (Frame_Payload f) \<le> MaxFrameSize"
      by (simp add: body_layout_def)
    show ?thesis
      unfolding wire(1)
      using Frame_Decode_payload_layout [OF wire(2) length_be32 body_layout_def length_be32 um]
        Frame_Decode_metadata_layout [OF umm ne le] Some assms(1)
      by (simp add: new_Frame_def)
  qed
qed

lemma Frame_Decode_truncated:
  assumes "Frame_Encode pc f new_buffer = (None, w)" "encoded_size pc f < 2 ^ 32"
    and "\<And>m. Frame_Metadata f = Some m \<Longrightarrow> Marshal_MessageMetadata pc m \<noteq> Inr []"
    and "wr_out w = p @ q" "q \<noteq> []"
  shows "fst (Frame_Decode pc g \<lparr>rd_data = p, rd_err = e\<rparr>) \<noteq> None"
proof
  assume acc: "fst (Frame_Decode pc g \<lparr>rd_data = p, rd_err = e\<rparr>) = None"
  have size: "unat (be32_get (take 4 (wr_out w))) + 4 = length (wr_out w)"
    by (rule Frame_Encode_length_prefix [OF assms(1-3)])
  obtain f' r' where "Frame_Decode pc g \<lparr>rd_data = p, rd_err = e\<rparr> = (None, f', r')"
    using acc by (metis prod.exhaust_sel)
  from Frame_Decode_ok(1,3) [OF this] have "4 \<le> length p" "unat (be32_get (take 4 p)) + 4 \<le> length p"
    by simp_all
  with size assms(4,5) show False by simp
qed

text \<open>A frame the codec can carry: the laws of the protobuf runtime hold for its parts.\<close>

definition frame_valid :: "proto \<Rightarrow> Frame \<Rightarrow> bool" where
  "frame_valid pc f \<longleftrightarrow>
     (case Frame_BaseCmd f of None \<Rightarrow> False | Some c \<Rightarrow> proto_cmd_ok pc c) \<and>
     (case Frame_Metadata f of None \<Rightarrow> Frame_Payload f = [] | Some m \<Rightarrow> proto_meta_ok pc m) \<and>
     encoded_size pc f < 2 ^ 32"

lemma frame_valid_decode:
  assumes "frame_valid pc f" "Frame_Encode pc f new_buffer = (None, w)"
  shows "Frame_Decode pc new_Frame \<lparr>rd_data = wr_out w @ rest, rd_err = e\<rparr> =
    (None, f, \<lparr>rd_data = rest, rd_err = e\<rparr>)"
  using assms Frame_Decode_Encode [OF _ _ _ _ _ assms(2)]
  by (auto simp: frame_valid_def split: option.splits)

lemma frame_valid_truncated:
  assumes "frame_valid pc f" "Frame_Encode pc f new_buffer = (None, w)" "wr_out w = p @ q" "q \<noteq> []"
  shows "fst (Frame_Decode pc g \<lparr>rd_data = p, rd_err = e\<rparr>) \<noteq> None"
  using assms by (intro Frame_Decode_truncated [OF assms(2)])
    (auto simp: frame_valid_def proto_meta_ok_def split: option.splits)

section \<open>An example codec\<close>

text \<open>
  A codec for one command (PING) and one message metadata, with their real protobuf encodings: it
  meets the laws assumed of the protobuf runtime and lets concrete frames be evaluated.
\<close>

definition ping_cmd :: BaseCommand where
  "ping_cmd = new_BaseCommand\<lparr>BaseCommand_Type := Some BaseCommand_PING,
     BaseCommand_Ping := Some CommandPing\<rparr>"

definition demo_meta :: MessageMetadata where
  "demo_meta = new_MessageMetadata\<lparr>MessageMetadata_ProducerName := Some ''p'',
     MessageMetadata_SequenceId := Some 0, MessageMetadata_PublishTime := Some 0\<rparr>"

definition demo_proto :: proto where
  "demo_proto =
     \<lparr>Marshal_BaseCommand =
        (\<lambda>c. if c = Some ping_cmd then Inr [8, 18, 146, 1, 0] else Inl (ErrProto ''unsupported'')),
      Unmarshal_BaseCommand =
        (\<lambda>bs. if bs = [8, 18, 146, 1, 0] then (ping_cmd, None)
              else (new_BaseCommand, Some (ErrProto ''unsupported''))),
      Marshal_MessageMetadata =
        (\<lambda>m. if m = demo_meta then Inr [10, 1, 112, 16, 0, 24, 0] else Inl (ErrProto ''unsupported'')),
      Unmarshal_MessageMetadata =
        (\<lambda>bs. if bs = [10, 1, 112, 16, 0, 24, 0] then (demo_meta, None)
              else (new_MessageMetadata, Some (ErrProto ''unsupported''))),
      Unmarshal_SingleMessageMetadata =
        (\<lambda>bs. if length bs = 2 \<and> hd bs = 24 \<and> last bs < 128
              then (new_SingleMessageMetadata\<lparr>SingleMessageMetadata_PayloadSize := Some (ucast (last bs))\<rparr>, None)
              else if bs = [24, 255, 255, 255, 255, 255, 255, 255, 255, 255, 1]
              then (new_SingleMessageMetadata\<lparr>SingleMessageMetadata_PayloadSize := Some (- 1)\<rparr>, None)
              else (new_SingleMessageMetadata, Some (ErrProto ''unsupported''))),
      Equal_BaseCommand = (=), Equal_MessageMetadata = (=), Equal_CommandMessage = (=),
      Equal_MessageIdData = (=)\<rparr>"

definition demo_frame :: "bytes \<Rightarrow> Frame" where
  "demo_frame payload =
     \<lparr>Frame_BaseCmd = Some ping_cmd, Frame_Metadata = Some demo_meta, Frame_Payload = payload\<rparr>"

lemma demo_proto_simps [simp]:
  "Marshal_BaseCommand demo_proto (Some ping_cmd) = Inr [8, 18, 146, 1, 0]"
  "Marshal_MessageMetadata demo_proto demo_meta = Inr [10, 1, 112, 16, 0, 24, 0]"
  "proto_cmd_ok demo_proto ping_cmd" "proto_meta_ok demo_proto demo_meta"
  by (simp_all add: demo_proto_def proto_cmd_ok_def proto_meta_ok_def)

lemma demo_frame_simps [simp]:
  "Frame_BaseCmd (demo_frame p) = Some ping_cmd"
  "Frame_Metadata (demo_frame p) = Some demo_meta"
  "Frame_Payload (demo_frame p) = p"
  "encoded_size demo_proto (demo_frame p) = 30 + length p"
  by (simp_all add: demo_frame_def encoded_size_def)

lemma demo_frame_encodes:
  assumes "length p \<le> 1000"
  shows "Frame_Encode demo_proto (demo_frame p) new_buffer =
    (None, snd (Frame_Encode demo_proto (demo_frame p) new_buffer))"
  using assms
  by (subst (1 2) Frame_Encode_payload [where cmd = "[8, 18, 146, 1, 0]" and m = demo_meta
        and meta = "[10, 1, 112, 16, 0, 24, 0]"]) (simp_all add: MaxFrameSize_def new_buffer_def)

section \<open>Properties of the codec\<close>

text \<open>
  C1. Encode and Decode are inverse: decoding what \<open>Frame_Encode\<close> wrote, with any bytes of later
  frames behind it, gives the same frame back and stops exactly at its last byte, for simple and
  for payload frames. The frame's true size is below \<open>2 ^ 32\<close> bytes, and a frame without metadata
  has no payload (Encode does not write it).
\<close>

theorem frame_roundtrip:
  assumes "Frame_BaseCmd f = Some c" "proto_cmd_ok pc c"
    and "\<And>m. Frame_Metadata f = Some m \<Longrightarrow> proto_meta_ok pc m"
    and "Frame_Metadata f = None \<Longrightarrow> Frame_Payload f = []"
    and "encoded_size pc f < 2 ^ 32" "Frame_Encode pc f new_buffer = (None, w)"
  shows "Frame_Decode pc new_Frame \<lparr>rd_data = wr_out w @ rest, rd_err = e\<rparr> =
    (None, f, \<lparr>rd_data = rest, rd_err = e\<rparr>)"
  using assms by (rule Frame_Decode_Encode)

theorem frame_roundtrip_witness:
  "Frame_Decode demo_proto new_Frame
     \<lparr>rd_data = wr_out (snd (Frame_Encode demo_proto (demo_frame [1, 2, 3]) new_buffer)) @ [7], rd_err = EOF\<rparr> =
   (None, demo_frame [1, 2, 3], \<lparr>rd_data = [7], rd_err = EOF\<rparr>)"
proof (rule frame_roundtrip [where c = ping_cmd])
  show "Frame_Encode demo_proto (demo_frame [1, 2, 3]) new_buffer =
      (None, snd (Frame_Encode demo_proto (demo_frame [1, 2, 3]) new_buffer))"
    by (rule demo_frame_encodes) simp
qed simp_all

text \<open>
  C35. A decode, whatever its input and outcome, takes at most \<open>MaxFrameSize\<close> bytes from the
  connection; when it succeeds it has taken exactly the frame the length prefix announces, which is
  at most \<open>MaxFrameSize\<close> long, so the next decode starts at the next frame.
\<close>

theorem decode_consumes:
  "(\<exists>k \<le> MaxFrameSize. snd (snd (Frame_Decode pc f r)) = r\<lparr>rd_data := drop k (rd_data r)\<rparr>) \<and>
   (fst (Frame_Decode pc f r) = None \<longrightarrow>
      unat (be32_get (take 4 (rd_data r))) + 4 \<le> min MaxFrameSize (length (rd_data r)) \<and>
      snd (snd (Frame_Decode pc f r)) =
        r\<lparr>rd_data := drop (unat (be32_get (take 4 (rd_data r))) + 4) (rd_data r)\<rparr>)"
proof -
  obtain e f' r' where d: "Frame_Decode pc f r = (e, f', r')" by (metis prod_cases3)
  with Frame_Decode_consumes [OF d] Frame_Decode_ok [of pc f r f' r'] show ?thesis by auto
qed

theorem decode_consumes_witness:
  "fst (Frame_Decode demo_proto new_Frame
     \<lparr>rd_data = [0, 0, 0, 9, 0, 0, 0, 5, 8, 18, 146, 1, 0, 42], rd_err = EOF\<rparr>) = None \<and>
   rd_data (snd (snd (Frame_Decode demo_proto new_Frame
     \<lparr>rd_data = [0, 0, 0, 9, 0, 0, 0, 5, 8, 18, 146, 1, 0, 42], rd_err = EOF\<rparr>))) = [42]"
proof -
  let ?r = "\<lparr>rd_data = [0, 0, 0, 9, 0, 0, 0, 5, 8, 18, 146, 1, 0, 42], rd_err = EOF\<rparr>"
  have dec: "fst (Frame_Decode demo_proto new_Frame ?r) = None"
    using Frame_Decode_simple_layout [of "[8, 18, 146, 1, 0]" demo_proto ping_cmd new_Frame "[42]" EOF]
    by (simp add: simple_layout_def be32_def demo_proto_def MaxFrameSize_def)
  show ?thesis
    using dec decode_consumes [of demo_proto new_Frame ?r] by simp
qed



text \<open>
  C36. A connection that breaks inside a frame never yields a frame: no proper prefix of an encoded
  frame is accepted.
\<close>

theorem truncated_frame_rejected:
  assumes "Frame_Encode pc f new_buffer = (None, w)" "encoded_size pc f < 2 ^ 32"
    and "\<And>m. Frame_Metadata f = Some m \<Longrightarrow> Marshal_MessageMetadata pc m \<noteq> Inr []"
    and "wr_out w = p @ q" "q \<noteq> []"
  shows "fst (Frame_Decode pc g \<lparr>rd_data = p, rd_err = e\<rparr>) \<noteq> None"
  using assms by (rule Frame_Decode_truncated)

theorem truncated_frame_rejected_witness:
  "fst (Frame_Decode demo_proto new_Frame
     \<lparr>rd_data = butlast (wr_out (snd (Frame_Encode demo_proto (demo_frame [1, 2, 3]) new_buffer))),
      rd_err = EOF\<rparr>) \<noteq> None"
proof -
  let ?w = "snd (Frame_Encode demo_proto (demo_frame [1, 2, 3]) new_buffer)"
  have enc: "Frame_Encode demo_proto (demo_frame [1, 2, 3]) new_buffer = (None, ?w)"
    by (rule demo_frame_encodes) simp
  have "unat (be32_get (take 4 (wr_out ?w))) + 4 = length (wr_out ?w)"
    by (rule Frame_Encode_length_prefix [OF enc]) simp_all
  then have "wr_out ?w \<noteq> []" by auto
  then have split: "wr_out ?w = butlast (wr_out ?w) @ [last (wr_out ?w)]" by simp
  show ?thesis
    by (rule truncated_frame_rejected [OF enc _ _ split]) simp_all
qed

text \<open>
  Encode and the size limit: for a frame whose true size is below \<open>2 ^ 32\<close>, Encode into a
  buffer fails exactly when that size exceeds \<open>MaxFrameSize\<close>, and then it has written nothing;
  otherwise it writes exactly that many bytes, the first four of which hold the number of bytes
  behind them.
\<close>

theorem encode_size_limit:
  assumes "Marshal_BaseCommand pc (Frame_BaseCmd f) = Inr cmd" "encoded_size pc f < 2 ^ 32"
    and "\<And>m. Frame_Metadata f = Some m \<Longrightarrow> \<exists>meta. Marshal_MessageMetadata pc m = Inr meta \<and> meta \<noteq> []"
  shows "if encoded_size pc f > MaxFrameSize
    then Frame_Encode pc f w = (Some (ErrEncodedFrameSize (word_of_nat (encoded_size pc f))), w)
    else \<exists>w'. Frame_Encode pc f new_buffer = (None, w') \<and> length (wr_out w') = encoded_size pc f \<and>
      unat (be32_get (take 4 (wr_out w'))) + 4 = encoded_size pc f"
proof (cases "encoded_size pc f > MaxFrameSize")
  case True
  with Frame_Encode_cases(1) [OF assms] show ?thesis by simp
next
  case False
  with Frame_Encode_cases(2) [OF assms] obtain w' where
    w': "Frame_Encode pc f new_buffer = (None, w')" "length (wr_out w') = encoded_size pc f" by auto
  then have "unat (be32_get (take 4 (wr_out w'))) + 4 = length (wr_out w')"
    using assms(2,3) by (intro Frame_Encode_length_prefix) auto
  with w' False show ?thesis by simp
qed

theorem encode_size_limit_witness:
  "\<exists>w'. Frame_Encode demo_proto (demo_frame [1, 2, 3]) new_buffer = (None, w') \<and> length (wr_out w') = 33 \<and>
     unat (be32_get (take 4 (wr_out w'))) + 4 = 33"
  using encode_size_limit [of demo_proto "demo_frame [1, 2, 3]" "[8, 18, 146, 1, 0]" new_buffer]
  by (simp add: MaxFrameSize_def)

text \<open>
  The bound \<open>2 ^ 32\<close> is needed: the size is computed in 32 bits, so a frame with a payload of
  4 GiB passes the check, and is written, with a length prefix of 26.
\<close>

lemma encode_size_wraps:
  "\<exists>f w. Frame_Encode demo_proto f new_buffer = (None, w) \<and> length (wr_out w) = 2 ^ 32 + 30 \<and>
     take 4 (wr_out w) = be32 26"
proof -
  obtain p :: bytes where p: "length p = 2 ^ 32" using Ex_list_of_length by blast
  have "word_of_nat (length p) = (0 :: u32)" by (simp add: p)
  then have ts: "Frame_totalSize 5 7 (length p) = 26" by (simp add: Frame_totalSize_def)
  have "Frame_Encode demo_proto (demo_frame p) new_buffer =
      write_all [be32 26, be32 5, [8, 18, 146, 1, 0], magicNumber,
         Frame_checksum [10, 1, 112, 16, 0, 24, 0] p, be32 7, [10, 1, 112, 16, 0, 24, 0], p] new_buffer"
    by (simp add: Frame_Encode_def ts MaxFrameSize_def)
  moreover have "length (Frame_checksum [10, 1, 112, 16, 0, 24, 0] p) = 4"
    by simp
  ultimately show ?thesis
    using p by (intro exI [of _ "demo_frame p"]) (simp add: new_buffer_def magicNumber_def)
qed

end
