(* ===== verification/Message.thy ===== *)
theory Message
  imports Frame
begin

text \<open>
  Messages and ids, \<^verbatim>\<open>core/msg/message.go\<close> and \<^verbatim>\<open>core/msg/monotonic.go\<close>: the message
  record, the decoder of batch payloads and the id generator that numbers requests, producers
  and consumers. A run-time panic is the error \<open>ErrPanic\<close>. The lemmas characterise the batches the
  decoder accepts and show that the generator does not repeat an id within one turn of its counter.
\<close>

section \<open>Messages\<close>

record Message =
  Message_Topic :: string
  Message_ConsumerID :: u64
  Message_Msg :: "CommandMessage option"
  Message_Meta :: "MessageMetadata option"
  Message_Payload :: bytes

definition Message_Equal :: "proto \<Rightarrow> Message \<Rightarrow> Message \<Rightarrow> bool" where
  "Message_Equal pc m other \<longleftrightarrow>
     Message_ConsumerID m = Message_ConsumerID other \<and>
     Equal_CommandMessage pc (Message_Msg m) (Message_Msg other) \<and>
     Equal_MessageMetadata pc (Message_Meta m) (Message_Meta other) \<and>
     Message_Payload m = Message_Payload other"

record SingleMessage =
  SingleMessage_SingleMetaSize :: u32
  SingleMessage_SingleMeta :: SingleMessageMetadata
  SingleMessage_SinglePayload :: bytes

section \<open>Batch payloads\<close>

text \<open>
  The loop of \<open>DecodeBatchPayload\<close>, with the number of entries still to read and the list so far.
\<close>

fun DecodeBatchPayload_loop ::
    "proto \<Rightarrow> nat \<Rightarrow> reader \<Rightarrow> SingleMessage list \<Rightarrow> go_error + SingleMessage list" where
  "DecodeBatchPayload_loop pc 0 rdBuf acc = Inr acc"
| "DecodeBatchPayload_loop pc (Suc i) rdBuf acc =
     (case ReadFull 4 rdBuf of
        (_, Some err, _) \<Rightarrow> Inl err
      | (buf32, None, r1) \<Rightarrow>
          let singleMetaSize = be32_get buf32 in
          (case ReadFull (unat singleMetaSize) r1 of
             (_, Some err, _) \<Rightarrow> Inl err
           | (singleMetaBuf, None, r2) \<Rightarrow>
               (case Unmarshal_SingleMessageMetadata pc singleMetaBuf of
                  (_, Some err) \<Rightarrow> Inl err
                | (singleMeta, None) \<Rightarrow>
                    let size = sint (SingleMessageMetadata_GetPayloadSize (Some singleMeta)) in
                    if size < 0 then Inl (ErrPanic ''makeslice: len out of range'')
                    else
                      (case ReadFull (nat size) r2 of
                         (_, Some err, _) \<Rightarrow> Inl err
                       | (singlePayload, None, r3) \<Rightarrow>
                           DecodeBatchPayload_loop pc i r3
                             (acc @ [\<lparr>SingleMessage_SingleMetaSize = singleMetaSize,
                                      SingleMessage_SingleMeta = singleMeta,
                                      SingleMessage_SinglePayload = singlePayload\<rparr>])))))"

definition DecodeBatchPayload :: "proto \<Rightarrow> bytes \<Rightarrow> i32 \<Rightarrow> go_error + SingleMessage list" where
  "DecodeBatchPayload pc bp batchNum =
     (if sint batchNum < 0 then Inl (ErrPanic ''makeslice: cap out of range'')
      else DecodeBatchPayload_loop pc (nat (sint batchNum)) \<lparr>rd_data = bp, rd_err = EOF\<rparr> [])"

text \<open>
  \<open>GetNumMessagesInBatch\<close> accepts a nil \<open>Meta\<close> and then gives its default, 1; reading the field
  of that nil pointer is a panic.
\<close>

definition DecodeBatchMessage :: "proto \<Rightarrow> Message \<Rightarrow> go_error + SingleMessage list" where
  "DecodeBatchMessage pc msg =
     (let num = MessageMetadata_GetNumMessagesInBatch (Message_Meta msg) in
      if num = 0 then Inl ErrNumMessagesInBatch
      else
        (case Message_Meta msg of
           None \<Rightarrow> Inl (ErrPanic ''nil pointer dereference'')
         | Some meta \<Rightarrow>
             if MessageMetadata_NumMessagesInBatch meta = None then Inl ErrNumMessagesInBatch
             else DecodeBatchPayload pc (Message_Payload msg) num))"

section \<open>Ids\<close>

record MonotonicID =
  MonotonicID_ID :: u64

definition MonotonicID_Next :: "MonotonicID \<Rightarrow> u64 \<times> MonotonicID" where
  "MonotonicID_Next r =
     (let r' = r\<lparr>MonotonicID_ID := MonotonicID_ID r + 1\<rparr> in (MonotonicID_ID r' - 1, r'))"

text \<open>The ids of \<open>n\<close> calls in a row.\<close>

fun MonotonicID_ids :: "nat \<Rightarrow> MonotonicID \<Rightarrow> u64 list" where
  "MonotonicID_ids 0 r = []"
| "MonotonicID_ids (Suc n) r = (case MonotonicID_Next r of (i, r') \<Rightarrow> i # MonotonicID_ids n r')"

lemma MonotonicID_Next_simp [simp]:
  "MonotonicID_Next r = (MonotonicID_ID r, r\<lparr>MonotonicID_ID := MonotonicID_ID r + 1\<rparr>)"
  by (simp add: MonotonicID_Next_def)

lemma MonotonicID_ids_eq:
  "MonotonicID_ids n r = map (\<lambda>i. MonotonicID_ID r + word_of_nat i) [0..<n]"
proof (induction n arbitrary: r)
  case (Suc n)
  have "map (\<lambda>i. MonotonicID_ID r + word_of_nat i) [0..<Suc n] =
      MonotonicID_ID r # map (\<lambda>i. MonotonicID_ID r + word_of_nat (Suc i)) [0..<n]"
    by (simp del: upt_Suc add: upt_conv_Cons map_Suc_upt [symmetric])
  with Suc.IH show ?case by (simp add: algebra_simps)
qed simp

lemma word_of_nat_u64_inj:
  "i < 2 ^ 64 \<Longrightarrow> j < 2 ^ 64 \<Longrightarrow> word_of_nat i = (word_of_nat j :: u64) \<longleftrightarrow> i = j"
  by (simp add: word_of_nat_eq_iff take_bit_nat_eq_self)

lemma MonotonicID_ids_distinct:
  assumes "n \<le> 2 ^ 64"
  shows "distinct (MonotonicID_ids n r)"
  using assms by (auto simp: MonotonicID_ids_eq distinct_map inj_on_def word_of_nat_u64_inj
      simp del: of_nat_numeral)

section \<open>What a batch decodes to\<close>

text \<open>One entry of a batch on the wire.\<close>

definition batch_entry :: "proto \<Rightarrow> bytes \<Rightarrow> SingleMessage \<Rightarrow> bool" where
  "batch_entry pc bs m \<longleftrightarrow>
     (\<exists>meta. bs = be32 (SingleMessage_SingleMetaSize m) @ meta @ SingleMessage_SinglePayload m \<and>
        length meta = unat (SingleMessage_SingleMetaSize m) \<and>
        Unmarshal_SingleMessageMetadata pc meta = (SingleMessage_SingleMeta m, None) \<and>
        sint (SingleMessageMetadata_GetPayloadSize (Some (SingleMessage_SingleMeta m))) =
          int (length (SingleMessage_SinglePayload m)))"

lemma ReadFull_None_iff:
  "ReadFull n r = (bs, None, r') \<longleftrightarrow>
   length bs = n \<and> rd_data r = bs @ rd_data r' \<and> r' = r\<lparr>rd_data := rd_data r'\<rparr>"
  by (auto simp: ReadFull_def Let_def)

lemma DecodeBatchPayload_loop_Suc:
  "DecodeBatchPayload_loop pc (Suc i) r acc = Inr l \<longleftrightarrow>
   (\<exists>c m d. rd_data r = c @ d \<and> batch_entry pc c m \<and>
      DecodeBatchPayload_loop pc i (r\<lparr>rd_data := d\<rparr>) (acc @ [m]) = Inr l)" (is "?lhs \<longleftrightarrow> ?rhs")
proof
  assume ?lhs
  then obtain b4 r1 mb r2 sm pl r3 where
    "ReadFull 4 r = (b4, None, r1)" "ReadFull (unat (be32_get b4)) r1 = (mb, None, r2)"
    "Unmarshal_SingleMessageMetadata pc mb = (sm, None)"
    "0 \<le> sint (SingleMessageMetadata_GetPayloadSize (Some sm))"
    "ReadFull (nat (sint (SingleMessageMetadata_GetPayloadSize (Some sm)))) r2 = (pl, None, r3)"
    "DecodeBatchPayload_loop pc i r3 (acc @ [\<lparr>SingleMessage_SingleMetaSize = be32_get b4,
        SingleMessage_SingleMeta = sm, SingleMessage_SinglePayload = pl\<rparr>]) = Inr l"
    by (auto simp: Let_def split: prod.splits option.splits if_splits)
  then show ?rhs
    by (intro exI [of _ "b4 @ mb @ pl"] exI [of _ "rd_data r3"]
        exI [of _ "\<lparr>SingleMessage_SingleMetaSize = be32_get b4,
        SingleMessage_SingleMeta = sm, SingleMessage_SinglePayload = pl\<rparr>"])
      (auto simp: ReadFull_None_iff batch_entry_def be32_be32_get)
next
  assume ?rhs
  then obtain c m d meta where
    "rd_data r = be32 (SingleMessage_SingleMetaSize m) @ meta @ SingleMessage_SinglePayload m @ d"
    "length meta = unat (SingleMessage_SingleMetaSize m)"
    "Unmarshal_SingleMessageMetadata pc meta = (SingleMessage_SingleMeta m, None)"
    "sint (SingleMessageMetadata_GetPayloadSize (Some (SingleMessage_SingleMeta m))) =
      int (length (SingleMessage_SinglePayload m))"
    "DecodeBatchPayload_loop pc i (r\<lparr>rd_data := d\<rparr>) (acc @ [m]) = Inr l"
    by (auto simp: batch_entry_def)
  then show ?lhs by (cases m) (simp add: ReadFull_def Let_def)
qed

lemma DecodeBatchPayload_loop_iff:
  "DecodeBatchPayload_loop pc n r acc = Inr l \<longleftrightarrow>
   (\<exists>cs ms rest. rd_data r = concat cs @ rest \<and> list_all2 (batch_entry pc) cs ms \<and>
      length ms = n \<and> l = acc @ ms)"
proof (induction n arbitrary: r acc)
  case (Suc n)
  have "DecodeBatchPayload_loop pc (Suc n) r acc = Inr l \<longleftrightarrow>
      (\<exists>c m cs ms rest. rd_data r = c @ concat cs @ rest \<and> batch_entry pc c m \<and>
         list_all2 (batch_entry pc) cs ms \<and> length ms = n \<and> l = acc @ m # ms)"
    unfolding DecodeBatchPayload_loop_Suc Suc.IH by simp blast
  also have "\<dots> \<longleftrightarrow> (\<exists>cs ms rest. rd_data r = concat cs @ rest \<and> list_all2 (batch_entry pc) cs ms \<and>
      length ms = Suc n \<and> l = acc @ ms)" (is "?l \<longleftrightarrow> ?r")
  proof
    assume ?l
    then obtain c m cs ms rest where "rd_data r = concat (c # cs) @ rest"
      "list_all2 (batch_entry pc) (c # cs) (m # ms)" "length (m # ms) = Suc n" "l = acc @ m # ms" by auto
    then show ?r by blast
  next
    assume ?r
    then show ?l by (fastforce simp: length_Suc_conv list_all2_Cons2)
  qed
  finally show ?case .
qed auto

text \<open>Where the decoder can panic.\<close>

lemma DecodeBatchPayload_loop_no_panic:
  assumes "\<And>bs m. Unmarshal_SingleMessageMetadata pc bs = (m, None) \<Longrightarrow>
      0 \<le> sint (SingleMessageMetadata_GetPayloadSize (Some m))"
    and "\<And>bs m s. Unmarshal_SingleMessageMetadata pc bs \<noteq> (m, Some (ErrPanic s))"
    and "rd_err r = EOF"
  shows "DecodeBatchPayload_loop pc n r acc \<noteq> Inl (ErrPanic s)"
  using assms(3)
proof (induction n arbitrary: r acc)
  case (Suc n)
  have keep: "ReadFull k q = (bs, e, q') \<Longrightarrow> rd_err q = EOF \<Longrightarrow> rd_err q' = EOF \<and> e \<noteq> Some (ErrPanic s)"
    for k q bs e q'
    by (auto simp: ReadFull_def Let_def split: if_splits)
  show ?case
    using assms(1,2) Suc.prems Suc.IH
    by (auto simp: Let_def not_le [symmetric] split: prod.splits option.splits dest!: keep)
qed simp

section \<open>Properties\<close>

text \<open>
  C37. \<open>DecodeBatchPayload\<close> returns a list exactly when the payload starts with that many entries,
  each a big-endian size, metadata of that size that unmarshals, and the number of payload bytes
  the metadata announces; the list is those entries, in order. In particular every batch so laid
  out decodes to its messages, and nothing else is accepted.
\<close>

theorem decode_batch_iff:
  "DecodeBatchPayload pc bp batchNum = Inr l \<longleftrightarrow>
   0 \<le> sint batchNum \<and> length l = nat (sint batchNum) \<and>
   (\<exists>cs rest. bp = concat cs @ rest \<and> list_all2 (batch_entry pc) cs l)"
  unfolding DecodeBatchPayload_def DecodeBatchPayload_loop_iff
  by (auto simp: DecodeBatchPayload_loop_iff)

text \<open>
  \<open>DecodeBatchMessage\<close> does not panic on a message whose metadata is present and announces a
  non-negative number of entries, provided no entry announces a negative payload size.
\<close>

theorem decode_batch_no_panic:
  assumes "Message_Meta msg = Some meta"
    and "0 \<le> sint (MessageMetadata_GetNumMessagesInBatch (Some meta))"
    and "\<And>bs m. Unmarshal_SingleMessageMetadata pc bs = (m, None) \<Longrightarrow>
      0 \<le> sint (SingleMessageMetadata_GetPayloadSize (Some m))"
    and "\<And>bs m s. Unmarshal_SingleMessageMetadata pc bs \<noteq> (m, Some (ErrPanic s))"
  shows "DecodeBatchMessage pc msg \<noteq> Inl (ErrPanic s)"
  using assms DecodeBatchPayload_loop_no_panic [OF assms(3,4)]
  by (simp add: DecodeBatchMessage_def DecodeBatchPayload_def Let_def)

definition demo_batch_proto :: proto where
  "demo_batch_proto = demo_proto\<lparr>Unmarshal_SingleMessageMetadata :=
     (\<lambda>bs. if bs = [24, 2]
           then (new_SingleMessageMetadata\<lparr>SingleMessageMetadata_PayloadSize := Some 2\<rparr>, None)
           else (new_SingleMessageMetadata, Some (ErrProto ''unsupported'')))\<rparr>"

definition demo_batch :: "i32 \<Rightarrow> bytes \<Rightarrow> Message" where
  "demo_batch n payload =
     \<lparr>Message_Topic = ''t'', Message_ConsumerID = 1, Message_Msg = None,
      Message_Meta = Some (demo_meta\<lparr>MessageMetadata_NumMessagesInBatch := Some n\<rparr>),
      Message_Payload = payload\<rparr>"

lemmas demo_batch_defs = demo_batch_def demo_batch_proto_def DecodeBatchMessage_def DecodeBatchPayload_def
  MessageMetadata_GetNumMessagesInBatch_def SingleMessageMetadata_GetPayloadSize_def ReadFull_def

theorem decode_batch_no_panic_witness:
  "\<forall>s. DecodeBatchMessage demo_batch_proto (demo_batch 1 [0, 0, 0, 2, 24, 2, 7, 8]) \<noteq> Inl (ErrPanic s)"
  by (rule allI, rule decode_batch_no_panic) (auto simp: demo_batch_defs split: if_splits)

text \<open>
  A negative number of entries, and an entry that announces a negative payload size, both of which
  the wire format can carry, make the decoder panic.
\<close>

lemma decode_batch_negative_panics:
  "DecodeBatchMessage demo_proto (demo_batch (- 1) []) = Inl (ErrPanic ''makeslice: cap out of range'')"
  "DecodeBatchMessage demo_proto (demo_batch 1 
       [0, 0, 0, 11, 24, 255, 255, 255, 255, 255, 255, 255, 255, 255, 1]) =
     Inl (ErrPanic ''makeslice: len out of range'')"
  by (simp_all add: demo_batch_defs demo_proto_def Let_def)

text \<open>
  The ids handed out by any \<open>2 ^ 64\<close> consecutive calls of \<open>Next\<close> are pairwise distinct, in
  spite of the wrap-around of the counter.
\<close>

theorem monotonic_ids_distinct:
  "distinct (MonotonicID_ids (2 ^ 64) r)"
  by (rule MonotonicID_ids_distinct [OF order_refl])

end
