(* ===== verification/Dispatcher.thy ===== *)
theory Dispatcher
  imports Message "HOL-Library.Multiset"
begin

text \<open>
  The frame dispatcher, \<^verbatim>\<open>core/frame/framedispatcher.go\<close>: it hands every response frame to the
  goroutine that waits for it. A registration makes two channels, \<open>Resp\<close> and \<open>Done\<close>; here both
  have the same number, the \<^emph>\<open>handle\<close> of the registration, and a handle also stands for the
  \<open>cancel\<close> closure. Next to the three tables the record keeps the state of the channels: which
  \<open>Done\<close> channels are closed, which \<open>Resp\<close> channels have a goroutine blocked in a receive, and the
  frames received so far. The tables share the interface \<open>cubbyhole\<close>; the last part interleaves
  any number of requesters and notifiers at the granularity of the critical sections.
\<close>

section \<open>State\<close>

record AsyncResp =
  AsyncResp_Resp :: nat
  AsyncResp_Done :: nat

record ProdSeqKey =
  ProdSeqKey_ProducerID :: u64
  ProdSeqKey_SequenceID :: u64

record Dispatcher =
  Dispatcher_Global :: "AsyncResp option"
  Dispatcher_ReqIDs :: "u64 \<rightharpoonup> AsyncResp"
  Dispatcher_ProdSeqIDs :: "ProdSeqKey \<rightharpoonup> AsyncResp"
  disp_next :: nat
  disp_closed :: "nat list"
  disp_waiting :: "nat list"
  disp_got :: "(nat \<times> Frame) list"

definition NewFrameDispatcher :: Dispatcher where
  "NewFrameDispatcher =
     \<lparr>Dispatcher_Global = None, Dispatcher_ReqIDs = Map.empty, Dispatcher_ProdSeqIDs = Map.empty,
      disp_next = 0, disp_closed = [], disp_waiting = [], disp_got = []\<rparr>"

section \<open>Channels\<close>

definition new_AsyncResp :: "Dispatcher \<Rightarrow> AsyncResp \<times> Dispatcher" where
  "new_AsyncResp d =
     (\<lparr>AsyncResp_Resp = disp_next d, AsyncResp_Done = disp_next d\<rparr>, d\<lparr>disp_next := disp_next d + 1\<rparr>)"

text \<open>The receiving side: enter a receive on the channel, give it up again, or get a frame.\<close>

definition resp_await :: "nat \<Rightarrow> Dispatcher \<Rightarrow> Dispatcher" where
  "resp_await h d = d\<lparr>disp_waiting := h # disp_waiting d\<rparr>"

definition resp_leave :: "nat \<Rightarrow> Dispatcher \<Rightarrow> Dispatcher" where
  "resp_leave h d = d\<lparr>disp_waiting := removeAll h (disp_waiting d)\<rparr>"

definition resp_deliver :: "nat \<Rightarrow> Frame \<Rightarrow> Dispatcher \<Rightarrow> Dispatcher" where
  "resp_deliver h frame d =
     d\<lparr>disp_waiting := remove1 h (disp_waiting d), disp_got := (h, frame) # disp_got d\<rparr>"

text \<open>
  The \<open>select\<close> that ends every notification: hand the frame to a receiver, or see that \<open>Done\<close> is
  closed and return the error; \<open>None\<close> while neither is possible and the notifier blocks.
\<close>

definition resp_select ::
    "AsyncResp \<Rightarrow> Frame \<Rightarrow> go_error \<Rightarrow> Dispatcher \<Rightarrow> (go_error option \<times> Dispatcher) option" where
  "resp_select a frame err d =
     (if AsyncResp_Resp a \<in> set (disp_waiting d)
      then Some (None, resp_deliver (AsyncResp_Resp a) frame d)
      else if AsyncResp_Done a \<in> set (disp_closed d) then Some (Some err, d)
      else None)"

section \<open>Global requests\<close>

definition RegisterGlobal :: "Dispatcher \<Rightarrow> (go_error + nat) \<times> Dispatcher" where
  "RegisterGlobal f =
     (case new_AsyncResp f of (a, f1) \<Rightarrow>
        if Dispatcher_Global f1 \<noteq> None then (Inl ErrOutstandingGlobal, f1)
        else (Inr (AsyncResp_Resp a), f1\<lparr>Dispatcher_Global := Some a\<rparr>))"

definition cancelGlobal :: "nat \<Rightarrow> Dispatcher \<Rightarrow> Dispatcher" where
  "cancelGlobal h f =
     (if h \<in> set (disp_closed f) then f
      else f\<lparr>Dispatcher_Global := None, disp_closed := h # disp_closed f\<rparr>)"

definition takeGlobal :: "Dispatcher \<Rightarrow> AsyncResp option \<times> Dispatcher" where
  "takeGlobal f = (Dispatcher_Global f, f\<lparr>Dispatcher_Global := None\<rparr>)"

definition NotifyGlobal :: "Frame \<Rightarrow> Dispatcher \<Rightarrow> (go_error option \<times> Dispatcher) option" where
  "NotifyGlobal frame f =
     (let err = NewUnexpectedErrMsg (BaseCommand_GetType (Frame_BaseCmd frame)) [] in
      case takeGlobal f of
        (None, f1) \<Rightarrow> Some (Some err, f1)
      | (Some a, f1) \<Rightarrow> resp_select a frame err f1)"

section \<open>Requests with a producer id and a sequence id\<close>

definition RegisterProdSeqIDs :: "u64 \<Rightarrow> u64 \<Rightarrow> Dispatcher \<Rightarrow> (go_error + nat) \<times> Dispatcher" where
  "RegisterProdSeqIDs producerID sequenceID f =
     (let key = \<lparr>ProdSeqKey_ProducerID = producerID, ProdSeqKey_SequenceID = sequenceID\<rparr> in
      case new_AsyncResp f of (a, f1) \<Rightarrow>
        if Dispatcher_ProdSeqIDs f1 key \<noteq> None
        then (Inl (ErrOutstandingProdSeqID producerID sequenceID), f1)
        else (Inr (AsyncResp_Resp a),
              f1\<lparr>Dispatcher_ProdSeqIDs := (Dispatcher_ProdSeqIDs f1)(key \<mapsto> a)\<rparr>))"

definition cancelProdSeqIDs :: "u64 \<Rightarrow> u64 \<Rightarrow> nat \<Rightarrow> Dispatcher \<Rightarrow> Dispatcher" where
  "cancelProdSeqIDs producerID sequenceID h f =
     (let key = \<lparr>ProdSeqKey_ProducerID = producerID, ProdSeqKey_SequenceID = sequenceID\<rparr> in
      if h \<in> set (disp_closed f) then f
      else f\<lparr>Dispatcher_ProdSeqIDs := (Dispatcher_ProdSeqIDs f)(key := None),
             disp_closed := h # disp_closed f\<rparr>)"

definition takeProdSeqIDs :: "u64 \<Rightarrow> u64 \<Rightarrow> Dispatcher \<Rightarrow> AsyncResp option \<times> Dispatcher" where
  "takeProdSeqIDs producerID sequenceID f =
     (let key = \<lparr>ProdSeqKey_ProducerID = producerID, ProdSeqKey_SequenceID = sequenceID\<rparr> in
      (Dispatcher_ProdSeqIDs f key,
       f\<lparr>Dispatcher_ProdSeqIDs := (Dispatcher_ProdSeqIDs f)(key := None)\<rparr>))"

definition NotifyProdSeqIDs ::
    "u64 \<Rightarrow> u64 \<Rightarrow> Frame \<Rightarrow> Dispatcher \<Rightarrow> (go_error option \<times> Dispatcher) option" where
  "NotifyProdSeqIDs producerID sequenceID frame f =
     (let err = NewUnexpectedErrMsg (BaseCommand_GetType (Frame_BaseCmd frame)) [producerID, sequenceID] in
      case takeProdSeqIDs producerID sequenceID f of
        (None, f1) \<Rightarrow> Some (Some err, f1)
      | (Some a, f1) \<Rightarrow> resp_select a frame err f1)"

section \<open>Requests with a request id\<close>

definition RegisterReqID :: "u64 \<Rightarrow> Dispatcher \<Rightarrow> (go_error + nat) \<times> Dispatcher" where
  "RegisterReqID requestID f =
     (case new_AsyncResp f of (a, f1) \<Rightarrow>
        if Dispatcher_ReqIDs f1 requestID \<noteq> None then (Inl (ErrOutstandingReqID requestID), f1)
        else (Inr (AsyncResp_Resp a),
              f1\<lparr>Dispatcher_ReqIDs := (Dispatcher_ReqIDs f1)(requestID \<mapsto> a)\<rparr>))"

definition cancelReqID :: "u64 \<Rightarrow> nat \<Rightarrow> Dispatcher \<Rightarrow> Dispatcher" where
  "cancelReqID requestID h f =
     (if h \<in> set (disp_closed f) then f
      else f\<lparr>Dispatcher_ReqIDs := (Dispatcher_ReqIDs f)(requestID := None),
             disp_closed := h # disp_closed f\<rparr>)"

definition takeReqID :: "u64 \<Rightarrow> Dispatcher \<Rightarrow> AsyncResp option \<times> Dispatcher" where
  "takeReqID requestID f =
     (Dispatcher_ReqIDs f requestID,
      f\<lparr>Dispatcher_ReqIDs := (Dispatcher_ReqIDs f)(requestID := None)\<rparr>)"

definition NotifyReqID :: "u64 \<Rightarrow> Frame \<Rightarrow> Dispatcher \<Rightarrow> (go_error option \<times> Dispatcher) option" where
  "NotifyReqID requestID frame f =
     (let err = NewUnexpectedErrMsg (BaseCommand_GetType (Frame_BaseCmd frame)) [requestID] in
      case takeReqID requestID f of
        (None, f1) \<Rightarrow> Some (Some err, f1)
      | (Some a, f1) \<Rightarrow> resp_select a frame err f1)"

section \<open>One key type\<close>

datatype corr_key = KGlobal | KReq u64 | KProdSeq u64 u64

fun disp_register :: "corr_key \<Rightarrow> Dispatcher \<Rightarrow> (go_error + nat) \<times> Dispatcher" where
  "disp_register KGlobal = RegisterGlobal"
| "disp_register (KReq r) = RegisterReqID r"
| "disp_register (KProdSeq p q) = RegisterProdSeqIDs p q"

fun disp_cancel :: "corr_key \<Rightarrow> nat \<Rightarrow> Dispatcher \<Rightarrow> Dispatcher" where
  "disp_cancel KGlobal = cancelGlobal"
| "disp_cancel (KReq r) = cancelReqID r"
| "disp_cancel (KProdSeq p q) = cancelProdSeqIDs p q"

fun disp_take :: "corr_key \<Rightarrow> Dispatcher \<Rightarrow> AsyncResp option \<times> Dispatcher" where
  "disp_take KGlobal = takeGlobal"
| "disp_take (KReq r) = takeReqID r"
| "disp_take (KProdSeq p q) = takeProdSeqIDs p q"

fun disp_notify :: "corr_key \<Rightarrow> Frame \<Rightarrow> Dispatcher \<Rightarrow> (go_error option \<times> Dispatcher) option" where
  "disp_notify KGlobal = NotifyGlobal"
| "disp_notify (KReq r) = NotifyReqID r"
| "disp_notify (KProdSeq p q) = NotifyProdSeqIDs p q"

fun disp_lookup :: "corr_key \<Rightarrow> Dispatcher \<Rightarrow> AsyncResp option" where
  "disp_lookup KGlobal f = Dispatcher_Global f"
| "disp_lookup (KReq r) f = Dispatcher_ReqIDs f r"
| "disp_lookup (KProdSeq p q) f =
     Dispatcher_ProdSeqIDs f \<lparr>ProdSeqKey_ProducerID = p, ProdSeqKey_SequenceID = q\<rparr>"

fun disp_ids :: "corr_key \<Rightarrow> u64 list" where
  "disp_ids KGlobal = []"
| "disp_ids (KReq r) = [r]"
| "disp_ids (KProdSeq p q) = [p, q]"

definition unexpected :: "corr_key \<Rightarrow> Frame \<Rightarrow> go_error" where
  "unexpected k frame = NewUnexpectedErrMsg (BaseCommand_GetType (Frame_BaseCmd frame)) (disp_ids k)"

lemmas disp_defs = RegisterGlobal_def cancelGlobal_def takeGlobal_def NotifyGlobal_def
  RegisterReqID_def cancelReqID_def takeReqID_def NotifyReqID_def
  RegisterProdSeqIDs_def cancelProdSeqIDs_def takeProdSeqIDs_def NotifyProdSeqIDs_def
  new_AsyncResp_def unexpected_def

section \<open>The interface of a table\<close>

text \<open>
  The channel state of a dispatcher, which the operations on a table change only by numbering a new
  handle and by closing the handle that is cancelled.
\<close>

definition disp_chans :: "Dispatcher \<Rightarrow> nat \<times> nat list \<times> nat list \<times> (nat \<times> Frame) list" where
  "disp_chans d = (disp_next d, disp_closed d, disp_waiting d, disp_got d)"

locale cubbyhole =
  fixes reg :: "'k \<Rightarrow> Dispatcher \<Rightarrow> (go_error + nat) \<times> Dispatcher"
    and cancel :: "'k \<Rightarrow> nat \<Rightarrow> Dispatcher \<Rightarrow> Dispatcher"
    and fetch :: "'k \<Rightarrow> Dispatcher \<Rightarrow> AsyncResp option \<times> Dispatcher"
    and notify :: "'k \<Rightarrow> Frame \<Rightarrow> Dispatcher \<Rightarrow> (go_error option \<times> Dispatcher) option"
    and look :: "'k \<Rightarrow> Dispatcher \<Rightarrow> AsyncResp option"
    and key :: "'k \<Rightarrow> corr_key"
  assumes reg_busy: "look k d \<noteq> None \<Longrightarrow> \<exists>e. reg k d = (Inl e, d\<lparr>disp_next := disp_next d + 1\<rparr>)"
    and reg_free: "look k d = None \<Longrightarrow> fst (reg k d) = Inr (disp_next d)"
    and reg_look: "look k d = None \<Longrightarrow>
      look k' (snd (reg k d)) =
        (if k' = k then Some \<lparr>AsyncResp_Resp = disp_next d, AsyncResp_Done = disp_next d\<rparr> else look k' d)"
    and reg_chans: "disp_chans (snd (reg k d)) =
      (disp_next d + 1, disp_closed d, disp_waiting d, disp_got d)"
    and cancel_again: "h \<in> set (disp_closed d) \<Longrightarrow> cancel k h d = d"
    and cancel_look: "h \<notin> set (disp_closed d) \<Longrightarrow>
      look k' (cancel k h d) = (if k' = k then None else look k' d)"
    and cancel_chans: "h \<notin> set (disp_closed d) \<Longrightarrow>
      disp_chans (cancel k h d) = (disp_next d, h # disp_closed d, disp_waiting d, disp_got d)"
    and fetch_fst: "fst (fetch k d) = look k d"
    and fetch_look: "look k' (snd (fetch k d)) = (if k' = k then None else look k' d)"
    and fetch_chans: "disp_chans (snd (fetch k d)) = disp_chans d"
    and notify_eq: "notify k frame d =
      (case fetch k d of
         (None, d1) \<Rightarrow> Some (Some (unexpected (key k) frame), d1)
       | (Some a, d1) \<Rightarrow> resp_select a frame (unexpected (key k) frame) d1)"
    and look_await: "look k (resp_await h d) = look k d"
    and look_deliver: "look k (resp_deliver h frame d) = look k d"
begin

lemma chans_simps:
  "disp_next (snd (reg k d)) = disp_next d + 1" "disp_closed (snd (reg k d)) = disp_closed d"
  "disp_waiting (snd (reg k d)) = disp_waiting d" "disp_got (snd (reg k d)) = disp_got d"
  "disp_next (snd (fetch k d)) = disp_next d" "disp_closed (snd (fetch k d)) = disp_closed d"
  "disp_waiting (snd (fetch k d)) = disp_waiting d" "disp_got (snd (fetch k d)) = disp_got d"
  using reg_chans [of k d] fetch_chans [of k d] by (simp_all add: disp_chans_def)

lemma cancel_chans_simps:
  "disp_next (cancel k h d) = disp_next d"
  "set (disp_closed (cancel k h d)) = insert h (set (disp_closed d))"
  "disp_waiting (cancel k h d) = disp_waiting d" "disp_got (cancel k h d) = disp_got d"
  using cancel_chans [of h d k] cancel_again [of h d k]
  by (cases "h \<in> set (disp_closed d)"; simp add: disp_chans_def insert_absorb)+

lemma notify_None:
  "look k d = None \<Longrightarrow> notify k frame d = Some (Some (unexpected (key k) frame), snd (fetch k d))"
  using fetch_fst [of k d] by (cases "fetch k d") (simp add: notify_eq)

lemma notify_Some:
  "look k d = Some a \<Longrightarrow> notify k frame d = resp_select a frame (unexpected (key k) frame) (snd (fetch k d))"
  using fetch_fst [of k d] by (cases "fetch k d") (simp add: notify_eq)

text \<open>A second registration under a key is refused until the first is answered or cancelled.\<close>

lemma reg_Inr_iff: "(\<exists>h. fst (reg k d) = Inr h) \<longleftrightarrow> look k d = None"
  using reg_busy [of k d] reg_free [of k d] by (cases "look k d") auto

text \<open>The frame reaches the goroutine that registered, and the key is free again.\<close>

lemma reg_await_notify:
  assumes "look k d = None"
  shows "\<exists>d'. notify k frame (resp_await (disp_next d) (snd (reg k d))) = Some (None, d') \<and>
    disp_got d' = (disp_next d, frame) # disp_got d \<and> look k d' = None"
proof -
  let ?d1 = "resp_await (disp_next d) (snd (reg k d))"
  have "look k ?d1 = Some \<lparr>AsyncResp_Resp = disp_next d, AsyncResp_Done = disp_next d\<rparr>"
    using reg_look [OF assms, of k] by (simp add: look_await)
  from notify_Some [OF this, of frame]
  have "notify k frame ?d1 = Some (None, resp_deliver (disp_next d) frame (snd (fetch k ?d1)))"
    by (simp add: resp_select_def chans_simps) (simp add: resp_await_def)
  then show ?thesis
    by (simp add: look_deliver fetch_look) (simp add: resp_deliver_def chans_simps, simp add: resp_await_def chans_simps)
qed

text \<open>Whatever a notification does, the key is free afterwards.\<close>

lemma notify_frees:
  assumes "notify k frame d = Some (e, d')"
  shows "look k' d' = (if k' = k then None else look k' d)"
proof (cases "look k d")
  case None
  with assms show ?thesis by (auto simp: notify_None fetch_look)
next
  case (Some a)
  with assms show ?thesis
    by (auto simp: notify_Some resp_select_def look_deliver fetch_look split: if_splits)
qed

lemma cancel_idem: "cancel k h (cancel k h d) = cancel k h d"
  by (rule cancel_again) (simp add: cancel_chans_simps)

text \<open>After a cancel the frame is reported as unexpected.\<close>

lemma cancel_notify:
  assumes "h \<notin> set (disp_closed d)"
  shows "\<exists>d'. notify k frame (cancel k h d) = Some (Some (unexpected (key k) frame), d')"
  using cancel_look [OF assms, of k k] by (simp add: notify_None)

end

interpretation glob: cubbyhole "\<lambda>_ :: unit. RegisterGlobal" "\<lambda>_. cancelGlobal" "\<lambda>_. takeGlobal"
  "\<lambda>_. NotifyGlobal" "\<lambda>_. Dispatcher_Global" "\<lambda>_. KGlobal"
  by unfold_locales (auto simp: disp_defs disp_chans_def resp_await_def resp_deliver_def Let_def split: option.split)

interpretation reqid: cubbyhole RegisterReqID cancelReqID takeReqID NotifyReqID
  "\<lambda>r d. Dispatcher_ReqIDs d r" KReq
  by unfold_locales (auto simp: disp_defs disp_chans_def resp_await_def resp_deliver_def Let_def split: option.split)

interpretation prodseq: cubbyhole "\<lambda>(p, q). RegisterProdSeqIDs p q" "\<lambda>(p, q). cancelProdSeqIDs p q"
  "\<lambda>(p, q). takeProdSeqIDs p q" "\<lambda>(p, q). NotifyProdSeqIDs p q"
  "\<lambda>(p, q). disp_lookup (KProdSeq p q)" "\<lambda>(p, q). KProdSeq p q"
  by unfold_locales (auto simp: disp_defs disp_chans_def resp_await_def resp_deliver_def Let_def split: option.split if_splits)

interpretation disp: cubbyhole disp_register disp_cancel disp_take disp_notify disp_lookup id
proof
  fix k k' :: corr_key and d h frame
  show "disp_lookup k d \<noteq> None \<Longrightarrow> \<exists>e. disp_register k d = (Inl e, d\<lparr>disp_next := disp_next d + 1\<rparr>)"
    by (cases k) (auto simp: disp_defs Let_def)
  show "disp_lookup k d = None \<Longrightarrow> fst (disp_register k d) = Inr (disp_next d)"
    by (cases k) (auto simp: disp_defs Let_def)
  show "disp_lookup k d = None \<Longrightarrow> disp_lookup k' (snd (disp_register k d)) =
      (if k' = k then Some \<lparr>AsyncResp_Resp = disp_next d, AsyncResp_Done = disp_next d\<rparr>
       else disp_lookup k' d)"
    by (cases k; cases k') (auto simp: disp_defs Let_def)
  show "disp_chans (snd (disp_register k d)) = (disp_next d + 1, disp_closed d, disp_waiting d, disp_got d)"
    by (cases k) (auto simp: disp_defs disp_chans_def Let_def)
  show "h \<in> set (disp_closed d) \<Longrightarrow> disp_cancel k h d = d"
    by (cases k) (auto simp: disp_defs Let_def)
  show "h \<notin> set (disp_closed d) \<Longrightarrow>
      disp_lookup k' (disp_cancel k h d) = (if k' = k then None else disp_lookup k' d)"
    by (cases k; cases k') (auto simp: disp_defs Let_def)
  show "h \<notin> set (disp_closed d) \<Longrightarrow>
      disp_chans (disp_cancel k h d) = (disp_next d, h # disp_closed d, disp_waiting d, disp_got d)"
    by (cases k) (auto simp: disp_defs disp_chans_def Let_def)
  show "fst (disp_take k d) = disp_lookup k d" by (cases k) (auto simp: disp_defs Let_def)
  show "disp_lookup k' (snd (disp_take k d)) = (if k' = k then None else disp_lookup k' d)"
    by (cases k; cases k') (auto simp: disp_defs Let_def)
  show "disp_chans (snd (disp_take k d)) = disp_chans d"
    by (cases k) (auto simp: disp_defs disp_chans_def Let_def)
  show "disp_notify k frame d = (case disp_take k d of
         (None, d1) \<Rightarrow> Some (Some (unexpected (id k) frame), d1)
       | (Some a, d1) \<Rightarrow> resp_select a frame (unexpected (id k) frame) d1)"
    by (cases k) (auto simp: disp_defs Let_def split: option.split)
  show "disp_lookup k (resp_await h d) = disp_lookup k d" "disp_lookup k (resp_deliver h frame d) = disp_lookup k d"
    by (cases k; simp add: resp_await_def resp_deliver_def)+
qed

section \<open>Requesters and notifiers\<close>

text \<open>
  Any number of goroutines use one dispatcher. A requester registers, waits in its \<open>select\<close>, and
  leaves it with a frame or for another reason; then it cancels. A notifier takes the entry of its
  key and holds it until it has delivered its frame or found the request abandoned. The ghost fields
  record the registrations, every frame a notifier took an entry for, and the frames that were
  dropped because the request had been abandoned.
\<close>

record notifier =
  nf_key :: corr_key
  nf_frame :: Frame
  nf_resp :: AsyncResp

record dstate =
  ds_d :: Dispatcher
  ds_notifiers :: "notifier list"
  ds_regs :: "(corr_key \<times> nat) list"
  ds_taken :: "(corr_key \<times> Frame) list"
  ds_dropped :: "Frame list"

definition dstate_init :: dstate where
  "dstate_init = \<lparr>ds_d = NewFrameDispatcher, ds_notifiers = [], ds_regs = [], ds_taken = [], ds_dropped = []\<rparr>"

abbreviation ds_handles :: "dstate \<Rightarrow> nat set" where
  "ds_handles s \<equiv> snd ` set (ds_regs s)"

inductive dstep :: "dstate \<Rightarrow> dstate \<Rightarrow> bool" where
  register:
    "disp_register k (ds_d s) = (Inr h, d') \<Longrightarrow>
     dstep s (s\<lparr>ds_d := d', ds_regs := (k, h) # ds_regs s\<rparr>)"
| register_busy:
    "disp_register k (ds_d s) = (Inl e, d') \<Longrightarrow> dstep s (s\<lparr>ds_d := d'\<rparr>)"
| await:
    "h \<in> ds_handles s \<Longrightarrow> h \<notin> set (disp_closed (ds_d s)) \<Longrightarrow> h \<notin> set (disp_waiting (ds_d s)) \<Longrightarrow>
     h \<notin> fst ` set (disp_got (ds_d s)) \<Longrightarrow> dstep s (s\<lparr>ds_d := resp_await h (ds_d s)\<rparr>)"
| leave:
    "h \<in> set (disp_waiting (ds_d s)) \<Longrightarrow> dstep s (s\<lparr>ds_d := resp_leave h (ds_d s)\<rparr>)"
| cancel:
    "(k, h) \<in> set (ds_regs s) \<Longrightarrow> h \<notin> set (disp_waiting (ds_d s)) \<Longrightarrow>
     dstep s (s\<lparr>ds_d := disp_cancel k h (ds_d s)\<rparr>)"
| take_none:
    "disp_take k (ds_d s) = (None, d') \<Longrightarrow> dstep s (s\<lparr>ds_d := d'\<rparr>)"
| take_some:
    "disp_take k (ds_d s) = (Some a, d') \<Longrightarrow>
     dstep s (s\<lparr>ds_d := d', ds_taken := (k, frame) # ds_taken s,
       ds_notifiers := \<lparr>nf_key = k, nf_frame = frame, nf_resp = a\<rparr> # ds_notifiers s\<rparr>)"
| deliver:
    "n \<in> set (ds_notifiers s) \<Longrightarrow>
     resp_select (nf_resp n) (nf_frame n) (unexpected (nf_key n) (nf_frame n)) (ds_d s) = Some (None, d') \<Longrightarrow>
     dstep s (s\<lparr>ds_d := d', ds_notifiers := remove1 n (ds_notifiers s)\<rparr>)"
| abandoned:
    "n \<in> set (ds_notifiers s) \<Longrightarrow>
     resp_select (nf_resp n) (nf_frame n) (unexpected (nf_key n) (nf_frame n)) (ds_d s) = Some (Some e, d') \<Longrightarrow>
     dstep s (s\<lparr>ds_d := d', ds_notifiers := remove1 n (ds_notifiers s),
       ds_dropped := nf_frame n # ds_dropped s\<rparr>)"

inductive dreach :: "dstate \<Rightarrow> bool" where
  init: "dreach dstate_init"
| step: "dreach s \<Longrightarrow> dstep s s' \<Longrightarrow> dreach s'"

section \<open>Invariants\<close>

abbreviation nf_handle :: "notifier \<Rightarrow> nat" where
  "nf_handle n \<equiv> AsyncResp_Resp (nf_resp n)"

text \<open>
  Handles are numbered apart; a requester that waits has not cancelled and has no frame yet; an
  entry in a table, and one held by a notifier, belongs to a registration under that key which has
  no frame yet, and no two of them belong to the same registration; a closed handle is in no table.
\<close>

definition regs_inv :: "dstate \<Rightarrow> bool" where
  "regs_inv s \<longleftrightarrow>
     distinct (map snd (ds_regs s)) \<and> (\<forall>h \<in> ds_handles s. h < disp_next (ds_d s)) \<and>
     set (disp_closed (ds_d s)) \<subseteq> ds_handles s \<and>
     set (disp_waiting (ds_d s)) \<subseteq> ds_handles s - set (disp_closed (ds_d s)) - fst ` set (disp_got (ds_d s)) \<and>
     distinct (disp_waiting (ds_d s))"

definition table_inv :: "dstate \<Rightarrow> bool" where
  "table_inv s \<longleftrightarrow>
     (\<forall>k a. disp_lookup k (ds_d s) = Some a \<longrightarrow>
        AsyncResp_Done a = AsyncResp_Resp a \<and> (k, AsyncResp_Resp a) \<in> set (ds_regs s) \<and>
        AsyncResp_Resp a \<notin> set (disp_closed (ds_d s)) \<and>
        AsyncResp_Resp a \<notin> fst ` set (disp_got (ds_d s)) \<and>
        AsyncResp_Resp a \<notin> nf_handle ` set (ds_notifiers s))"

definition notifiers_inv :: "dstate \<Rightarrow> bool" where
  "notifiers_inv s \<longleftrightarrow>
     distinct (map nf_handle (ds_notifiers s)) \<and>
     (\<forall>n \<in> set (ds_notifiers s).
        AsyncResp_Done (nf_resp n) = nf_handle n \<and> (nf_key n, nf_handle n) \<in> set (ds_regs s) \<and>
        nf_handle n \<notin> fst ` set (disp_got (ds_d s)) \<and>
        (nf_key n, nf_frame n) \<in> set (ds_taken s))"

definition got_inv :: "dstate \<Rightarrow> bool" where
  "got_inv s \<longleftrightarrow>
     distinct (map fst (disp_got (ds_d s))) \<and>
     (\<forall>h frame. (h, frame) \<in> set (disp_got (ds_d s)) \<longrightarrow>
        (\<exists>k. (k, h) \<in> set (ds_regs s) \<and> (k, frame) \<in> set (ds_taken s))) \<and>
     mset (map nf_frame (ds_notifiers s)) + mset (map snd (disp_got (ds_d s))) + mset (ds_dropped s) =
       mset (map snd (ds_taken s))"

text \<open>
  A requester that waits under a key that was registered only once still has its entry in the
  table, or a notifier holds it.
\<close>

definition sole :: "dstate \<Rightarrow> corr_key \<Rightarrow> nat \<Rightarrow> bool" where
  "sole s k h \<longleftrightarrow> (k, h) \<in> set (ds_regs s) \<and> (\<forall>h'. (k, h') \<in> set (ds_regs s) \<longrightarrow> h' = h)"

definition open_req :: "dstate \<Rightarrow> nat \<Rightarrow> bool" where
  "open_req s h \<longleftrightarrow> h \<notin> set (disp_closed (ds_d s)) \<and> h \<notin> fst ` set (disp_got (ds_d s))"

definition served :: "dstate \<Rightarrow> corr_key \<Rightarrow> nat \<Rightarrow> bool" where
  "served s k h \<longleftrightarrow>
     disp_lookup k (ds_d s) = Some \<lparr>AsyncResp_Resp = h, AsyncResp_Done = h\<rparr> \<or>
     h \<in> nf_handle ` set (ds_notifiers s)"

definition served_inv :: "dstate \<Rightarrow> bool" where
  "served_inv s \<longleftrightarrow> (\<forall>k h. sole s k h \<longrightarrow> open_req s h \<longrightarrow> served s k h)"

definition dinv :: "dstate \<Rightarrow> bool" where
  "dinv s \<longleftrightarrow> regs_inv s \<and> table_inv s \<and> notifiers_inv s \<and> got_inv s \<and> served_inv s"

lemmas dinv_defs = dinv_def regs_inv_def table_inv_def notifiers_inv_def got_inv_def
  served_inv_def sole_def open_req_def served_def

lemma disp_register_Inr:
  assumes "disp_register k d = (Inr h, d')"
  shows "h = disp_next d" "disp_lookup k d = None"
    "disp_next d' = disp_next d + 1" "disp_closed d' = disp_closed d"
    "disp_waiting d' = disp_waiting d" "disp_got d' = disp_got d"
    "disp_lookup k' d' = (if k' = k then Some \<lparr>AsyncResp_Resp = h, AsyncResp_Done = h\<rparr> else disp_lookup k' d)"
proof -
  from assms show free: "disp_lookup k d = None"
    using disp.reg_Inr_iff [of k d] by auto
  with assms show "h = disp_next d" using disp.reg_free [OF free] by simp
  then show "disp_lookup k' d' =
      (if k' = k then Some \<lparr>AsyncResp_Resp = h, AsyncResp_Done = h\<rparr> else disp_lookup k' d)"
    using disp.reg_look [OF free, of k'] assms by simp
  show "disp_next d' = disp_next d + 1" "disp_closed d' = disp_closed d"
    "disp_waiting d' = disp_waiting d" "disp_got d' = disp_got d"
    using disp.chans_simps(1-4) [of k d] assms by simp_all
qed

lemma disp_register_Inl:
  assumes "disp_register k d = (Inl e, d')"
  shows "d' = d\<lparr>disp_next := disp_next d + 1\<rparr>"
  using assms disp.reg_busy [of k d] disp.reg_free [of k d] by (cases "disp_lookup k d") auto

lemma disp_lookup_next [simp]: "disp_lookup k (d\<lparr>disp_next := n\<rparr>) = disp_lookup k d"
  by (cases k) simp_all

lemma disp_lookup_leave [simp]: "disp_lookup k (resp_leave h d) = disp_lookup k d"
  by (cases k) (simp_all add: resp_leave_def)

lemma disp_take_facts:
  assumes "disp_take k d = (r, d')"
  shows "r = disp_lookup k d"
    "disp_next d' = disp_next d" "disp_closed d' = disp_closed d"
    "disp_waiting d' = disp_waiting d" "disp_got d' = disp_got d"
    "disp_lookup k' d' = (if k' = k then None else disp_lookup k' d)"
  using assms disp.fetch_fst [of k d] disp.chans_simps(5-8) [of k d] disp.fetch_look [of k' k d]
  by simp_all

lemma disp_cancel_lookup:
  "disp_lookup k' (disp_cancel k h d) =
     (if k' = k \<and> h \<notin> set (disp_closed d) then None else disp_lookup k' d)"
  using disp.cancel_look [of h d k' k] disp.cancel_again [of h d k]
  by (cases "h \<in> set (disp_closed d)") simp_all

lemma resp_select_facts:
  assumes "resp_select a frame err d = Some (e, d')"
  shows "(e = None \<and> AsyncResp_Resp a \<in> set (disp_waiting d) \<and> d' = resp_deliver (AsyncResp_Resp a) frame d) \<or>
    (e = Some err \<and> AsyncResp_Done a \<in> set (disp_closed d) \<and> d' = d)"
  using assms by (auto simp: resp_select_def split: if_splits)

lemma resp_chans [simp]:
  "disp_next (resp_await h d) = disp_next d" "disp_closed (resp_await h d) = disp_closed d"
  "disp_waiting (resp_await h d) = h # disp_waiting d" "disp_got (resp_await h d) = disp_got d"
  "disp_next (resp_leave h d) = disp_next d" "disp_closed (resp_leave h d) = disp_closed d"
  "disp_waiting (resp_leave h d) = removeAll h (disp_waiting d)" "disp_got (resp_leave h d) = disp_got d"
  "disp_next (resp_deliver h frame d) = disp_next d" "disp_closed (resp_deliver h frame d) = disp_closed d"
  "disp_waiting (resp_deliver h frame d) = remove1 h (disp_waiting d)"
  "disp_got (resp_deliver h frame d) = (h, frame) # disp_got d"
  by (simp_all add: resp_await_def resp_leave_def resp_deliver_def)

lemmas disp_step_facts = disp.cancel_chans_simps disp_cancel_lookup disp.look_await disp.look_deliver

lemma dinv_init: "dinv dstate_init"
proof -
  have "disp_lookup k NewFrameDispatcher = None" for k by (cases k) (simp_all add: NewFrameDispatcher_def)
  then show ?thesis by (simp add: dinv_defs dstate_init_def) (simp add: NewFrameDispatcher_def)
qed

lemma regs_inv_inj:
  assumes "regs_inv s" "(k, h) \<in> set (ds_regs s)" "(k', h) \<in> set (ds_regs s)"
  shows "k' = k"
proof -
  have "inj_on snd (set (ds_regs s))" using assms(1) by (simp add: regs_inv_def distinct_map)
  from inj_onD [OF this _ assms(3,2)] show ?thesis by simp
qed

lemma regs_inv_fresh:
  assumes "dinv s"
  shows "disp_next (ds_d s) \<notin> ds_handles s" "disp_next (ds_d s) \<notin> set (disp_closed (ds_d s))"
    "disp_next (ds_d s) \<notin> fst ` set (disp_got (ds_d s))"
    "disp_next (ds_d s) \<notin> nf_handle ` set (ds_notifiers s)"
proof -
  show new: "disp_next (ds_d s) \<notin> ds_handles s"
    using assms unfolding dinv_def regs_inv_def by blast
  have "set (disp_closed (ds_d s)) \<subseteq> ds_handles s" using assms by (simp add: dinv_def regs_inv_def)
  with new show "disp_next (ds_d s) \<notin> set (disp_closed (ds_d s))" by blast
  have in_regs: "(k, h) \<in> set (ds_regs s) \<Longrightarrow> h \<in> ds_handles s" for k h by force
  have "fst ` set (disp_got (ds_d s)) \<subseteq> ds_handles s"
    using assms in_regs by (fastforce simp: dinv_def got_inv_def)
  with new show "disp_next (ds_d s) \<notin> fst ` set (disp_got (ds_d s))" by blast
  have "nf_handle ` set (ds_notifiers s) \<subseteq> ds_handles s"
    using assms in_regs by (auto simp: dinv_def notifiers_inv_def)
  with new show "disp_next (ds_d s) \<notin> nf_handle ` set (ds_notifiers s)" by blast
qed

lemma served_inv_mono:
  assumes "served_inv s" "ds_regs s' = ds_regs s" "\<And>h. open_req s' h \<Longrightarrow> open_req s h"
    and "\<And>k h. open_req s' h \<Longrightarrow> sole s k h \<Longrightarrow> served s k h \<Longrightarrow> served s' k h"
  shows "served_inv s'"
  using assms unfolding served_inv_def sole_def by simp

lemma dinv_register:
  assumes "disp_register k (ds_d s) = (Inr h, d')" "dinv s"
  shows "dinv (s\<lparr>ds_d := d', ds_regs := (k, h) # ds_regs s\<rparr>)" (is "dinv ?s")
  unfolding dinv_def
proof (intro conjI)
  note r = disp_register_Inr [OF assms(1)]
  note new = regs_inv_fresh [OF assms(2), folded r(1)]
  note inv = assms(2) [unfolded dinv_def]
  show "regs_inv ?s"
    using inv new r by (auto simp: regs_inv_def less_Suc_eq)
  show "table_inv ?s"
    using inv new r by (simp add: table_inv_def)
  show "notifiers_inv ?s" using inv r by (simp add: notifiers_inv_def)
  show "got_inv ?s"
    using inv r(3-6) unfolding got_inv_def by (simp; blast)
  show "served_inv ?s"
    unfolding served_inv_def
  proof (intro allI impI)
    fix k' h'
    assume sole: "sole ?s k' h'" and op: "open_req ?s h'"
    show "served ?s k' h'"
    proof (cases "k' = k")
      case True
      with sole have "h' = h" by (simp add: sole_def)
      with True show ?thesis by (simp add: served_def r(7))
    next
      case False
      with sole have "sole s k' h'" by (simp add: sole_def)
      moreover have "open_req s h'" using op by (simp add: open_req_def r)
      ultimately have "served s k' h'" using inv by (simp add: served_inv_def)
      with False show ?thesis by (simp add: served_def r(7))
    qed
  qed
qed

lemma dinv_cancel:
  assumes "(k, h) \<in> set (ds_regs s)" "h \<notin> set (disp_waiting (ds_d s))" "dinv s"
  shows "dinv (s\<lparr>ds_d := disp_cancel k h (ds_d s)\<rparr>)" (is "dinv ?s")
  unfolding dinv_def
proof (intro conjI)
  note inv = assms(3) [unfolded dinv_def]
  show "regs_inv ?s"
    using assms(2) inv rev_image_eqI [OF assms(1), of h snd] by (auto simp: regs_inv_def disp_step_facts)
  have inj: "(k', h) \<in> set (ds_regs s) \<Longrightarrow> k' = k" for k'
    using assms(1) inv by (auto dest: regs_inv_inj)
  show "table_inv ?s"
    unfolding table_inv_def
  proof (intro allI impI)
    fix k' a
    assume "disp_lookup k' (ds_d ?s) = Some a"
    then have "disp_lookup k' (ds_d s) = Some a" and op: "k' = k \<Longrightarrow> h \<in> set (disp_closed (ds_d s))"
      by (auto simp: disp_cancel_lookup split: if_splits)
    with inv have t: "AsyncResp_Done a = AsyncResp_Resp a \<and> (k', AsyncResp_Resp a) \<in> set (ds_regs s) \<and>
        AsyncResp_Resp a \<notin> set (disp_closed (ds_d s)) \<and> AsyncResp_Resp a \<notin> fst ` set (disp_got (ds_d s)) \<and>
        AsyncResp_Resp a \<notin> nf_handle ` set (ds_notifiers s)"
      by (simp add: table_inv_def)
    then have "AsyncResp_Resp a \<noteq> h" using inj op by metis
    with t show "AsyncResp_Done a = AsyncResp_Resp a \<and> (k', AsyncResp_Resp a) \<in> set (ds_regs ?s) \<and>
        AsyncResp_Resp a \<notin> set (disp_closed (ds_d ?s)) \<and> AsyncResp_Resp a \<notin> fst ` set (disp_got (ds_d ?s)) \<and>
        AsyncResp_Resp a \<notin> nf_handle ` set (ds_notifiers ?s)"
      by (simp add: disp_step_facts)
  qed
  show "notifiers_inv ?s" "got_inv ?s"
    using inv by (simp_all add: notifiers_inv_def got_inv_def disp_step_facts)
  show "served_inv ?s"
  proof (rule served_inv_mono)
    fix k' h'
    assume "open_req ?s h'" "sole s k' h'" "served s k' h'"
    moreover from this have "h' \<noteq> h" by (auto simp: open_req_def disp_step_facts)
    ultimately show "served ?s k' h'" using assms(1) by (auto simp: served_def sole_def disp_step_facts)
  qed (use inv in \<open>auto simp: open_req_def disp_step_facts\<close>)
qed

lemma dinv_take_some:
  assumes "disp_take k (ds_d s) = (Some a, d')" "dinv s"
  shows "dinv (s\<lparr>ds_d := d', ds_taken := (k, frame) # ds_taken s,
       ds_notifiers := \<lparr>nf_key = k, nf_frame = frame, nf_resp = a\<rparr> # ds_notifiers s\<rparr>)" (is "dinv ?s")
  unfolding dinv_def
proof (intro conjI)
  note t = disp_take_facts [OF assms(1)] and inv = assms(2) [unfolded dinv_def]
  have a: "AsyncResp_Done a = AsyncResp_Resp a" "(k, AsyncResp_Resp a) \<in> set (ds_regs s)"
    "AsyncResp_Resp a \<notin> fst ` set (disp_got (ds_d s))" "AsyncResp_Resp a \<notin> nf_handle ` set (ds_notifiers s)"
    using inv t(1) by (auto simp: table_inv_def)
  have inj: "(k', AsyncResp_Resp a) \<in> set (ds_regs s) \<Longrightarrow> k' = k" for k'
    using a(2) inv by (auto dest: regs_inv_inj)
  show "regs_inv ?s" using inv t by (simp add: regs_inv_def)
  show "table_inv ?s" using inv t inj unfolding table_inv_def by (simp; metis)
  show "notifiers_inv ?s" using inv t a by (simp add: notifiers_inv_def)
  show "got_inv ?s" using inv t unfolding got_inv_def by (simp; blast)
  show "served_inv ?s"
    by (rule served_inv_mono [of s]) (use inv t in \<open>auto simp: open_req_def served_def\<close>)
qed

lemma notifier_unique:
  assumes "notifiers_inv s" "n \<in> set (ds_notifiers s)"
  shows "set (remove1 n (ds_notifiers s)) = {m \<in> set (ds_notifiers s). nf_handle m \<noteq> nf_handle n}"
    "distinct (map nf_handle (remove1 n (ds_notifiers s)))"
    "mset (map nf_frame (ds_notifiers s)) = add_mset (nf_frame n) (mset (map nf_frame (remove1 n (ds_notifiers s))))"
proof -
  have d: "distinct (map nf_handle (ds_notifiers s))" using assms(1) by (simp add: notifiers_inv_def)
  then show "set (remove1 n (ds_notifiers s)) = {m \<in> set (ds_notifiers s). nf_handle m \<noteq> nf_handle n}"
    using assms(2) by (auto simp: distinct_map inj_on_def set_remove1_eq)
  show "distinct (map nf_handle (remove1 n (ds_notifiers s)))"
    using d by (auto simp: distinct_map intro: inj_on_subset dest: notin_set_remove1)
  show "mset (map nf_frame (ds_notifiers s)) = add_mset (nf_frame n) (mset (map nf_frame (remove1 n (ds_notifiers s))))"
    using assms(2) by (metis image_mset_add_mset insert_DiffM mset_map mset_remove1 set_mset_mset)
qed

lemma dinv_deliver:
  assumes "n \<in> set (ds_notifiers s)" "nf_handle n \<in> set (disp_waiting (ds_d s))" "dinv s"
  shows "dinv (s\<lparr>ds_d := resp_deliver (nf_handle n) (nf_frame n) (ds_d s),
    ds_notifiers := remove1 n (ds_notifiers s)\<rparr>)" (is "dinv ?s")
  unfolding dinv_def
proof (intro conjI)
  note inv = assms(3) [unfolded dinv_def]
  note uniq = notifier_unique [OF _ assms(1)]
  have n: "(nf_key n, nf_handle n) \<in> set (ds_regs s)" "nf_handle n \<notin> fst ` set (disp_got (ds_d s))"
    "(nf_key n, nf_frame n) \<in> set (ds_taken s)"
    using inv assms(1) by (auto simp: notifiers_inv_def)
  show "regs_inv ?s"
    using inv assms(2) n(1) by (auto simp: regs_inv_def)
  have nt: "disp_lookup k (ds_d s) = Some a \<Longrightarrow> AsyncResp_Resp a \<noteq> nf_handle n" for k a
    using inv assms(1) by (auto simp: table_inv_def)
  show "table_inv ?s"
    using inv nt uniq(1) unfolding table_inv_def by (simp add: disp_step_facts) blast
  show "notifiers_inv ?s"
    using inv uniq(1,2) by (simp add: notifiers_inv_def)
  show "got_inv ?s"
    unfolding got_inv_def
  proof (intro conjI allI impI)
    fix h frame
    assume "(h, frame) \<in> set (disp_got (ds_d ?s))"
    then show "\<exists>k. (k, h) \<in> set (ds_regs ?s) \<and> (k, frame) \<in> set (ds_taken ?s)"
      using inv n(1,3) by (auto simp: got_inv_def)
  qed (use inv n(2) uniq(3) in \<open>simp_all add: got_inv_def\<close>)
  show "served_inv ?s"
    by (rule served_inv_mono [of s])
      (use inv uniq(1) in \<open>auto simp: open_req_def served_def disp_step_facts\<close>)
qed

lemma dinv_abandoned:
  assumes "n \<in> set (ds_notifiers s)" "nf_handle n \<in> set (disp_closed (ds_d s))" "dinv s"
  shows "dinv (s\<lparr>ds_notifiers := remove1 n (ds_notifiers s), ds_dropped := nf_frame n # ds_dropped s\<rparr>)"
    (is "dinv ?s")
  unfolding dinv_def
proof (intro conjI)
  note inv = assms(3) [unfolded dinv_def]
  note uniq = notifier_unique [OF _ assms(1)]
  show "regs_inv ?s" using inv by (simp add: regs_inv_def)
  show "table_inv ?s" using inv uniq(1) unfolding table_inv_def by simp blast
  show "notifiers_inv ?s" using inv uniq(1,2) by (simp add: notifiers_inv_def)
  show "got_inv ?s" using inv uniq(3) by (simp add: got_inv_def)
  show "served_inv ?s"
    by (rule served_inv_mono [of s])
      (use inv uniq(1) assms(2) in \<open>auto simp: open_req_def served_def\<close>)
qed

lemma dinv_same_table:
  assumes "dinv s" "\<And>k. disp_lookup k d' = disp_lookup k (ds_d s)"
    and "disp_next (ds_d s) \<le> disp_next d'" "disp_closed d' = disp_closed (ds_d s)" "disp_got d' = disp_got (ds_d s)"
    and "distinct (disp_waiting d')"
    and "set (disp_waiting d') \<subseteq> ds_handles s - set (disp_closed (ds_d s)) - fst ` set (disp_got (ds_d s))"
  shows "dinv (s\<lparr>ds_d := d'\<rparr>)" (is "dinv ?s")
  unfolding dinv_def
proof (intro conjI)
  note inv = assms(1) [unfolded dinv_def]
  show "regs_inv ?s" using inv assms(3-7) by (auto simp: regs_inv_def)
  show "table_inv ?s" "notifiers_inv ?s" "got_inv ?s"
    using inv assms(2,4,5) by (simp_all add: table_inv_def notifiers_inv_def got_inv_def)
  show "served_inv ?s"
    by (rule served_inv_mono [of s]) (use inv assms in \<open>simp_all add: open_req_def served_def\<close>)
qed

lemma dinv_step:
  assumes "dstep s s'" "dinv s"
  shows "dinv s'"
proof -
  have w: "distinct (disp_waiting (ds_d s))"
    "set (disp_waiting (ds_d s)) \<subseteq> ds_handles s - set (disp_closed (ds_d s)) - fst ` set (disp_got (ds_d s))"
    using assms(2) by (simp_all add: dinv_def regs_inv_def)
  from assms(1) show ?thesis
  proof cases
    case (register k h d')
    with assms(2) show ?thesis by (simp add: dinv_register)
  next
    case (register_busy k e d')
    show ?thesis
      unfolding register_busy(1) disp_register_Inl [OF register_busy(2)]
      by (rule dinv_same_table [OF assms(2)]) (use w in simp_all)
  next
    case (await h)
    show ?thesis
      unfolding await(1)
      by (rule dinv_same_table [OF assms(2)]) (use w await in \<open>simp_all add: disp_step_facts\<close>)
  next
    case (leave h)
    show ?thesis
      unfolding leave(1)
      by (rule dinv_same_table [OF assms(2)]) (use w distinct_removeAll in auto)
  next
    case (cancel k h)
    with assms(2) show ?thesis by (simp add: dinv_cancel)
  next
    case (take_none k d')
    have "disp_lookup k' d' = disp_lookup k' (ds_d s)" for k'
      using disp_take_facts(1) [OF take_none(2)] disp_take_facts(6) [OF take_none(2), of k'] by simp
    then show ?thesis
      unfolding take_none(1) using w disp_take_facts(2-5) [OF take_none(2)]
      by (intro dinv_same_table [OF assms(2)]) simp_all
  next
    case (take_some k a d' frame)
    with assms(2) show ?thesis by (simp add: dinv_take_some)
  next
    case (deliver n d')
    then have "nf_handle n \<in> set (disp_waiting (ds_d s))"
      "d' = resp_deliver (nf_handle n) (nf_frame n) (ds_d s)"
      using resp_select_facts [OF deliver(3)] by auto
    with deliver(1,2) assms(2) show ?thesis by (simp add: dinv_deliver)
  next
    case (abandoned n e d')
    have "AsyncResp_Done (nf_resp n) = nf_handle n"
      using assms(2) abandoned(2) by (simp add: dinv_def notifiers_inv_def)
    then have "nf_handle n \<in> set (disp_closed (ds_d s))" "d' = ds_d s"
      using resp_select_facts [OF abandoned(3)] by auto
    with abandoned(1,2) assms(2) show ?thesis
      using dinv_abandoned [OF abandoned(2)] by simp
  qed
qed

lemma dreach_inv: "dreach s \<Longrightarrow> dinv s"
  by (induction rule: dreach.induct) (auto intro: dinv_init dinv_step)

lemma dreach_step: "dstep s s' \<Longrightarrow> dreach s \<Longrightarrow> dreach s'"
  by (rule dreach.step)

section \<open>A run\<close>

text \<open>
  The run of the witnesses: a requester registers under a key, waits, and its frame is taken out
  of the table by a notifier (\<open>run_taken\<close>), then delivered (\<open>run_delivered\<close>).
\<close>

abbreviation ar :: "nat \<Rightarrow> AsyncResp" where
  "ar h \<equiv> \<lparr>AsyncResp_Resp = h, AsyncResp_Done = h\<rparr>"

definition run_waiting :: dstate where
  "run_waiting = dstate_init\<lparr>ds_d := NewFrameDispatcher\<lparr>Dispatcher_Global := Some (ar 0), disp_next := 1,
     disp_waiting := [0]\<rparr>, ds_regs := [(KGlobal, 0)]\<rparr>"

definition run_taken :: dstate where
  "run_taken = run_waiting\<lparr>ds_d := (ds_d run_waiting)\<lparr>Dispatcher_Global := None\<rparr>,
     ds_taken := [(KGlobal, demo_frame [])],
     ds_notifiers := [\<lparr>nf_key = KGlobal, nf_frame = demo_frame [], nf_resp = ar 0\<rparr>]\<rparr>"

definition run_delivered :: dstate where
  "run_delivered = run_taken\<lparr>ds_d := (ds_d run_taken)\<lparr>disp_waiting := [], disp_got := [(0, demo_frame [])]\<rparr>,
     ds_notifiers := []\<rparr>"

lemmas run_defs = run_waiting_def run_taken_def run_delivered_def dstate_init_def NewFrameDispatcher_def

lemma run_waiting_reach: "dreach run_waiting"
proof -
  have "dstep dstate_init (run_waiting\<lparr>ds_d := (ds_d run_waiting)\<lparr>disp_waiting := []\<rparr>\<rparr>)"
    using dstep.register [of KGlobal dstate_init 0 "(ds_d run_waiting)\<lparr>disp_waiting := []\<rparr>"]
    by (simp add: run_defs disp_defs)
  from dreach.step [OF dreach.init this]
  have "dreach (run_waiting\<lparr>ds_d := (ds_d run_waiting)\<lparr>disp_waiting := []\<rparr>\<rparr>)" .
  moreover have "dstep (run_waiting\<lparr>ds_d := (ds_d run_waiting)\<lparr>disp_waiting := []\<rparr>\<rparr>) run_waiting"
    using dstep.await [of 0 "run_waiting\<lparr>ds_d := (ds_d run_waiting)\<lparr>disp_waiting := []\<rparr>\<rparr>"]
    by (simp add: run_defs resp_await_def)
  ultimately show ?thesis by (rule dreach.step)
qed

lemma run_taken_reach: "dreach run_taken"
proof (rule dreach.step [OF run_waiting_reach])
  show "dstep run_waiting run_taken"
    using dstep.take_some [of KGlobal run_waiting "ar 0" "ds_d run_taken" "demo_frame []"]
    by (simp add: run_defs disp_defs)
qed

lemma run_delivered_reach: "dreach run_delivered"
proof (rule dreach.step [OF run_taken_reach])
  show "dstep run_taken run_delivered"
    using dstep.deliver [of "\<lparr>nf_key = KGlobal, nf_frame = demo_frame [], nf_resp = ar 0\<rparr>" run_taken
        "ds_d run_delivered"]
    by (simp add: run_defs resp_select_def resp_deliver_def)
qed

section \<open>Properties\<close>

text \<open>
  C2. In every interleaving of requesters and notifiers, a frame a requester received was notified
  under the key that requester registered; a requester receives at most one frame; and each frame
  for which a notifier took an entry is in exactly one place: held by the notifier, received by one
  requester, or dropped because its request was cancelled.
\<close>

theorem dispatch_correlated:
  assumes "dreach s"
  shows "(\<forall>h frame. (h, frame) \<in> set (disp_got (ds_d s)) \<longrightarrow>
      (\<exists>k. (k, h) \<in> set (ds_regs s) \<and> (k, frame) \<in> set (ds_taken s))) \<and>
    distinct (map fst (disp_got (ds_d s))) \<and>
    mset (map snd (ds_taken s)) =
      mset (map nf_frame (ds_notifiers s)) + mset (map snd (disp_got (ds_d s))) + mset (ds_dropped s)"
  using dreach_inv [OF assms] by (simp_all add: dinv_def got_inv_def)

theorem dispatch_correlated_witness:
  "\<exists>k. (k, 0) \<in> set (ds_regs run_delivered) \<and> (k, demo_frame []) \<in> set (ds_taken run_delivered)"
  using dispatch_correlated [OF run_delivered_reach] by (simp add: run_defs)

text \<open>
  C25. No notifier is stuck: a notifier that holds an entry can complete at once, or can as soon as
  the requester runs its \<open>cancel\<close>, which it is free to do.
\<close>

theorem notifier_not_stuck:
  assumes "dreach s" "n \<in> set (ds_notifiers s)"
  shows "(\<exists>r. resp_select (nf_resp n) (nf_frame n) err (ds_d s) = Some r) \<or>
    (\<exists>s'. s' = s\<lparr>ds_d := disp_cancel (nf_key n) (AsyncResp_Resp (nf_resp n)) (ds_d s)\<rparr> \<and> dstep s s' \<and>
       resp_select (nf_resp n) (nf_frame n) err (ds_d s') = Some (Some err, ds_d s'))"
proof -
  have n: "AsyncResp_Done (nf_resp n) = nf_handle n" "(nf_key n, nf_handle n) \<in> set (ds_regs s)"
    using dreach_inv [OF assms(1)] assms(2) by (simp_all add: dinv_def notifiers_inv_def)
  show ?thesis
  proof (cases "nf_handle n \<in> set (disp_waiting (ds_d s))")
    case True
    then show ?thesis by (simp add: resp_select_def)
  next
    case False
    from dstep.cancel [OF n(2) False] n(1) False show ?thesis
      by (simp add: resp_select_def disp.cancel_chans_simps)
  qed
qed

theorem notifier_not_stuck_witness:
  "(\<exists>r. resp_select (ar 0) (demo_frame []) EOF (ds_d run_taken) = Some r) \<or>
    (\<exists>s'. s' = run_taken\<lparr>ds_d := disp_cancel KGlobal 0 (ds_d run_taken)\<rparr> \<and> dstep run_taken s' \<and>
       resp_select (ar 0) (demo_frame []) EOF (ds_d s') = Some (Some EOF, ds_d s'))"
  using notifier_not_stuck [OF run_taken_reach,
      of "\<lparr>nf_key = KGlobal, nf_frame = demo_frame [], nf_resp = ar 0\<rparr>" EOF]
  by (simp add: run_defs)

text \<open>
  C24. Under a key that is used once, as request ids and sequence ids are, a waiting requester is
  never lost, whatever the others do: the next frame notified under its key is handed to it, unless a
  notifier already holds its entry, and then that notifier's frame is.
\<close>

theorem waiting_requester_served:
  assumes "dreach s" "(k, h) \<in> set (ds_regs s)" "\<forall>h'. (k, h') \<in> set (ds_regs s) \<longrightarrow> h' = h"
    and "h \<in> set (disp_waiting (ds_d s))"
  shows "(\<exists>d'. disp_notify k frame (ds_d s) = Some (None, d') \<and> (h, frame) \<in> set (disp_got d')) \<or>
    (\<exists>n d'. n \<in> set (ds_notifiers s) \<and>
       resp_select (nf_resp n) (nf_frame n) err (ds_d s) = Some (None, d') \<and> (h, nf_frame n) \<in> set (disp_got d'))"
proof -
  have inv: "dinv s" by (rule dreach_inv [OF assms(1)])
  moreover have "open_req s h" using inv assms(4) by (auto simp: open_req_def dinv_def regs_inv_def)
  moreover have "sole s k h" unfolding sole_def using assms(2,3) by blast
  ultimately have "served s k h" by (simp add: dinv_def served_inv_def)
  then show ?thesis
  proof (unfold served_def, elim disjE)
    assume "disp_lookup k (ds_d s) = Some (ar h)"
    from disp.notify_Some [OF this] assms(4) show ?thesis
      by (simp add: resp_select_def disp.chans_simps)
  next
    assume "h \<in> nf_handle ` set (ds_notifiers s)"
    with assms(4) show ?thesis by (auto simp: resp_select_def)
  qed
qed

theorem waiting_requester_served_witness:
  "(\<exists>d'. disp_notify KGlobal (demo_frame []) (ds_d run_waiting) = Some (None, d') \<and>
      (0, demo_frame []) \<in> set (disp_got d')) \<or>
   (\<exists>n d'. n \<in> set (ds_notifiers run_waiting) \<and>
       resp_select (nf_resp n) (nf_frame n) EOF (ds_d run_waiting) = Some (None, d') \<and>
       (0, nf_frame n) \<in> set (disp_got d'))"
  using waiting_requester_served [OF run_waiting_reach, of KGlobal 0 "demo_frame []" EOF]
  by (simp add: run_defs)

text \<open>
  The global key is reused, and there the guarantee fails: a requester that has its frame but has not
  yet cancelled wipes out the registration of the next one, which then waits for nothing.
\<close>

lemma global_cancel_orphans:
  "\<exists>s. dreach s \<and> 1 \<in> set (disp_waiting (ds_d s)) \<and> (KGlobal, 1) \<in> set (ds_regs s) \<and>
     disp_lookup KGlobal (ds_d s) = None \<and> ds_notifiers s = []"
proof -
  define s1 where "s1 = run_delivered\<lparr>ds_d := snd (RegisterGlobal (ds_d run_delivered)),
    ds_regs := (KGlobal, 1) # ds_regs run_delivered\<rparr>"
  define s2 where "s2 = s1\<lparr>ds_d := resp_await 1 (ds_d s1)\<rparr>"
  define s3 where "s3 = s2\<lparr>ds_d := disp_cancel KGlobal 0 (ds_d s2)\<rparr>"
  have "dstep run_delivered s1"
    using dstep.register [of KGlobal run_delivered 1 "snd (RegisterGlobal (ds_d run_delivered))"]
    by (simp add: s1_def run_defs disp_defs)
  moreover have "dstep s1 s2"
    unfolding s2_def by (rule dstep.await) (simp_all add: s1_def run_defs disp_defs)
  moreover have "dstep s2 s3"
    unfolding s3_def by (rule dstep.cancel) (simp_all add: s2_def s1_def run_defs disp_defs resp_await_def)
  ultimately have "dreach s3" using run_delivered_reach by (blast intro: dreach.step)
  then show ?thesis
    by (intro exI [of _ s3]) (simp add: s3_def s2_def s1_def run_defs disp_defs resp_await_def)
qed

text \<open>
  A request with a request id: the response frame is handed to the goroutine that registered
  the id, the registration is gone afterwards, a second response for it is reported as unexpected,
  and the id can be registered again.
\<close>

theorem reqid_exchange:
  assumes "Dispatcher_ReqIDs d requestID = None"
  shows "\<exists>h d1 d2. RegisterReqID requestID d = (Inr h, d1) \<and>
    NotifyReqID requestID frame (resp_await h d1) = Some (None, d2) \<and>
    disp_got d2 = (h, frame) # disp_got d \<and>
    (\<exists>d3. NotifyReqID requestID frame' d2 =
       Some (Some (NewUnexpectedErrMsg (BaseCommand_GetType (Frame_BaseCmd frame')) [requestID]), d3)) \<and>
    (\<exists>h'. fst (RegisterReqID requestID d2) = Inr h')"
proof -
  let ?d1 = "snd (RegisterReqID requestID d)"
  have "RegisterReqID requestID d = (Inr (disp_next d), ?d1)"
    using reqid.reg_free [OF assms] by (metis prod.collapse)
  moreover obtain d2 where d2: "NotifyReqID requestID frame (resp_await (disp_next d) ?d1) = Some (None, d2)"
    "disp_got d2 = (disp_next d, frame) # disp_got d" "Dispatcher_ReqIDs d2 requestID = None"
    using reqid.reg_await_notify [OF assms] by blast
  moreover have "\<exists>h'. fst (RegisterReqID requestID d2) = Inr h'"
    using reqid.reg_Inr_iff d2(3) by blast
  ultimately show ?thesis
    using reqid.notify_None [OF d2(3), of frame']
    by (intro exI [of _ "disp_next d"] exI [of _ ?d1] exI [of _ d2]) (simp add: unexpected_def)
qed

theorem reqid_exchange_witness:
  "\<exists>h d1 d2. RegisterReqID 7 NewFrameDispatcher = (Inr h, d1) \<and>
    NotifyReqID 7 (demo_frame []) (resp_await h d1) = Some (None, d2) \<and> disp_got d2 = [(h, demo_frame [])]"
  using reqid_exchange [of NewFrameDispatcher 7 "demo_frame []" "demo_frame []"]
  by (auto simp: NewFrameDispatcher_def)

end
