(* ===== verification/Conn.thy ===== *)
theory Conn
  imports Dispatcher
begin

text \<open>
  Sending and receiving frames: the interface \<^verbatim>\<open>CmdSender\<close> and its mock of
  \<^verbatim>\<open>core/frame/mocksender.go\<close>, and the connection of \<^verbatim>\<open>core/conn/conn.go\<close>. A Go interface
  value is the record \<open>CmdSender\<close> of its methods over the state of the object. The locale
  \<open>cmd_sender\<close> states what the rest of the client relies on, and both implementations are shown
  to provide it. The network connection is a \<open>reader\<close> and a \<open>writer\<close>; dialling is a parameter.
\<close>

section \<open>CmdSender\<close>

record 's CmdSender =
  SendSimpleCmd :: "BaseCommand \<Rightarrow> 's \<Rightarrow> go_error option \<times> 's"
  SendPayloadCmd :: "BaseCommand \<Rightarrow> MessageMetadata \<Rightarrow> bytes \<Rightarrow> 's \<Rightarrow> go_error option \<times> 's"
  Closed :: "'s \<Rightarrow> bool"

definition simple_frame :: "BaseCommand \<Rightarrow> Frame" where
  "simple_frame cmd = \<lparr>Frame_BaseCmd = Some cmd, Frame_Metadata = None, Frame_Payload = []\<rparr>"

definition payload_frame :: "BaseCommand \<Rightarrow> MessageMetadata \<Rightarrow> bytes \<Rightarrow> Frame" where
  "payload_frame cmd metadata payload =
     \<lparr>Frame_BaseCmd = Some cmd, Frame_Metadata = Some metadata, Frame_Payload = payload\<rparr>"

section \<open>MockSender\<close>

record MockSender =
  MockSender_Frames :: "Frame list"
  MockSender_Closedc :: bool

definition MockSender_GetFrames :: "MockSender \<Rightarrow> Frame list" where
  "MockSender_GetFrames m = MockSender_Frames m"

definition MockSender_SendSimpleCmd :: "BaseCommand \<Rightarrow> MockSender \<Rightarrow> go_error option \<times> MockSender" where
  "MockSender_SendSimpleCmd cmd m =
     (None, m\<lparr>MockSender_Frames := MockSender_Frames m @ [simple_frame cmd]\<rparr>)"

definition MockSender_SendPayloadCmd ::
    "BaseCommand \<Rightarrow> MessageMetadata \<Rightarrow> bytes \<Rightarrow> MockSender \<Rightarrow> go_error option \<times> MockSender" where
  "MockSender_SendPayloadCmd cmd metadata payload m =
     (None, m\<lparr>MockSender_Frames := MockSender_Frames m @ [payload_frame cmd metadata payload]\<rparr>)"

definition MockSender_Closed :: "MockSender \<Rightarrow> bool" where
  "MockSender_Closed m = MockSender_Closedc m"

definition mock_sender :: "MockSender CmdSender" where
  "mock_sender =
     \<lparr>SendSimpleCmd = MockSender_SendSimpleCmd, SendPayloadCmd = MockSender_SendPayloadCmd,
      Closed = MockSender_Closed\<rparr>"

section \<open>Conn\<close>

text \<open>
  \<open>conn_close_err\<close> is what closing the network connection will return.
\<close>

record Conn =
  Conn_Rc :: reader
  Conn_W :: writer
  Conn_IsClosed :: bool
  Conn_Closedc :: bool
  conn_close_err :: "go_error option"

definition new_Conn :: "reader \<Rightarrow> writer \<Rightarrow> go_error option \<Rightarrow> Conn" where
  "new_Conn rc w ce =
     \<lparr>Conn_Rc = rc, Conn_W = w, Conn_IsClosed = False, Conn_Closedc = False, conn_close_err = ce\<rparr>"

text \<open>
  \<open>NewTCPConn\<close> and \<open>NewTLSConn\<close>: the dialler is given the address, the timeout and, for TLS, the
  configuration, and returns the two ends of a connection or an error.
\<close>

definition NewTCPConn ::
    "(string \<Rightarrow> int \<Rightarrow> go_error + reader \<times> writer \<times> go_error option) \<Rightarrow> string \<Rightarrow> int \<Rightarrow> go_error + Conn" where
  "NewTCPConn dial addr timeout =
     (case dial (TrimPrefix addr ''pulsar://'') timeout of
        Inl err \<Rightarrow> Inl err
      | Inr (rc, w, ce) \<Rightarrow> Inr (new_Conn rc w ce))"

definition NewTLSConn ::
    "('tls \<Rightarrow> string \<Rightarrow> int \<Rightarrow> go_error + reader \<times> writer \<times> go_error option) \<Rightarrow>
     string \<Rightarrow> 'tls \<Rightarrow> int \<Rightarrow> go_error + Conn" where
  "NewTLSConn dial addr tlsCfg timeout =
     (case dial tlsCfg (TrimPrefix addr ''pulsar://'') timeout of
        Inl err \<Rightarrow> Inl err
      | Inr (rc, w, ce) \<Rightarrow> Inr (new_Conn rc w ce))"

definition Conn_Close :: "Conn \<Rightarrow> go_error option \<times> Conn" where
  "Conn_Close c =
     (if Conn_IsClosed c then (None, c)
      else
        (case close_signal (Conn_Closedc c) of
           Inl p \<Rightarrow> (Some p, c)
         | Inr cl \<Rightarrow> (conn_close_err c, c\<lparr>Conn_Closedc := cl, Conn_IsClosed := True\<rparr>)))"

definition Conn_Closed :: "Conn \<Rightarrow> bool" where
  "Conn_Closed c = Conn_Closedc c"

subsection \<open>Reading\<close>

text \<open>
  The loop of \<open>Read\<close>. Every frame it decodes takes at least four bytes from the connection, so it
  ends: with the first error, at the latest when the connection has no more bytes.
\<close>

lemma Frame_Decode_shorter:
  "Frame_Decode pc f r = (None, f', r') \<Longrightarrow> length (rd_data r') < length (rd_data r)"
  using Frame_Decode_ok [of pc f r f' r'] by auto

function read_loop :: "proto \<Rightarrow> (Frame \<Rightarrow> 's \<Rightarrow> 's) \<Rightarrow> reader \<Rightarrow> 's \<Rightarrow> go_error \<times> reader \<times> 's" where
  "read_loop pc frameHandler r s =
     (case Frame_Decode pc new_Frame r of
        (Some err, f, r') \<Rightarrow> (err, r', s)
      | (None, f, r') \<Rightarrow> read_loop pc frameHandler r' (frameHandler f s))"
  by pat_completeness auto
termination
  by (relation "measure (\<lambda>(pc, h, r, s). length (rd_data r))") (auto dest!: Frame_Decode_shorter [OF sym])

declare read_loop.simps [simp del]

definition Conn_Read :: "proto \<Rightarrow> (Frame \<Rightarrow> 's \<Rightarrow> 's) \<Rightarrow> Conn \<Rightarrow> 's \<Rightarrow> go_error \<times> Conn \<times> 's" where
  "Conn_Read pc frameHandler c s =
     (case read_loop pc frameHandler (Conn_Rc c) s of
        (err, rc, s') \<Rightarrow> (err, snd (Conn_Close (c\<lparr>Conn_Rc := rc\<rparr>)), s'))"

subsection \<open>Writing\<close>

definition bufLimit :: nat where "bufLimit = 50"

definition smallBufLimit :: nat where "smallBufLimit = 1000"

text \<open>
  The two pools of buffers. The channel of a pool counts the buffers in use: \<open>getBuf\<close> blocks
  (\<open>None\<close>) when all are, \<open>putBuf\<close> takes one value out again. A buffer that was used before comes
  with its old contents, which \<open>Reset\<close> discards.
\<close>

record bufpools =
  bufPool :: "writer list"
  bufPoolChan :: "bool chan"
  smallBufPool :: "writer list"
  smallBufPoolChan :: "bool chan"

definition new_bufpools :: bufpools where
  "new_bufpools = \<lparr>bufPool = [], bufPoolChan = make_chan bufLimit,
     smallBufPool = [], smallBufPoolChan = make_chan smallBufLimit\<rparr>"

definition buf_Reset :: "writer \<Rightarrow> writer" where
  "buf_Reset b = b\<lparr>wr_out := []\<rparr>"

definition pool_Get :: "writer list \<Rightarrow> writer \<times> writer list" where
  "pool_Get p = (case p of [] \<Rightarrow> (new_buffer, []) | b # bs \<Rightarrow> (b, bs))"

definition getBuf :: "bufpools \<Rightarrow> (writer \<times> bufpools) option" where
  "getBuf ps =
     (case try_send True (bufPoolChan ps) of
        None \<Rightarrow> None
      | Some ch \<Rightarrow>
          (case pool_Get (bufPool ps) of
             (b, rest) \<Rightarrow> Some (buf_Reset b, ps\<lparr>bufPoolChan := ch, bufPool := rest\<rparr>)))"

definition putBuf :: "writer \<Rightarrow> bufpools \<Rightarrow> bufpools option" where
  "putBuf b ps =
     (case try_recv (bufPoolChan ps) of
        None \<Rightarrow> None
      | Some (_, ch) \<Rightarrow> Some (ps\<lparr>bufPool := b # bufPool ps, bufPoolChan := ch\<rparr>))"

definition getSmallBuf :: "bufpools \<Rightarrow> (writer \<times> bufpools) option" where
  "getSmallBuf ps =
     (case try_send True (smallBufPoolChan ps) of
        None \<Rightarrow> None
      | Some ch \<Rightarrow>
          (case pool_Get (smallBufPool ps) of
             (b, rest) \<Rightarrow> Some (buf_Reset b, ps\<lparr>smallBufPoolChan := ch, smallBufPool := rest\<rparr>)))"

definition putSmallBuf :: "writer \<Rightarrow> bufpools \<Rightarrow> bufpools option" where
  "putSmallBuf b ps =
     (case try_recv (smallBufPoolChan ps) of
        None \<Rightarrow> None
      | Some (_, ch) \<Rightarrow> Some (ps\<lparr>smallBufPool := b # smallBufPool ps, smallBufPoolChan := ch\<rparr>))"

definition smallCmdType :: "BaseCommand_Type \<Rightarrow> bool" where
  "smallCmdType t \<longleftrightarrow>
     t \<in> {BaseCommand_PING, BaseCommand_PONG, BaseCommand_ACK, BaseCommand_CONNECT,
          BaseCommand_FLOW, BaseCommand_SUBSCRIBE, BaseCommand_LOOKUP}"

text \<open>
  The part of \<open>writeFrame\<close> that holds a buffer: encode into it, then write it out in one piece
  under the lock \<open>Wmu\<close>. The buffer is returned as the pool gets it back: drained if it was written.
\<close>

definition writeFrame_buf ::
    "proto \<Rightarrow> Frame \<Rightarrow> writer \<Rightarrow> Conn \<Rightarrow> go_error option \<times> writer \<times> Conn" where
  "writeFrame_buf pc f b c =
     (case Frame_Encode pc f b of
        (Some err, b') \<Rightarrow> (Some err, b', c)
      | (None, b') \<Rightarrow>
          (case Write (wr_out b') (Conn_W c) of
             (err, w') \<Rightarrow> (err, buf_Reset b', c\<lparr>Conn_W := w'\<rparr>)))"

text \<open>\<open>writeFrame\<close> itself; \<open>None\<close> while no buffer is free.\<close>

definition writeFrame ::
    "proto \<Rightarrow> Frame \<Rightarrow> bufpools \<Rightarrow> Conn \<Rightarrow> (go_error option \<times> bufpools \<times> Conn) option" where
  "writeFrame pc f ps c =
     (let small = smallCmdType (BaseCommand_GetType (Frame_BaseCmd f)) in
      case (if small then getSmallBuf ps else getBuf ps) of
        None \<Rightarrow> None
      | Some (b, ps1) \<Rightarrow>
          (case writeFrame_buf pc f b c of
             (err, b', c') \<Rightarrow>
               (case (if small then putSmallBuf b' ps1 else putBuf b' ps1) of
                  None \<Rightarrow> None
                | Some ps2 \<Rightarrow> Some (err, ps2, c'))))"

text \<open>
  The methods of a connection as a \<open>CmdSender\<close>, for a caller that finds a free buffer: by
  \<open>writeFrame_fresh\<close> below they then do what \<open>writeFrame\<close> does.
\<close>

definition Conn_SendSimpleCmd :: "proto \<Rightarrow> BaseCommand \<Rightarrow> Conn \<Rightarrow> go_error option \<times> Conn" where
  "Conn_SendSimpleCmd pc cmd c =
     (case writeFrame_buf pc (simple_frame cmd) new_buffer c of (err, _, c') \<Rightarrow> (err, c'))"

definition Conn_SendPayloadCmd ::
    "proto \<Rightarrow> BaseCommand \<Rightarrow> MessageMetadata \<Rightarrow> bytes \<Rightarrow> Conn \<Rightarrow> go_error option \<times> Conn" where
  "Conn_SendPayloadCmd pc cmd metadata payload c =
     (case writeFrame_buf pc (payload_frame cmd metadata payload) new_buffer c of (err, _, c') \<Rightarrow> (err, c'))"

definition conn_sender :: "proto \<Rightarrow> Conn CmdSender" where
  "conn_sender pc =
     \<lparr>SendSimpleCmd = Conn_SendSimpleCmd pc, SendPayloadCmd = Conn_SendPayloadCmd pc, Closed = Conn_Closed\<rparr>"

section \<open>The buffer pools\<close>

definition pool_ok :: "nat \<Rightarrow> writer list \<Rightarrow> bool chan \<Rightarrow> bool" where
  "pool_ok limit p ch \<longleftrightarrow>
     (\<forall>b \<in> set p. buf_Reset b = new_buffer) \<and> ch_cap ch = limit \<and> ch_receivers ch = 0 \<and>
     length (ch_buf ch) \<le> limit"

definition bufpools_inv :: "bufpools \<Rightarrow> bool" where
  "bufpools_inv ps \<longleftrightarrow>
     pool_ok bufLimit (bufPool ps) (bufPoolChan ps) \<and>
     pool_ok smallBufLimit (smallBufPool ps) (smallBufPoolChan ps)"

definition bufs_in_use :: "bufpools \<Rightarrow> nat \<times> nat" where
  "bufs_in_use ps = (length (ch_buf (bufPoolChan ps)), length (ch_buf (smallBufPoolChan ps)))"

definition buf_free :: "Frame \<Rightarrow> bufpools \<Rightarrow> bool" where
  "buf_free f ps \<longleftrightarrow>
     (if smallCmdType (BaseCommand_GetType (Frame_BaseCmd f)) then snd (bufs_in_use ps) < smallBufLimit
      else fst (bufs_in_use ps) < bufLimit)"

lemma new_bufpools_inv: "bufpools_inv new_bufpools"
  by (simp add: bufpools_inv_def new_bufpools_def pool_ok_def make_chan_def)

lemma buf_Reset_idem [simp]: "buf_Reset (buf_Reset b) = buf_Reset b" "buf_Reset new_buffer = new_buffer"
  by (simp_all add: buf_Reset_def new_buffer_def)

lemma pool_Get_reset:
  "\<forall>b \<in> set p. buf_Reset b = new_buffer \<Longrightarrow> pool_Get p = (b, p') \<Longrightarrow>
   buf_Reset b = new_buffer \<and> (\<forall>b \<in> set p'. buf_Reset b = new_buffer)"
  by (cases p) (auto simp: pool_Get_def)

lemma buf_Reset_new_iff: "buf_Reset b = new_buffer \<longleftrightarrow> wr_room b = None \<and> wr_err b = ErrUnexpectedEOF"
  by (cases b) (auto simp: buf_Reset_def new_buffer_def)

lemma Frame_Encode_Reset:
  "Frame_Encode pc f b = (e, b') \<Longrightarrow> buf_Reset b = new_buffer \<Longrightarrow> buf_Reset b' = new_buffer"
  unfolding buf_Reset_new_iff
  by (auto simp: Frame_Encode_def Let_def simp del: write_all.simps split: sum.splits option.splits if_splits)

lemma writeFrame_fresh:
  assumes "bufpools_inv ps" "buf_free f ps"
  shows "\<exists>ps'. writeFrame pc f ps c =
      Some (fst (writeFrame_buf pc f new_buffer c), ps', snd (snd (writeFrame_buf pc f new_buffer c))) \<and>
    bufpools_inv ps' \<and> bufs_in_use ps' = bufs_in_use ps"
proof -
  obtain err b' c' where wb: "writeFrame_buf pc f new_buffer c = (err, b', c')" by (metis prod_cases3)
  have b': "buf_Reset b' = new_buffer"
    using wb Frame_Encode_Reset [of pc f new_buffer]
    by (auto simp: writeFrame_buf_def split: prod.splits option.splits)
  obtain b rest where small: "pool_Get (smallBufPool ps) = (b, rest)" by fastforce
  obtain d rest' where big: "pool_Get (bufPool ps) = (d, rest')" by fastforce
  have pools: "\<forall>b \<in> set (smallBufPool ps). buf_Reset b = new_buffer"
    "\<forall>b \<in> set (bufPool ps). buf_Reset b = new_buffer"
    using assms(1) by (simp_all add: bufpools_inv_def pool_ok_def)
  note r = pool_Get_reset [OF pools(1) small] pool_Get_reset [OF pools(2) big]
  show ?thesis
  proof (cases "smallCmdType (BaseCommand_GetType (Frame_BaseCmd f))")
    case True
    with assms small wb r b' show ?thesis
      by (cases "ch_buf (smallBufPoolChan ps)")
        (auto simp: writeFrame_def getSmallBuf_def putSmallBuf_def try_send_def try_recv_def
          bufpools_inv_def pool_ok_def buf_free_def bufs_in_use_def)
  next
    case False
    with assms big wb r b' show ?thesis
      by (cases "ch_buf (bufPoolChan ps)")
        (auto simp: writeFrame_def getBuf_def putBuf_def try_send_def try_recv_def
          bufpools_inv_def pool_ok_def buf_free_def bufs_in_use_def)
  qed
qed

section \<open>Frames on the wire\<close>

definition encodable :: "proto \<Rightarrow> Frame \<Rightarrow> bool" where
  "encodable pc f \<longleftrightarrow> frame_valid pc f \<and> fst (Frame_Encode pc f new_buffer) = None"

definition frame_wire :: "proto \<Rightarrow> Frame \<Rightarrow> bytes" where
  "frame_wire pc f = wr_out (snd (Frame_Encode pc f new_buffer))"

definition wires :: "proto \<Rightarrow> Frame list \<Rightarrow> bytes" where
  "wires pc fs = concat (map (frame_wire pc) fs)"

lemma wires_simps [simp]:
  "wires pc [] = []" "wires pc (f # fs) = frame_wire pc f @ wires pc fs"
  "wires pc (fs @ gs) = wires pc fs @ wires pc gs"
  by (simp_all add: wires_def)

lemma encodable_decode:
  assumes "encodable pc f"
  shows "Frame_Decode pc new_Frame \<lparr>rd_data = frame_wire pc f @ rest, rd_err = e\<rparr> =
    (None, f, \<lparr>rd_data = rest, rd_err = e\<rparr>)"
  using assms frame_valid_decode [of pc f "snd (Frame_Encode pc f new_buffer)"]
  by (cases "Frame_Encode pc f new_buffer") (simp add: encodable_def frame_wire_def)

lemma encodable_truncated:
  assumes "encodable pc f" "take k (frame_wire pc f) \<noteq> frame_wire pc f"
  shows "fst (Frame_Decode pc new_Frame \<lparr>rd_data = take k (frame_wire pc f), rd_err = e\<rparr>) \<noteq> None"
  using assms frame_valid_truncated [of pc f "snd (Frame_Encode pc f new_buffer)" "take k (frame_wire pc f)"
      "drop k (frame_wire pc f)"]
  by (cases "Frame_Encode pc f new_buffer") (auto simp: encodable_def frame_wire_def)

lemma read_loop_wires:
  assumes "\<forall>f \<in> set fs. encodable pc f"
  shows "read_loop pc h \<lparr>rd_data = wires pc fs @ rest, rd_err = e\<rparr> s =
    read_loop pc h \<lparr>rd_data = rest, rd_err = e\<rparr> (fold h fs s)"
  using assms
proof (induction fs arbitrary: s)
  case (Cons f fs)
  have "read_loop pc h \<lparr>rd_data = frame_wire pc f @ wires pc fs @ rest, rd_err = e\<rparr> s =
      read_loop pc h \<lparr>rd_data = wires pc fs @ rest, rd_err = e\<rparr> (h f s)"
    using Cons.prems by (subst read_loop.simps) (simp add: encodable_decode)
  with Cons show ?case by simp
qed simp

lemma read_loop_stop:
  "fst (Frame_Decode pc new_Frame r) \<noteq> None \<Longrightarrow> snd (snd (read_loop pc h r s)) = s"
  by (subst read_loop.simps) (auto split: prod.splits option.splits)

lemma Frame_Decode_Nil: "Frame_Decode pc f \<lparr>rd_data = [], rd_err = e\<rparr> = (Some e, f, \<lparr>rd_data = [], rd_err = e\<rparr>)"
  by (simp add: Frame_Decode_def ReadFull_def)

lemma read_loop_wires_part:
  assumes "\<forall>f \<in> set fs. encodable pc f" "encodable pc g" "take k (frame_wire pc g) \<noteq> frame_wire pc g"
  shows "snd (snd (read_loop pc h \<lparr>rd_data = wires pc fs @ take k (frame_wire pc g), rd_err = e\<rparr> s)) = fold h fs s"
  using assms by (simp add: read_loop_wires read_loop_stop encodable_truncated)

lemma read_loop_wires_all:
  assumes "\<forall>f \<in> set fs. encodable pc f"
  shows "snd (snd (read_loop pc h \<lparr>rd_data = wires pc fs, rd_err = e\<rparr> s)) = fold h fs s"
  using read_loop_wires [OF assms, of h "[]" e s] by (simp add: read_loop_stop Frame_Decode_Nil)

text \<open>What one \<open>writeFrame\<close> puts on the wire.\<close>

lemma Write_cases:
  assumes "Write bs w = (e, w')"
  obtains "e = None" "wr_out w' = wr_out w @ bs"
    | x k where "e = Some x" "take k bs \<noteq> bs" "wr_out w' = wr_out w @ take k bs"
  using assms by (cases "wr_room w") (auto simp: Write_def split: if_splits)

lemma writeFrame_buf_wire:
  assumes "writeFrame_buf pc f new_buffer c = (err, b, c')" "frame_valid pc f"
  obtains (sent) "err = None" "encodable pc f" "wr_out (Conn_W c') = wr_out (Conn_W c) @ frame_wire pc f"
    | (none) e where "err = Some e" "c' = c"
    | (part) e k where "err = Some e" "encodable pc f" "take k (frame_wire pc f) \<noteq> frame_wire pc f"
        "wr_out (Conn_W c') = wr_out (Conn_W c) @ take k (frame_wire pc f)"
proof (cases "Frame_Encode pc f new_buffer")
  case (Pair e w)
  show thesis
  proof (cases e)
    case None
    with Pair assms(2) have enc: "encodable pc f" "frame_wire pc f = wr_out w"
      by (simp_all add: encodable_def frame_wire_def)
    with Pair None assms(1) have "Write (frame_wire pc f) (Conn_W c) = (err, Conn_W c')"
      by (auto simp: writeFrame_buf_def split: prod.splits)
    then show thesis
      by (rule Write_cases) (use enc sent part in blast)+
  next
    case (Some x)
    with Pair assms(1) none show thesis by (auto simp: writeFrame_buf_def)
  qed
qed

section \<open>The interface of a sender\<close>

text \<open>
  \<open>sent s\<close> is the list of frames the other end can read, \<open>ok s\<close> says that no frame was cut off so
  far. A send that returns no error adds its frame; one that fails adds none.
\<close>

locale cmd_sender =
  fixes S :: "'s CmdSender"
    and sent :: "'s \<Rightarrow> Frame list"
    and ok :: "'s \<Rightarrow> bool"
    and valid :: "Frame \<Rightarrow> bool"
  assumes simple: "ok s \<Longrightarrow> valid (simple_frame cmd) \<Longrightarrow> SendSimpleCmd S cmd s = (e, s') \<Longrightarrow>
      sent s' = sent s @ (if e = None then [simple_frame cmd] else []) \<and> (e = None \<longrightarrow> ok s')"
    and payload: "ok s \<Longrightarrow> valid (payload_frame cmd m p) \<Longrightarrow> SendPayloadCmd S cmd m p s = (e, s') \<Longrightarrow>
      sent s' = sent s @ (if e = None then [payload_frame cmd m p] else []) \<and> (e = None \<longrightarrow> ok s')"
    and closed: "Closed S (snd (SendSimpleCmd S cmd s)) = Closed S s"
      "Closed S (snd (SendPayloadCmd S cmd m p s)) = Closed S s"

interpretation mock: cmd_sender mock_sender MockSender_GetFrames "\<lambda>_. True" "\<lambda>_. True"
  by unfold_locales
    (auto simp: mock_sender_def MockSender_GetFrames_def MockSender_SendSimpleCmd_def
      MockSender_SendPayloadCmd_def MockSender_Closed_def)

definition conn_sent :: "proto \<Rightarrow> Conn \<Rightarrow> Frame list" where
  "conn_sent pc c =
     snd (snd (read_loop pc (\<lambda>f fs. fs @ [f]) \<lparr>rd_data = wr_out (Conn_W c), rd_err = EOF\<rparr> []))"

definition conn_ok :: "proto \<Rightarrow> Conn \<Rightarrow> bool" where
  "conn_ok pc c \<longleftrightarrow> (\<exists>fs. (\<forall>f \<in> set fs. encodable pc f) \<and> wr_out (Conn_W c) = wires pc fs)"

lemma fold_snoc [simp]: "fold (\<lambda>f fs. fs @ [f]) xs acc = acc @ xs"
  by (induction xs arbitrary: acc) auto

lemma conn_write_sent:
  assumes "conn_ok pc c" "frame_valid pc f" "writeFrame_buf pc f new_buffer c = (e, b, c')"
  shows "conn_sent pc c' = conn_sent pc c @ (if e = None then [f] else []) \<and> (e = None \<longrightarrow> conn_ok pc c')"
proof -
  from assms(1) obtain fs where fs: "\<forall>f \<in> set fs. encodable pc f" "wr_out (Conn_W c) = wires pc fs"
    by (auto simp: conn_ok_def)
  from fs have c: "conn_sent pc c = fs" by (simp add: conn_sent_def read_loop_wires_all)
  from assms(3,2) show ?thesis
  proof (cases rule: writeFrame_buf_wire)
    case sent
    then have fs': "\<forall>f \<in> set (fs @ [f]). encodable pc f" and w: "wr_out (Conn_W c') = wires pc (fs @ [f])"
      using fs by simp_all
    from read_loop_wires_all [OF fs', of "\<lambda>f fs. fs @ [f]" EOF "[]"]
    have "conn_sent pc c' = fs @ [f]" unfolding conn_sent_def w by simp
    with c w fs' sent(1) show ?thesis unfolding conn_ok_def by fastforce
  next
    case (none e)
    then show ?thesis by simp
  next
    case (part e k)
    with fs c show ?thesis by (simp add: conn_sent_def read_loop_wires_part)
  qed
qed

interpretation conn: cmd_sender "conn_sender pc" "conn_sent pc" "conn_ok pc" "frame_valid pc"
proof
  show "conn_ok pc s \<Longrightarrow> frame_valid pc (simple_frame cmd) \<Longrightarrow> SendSimpleCmd (conn_sender pc) cmd s = (e, s') \<Longrightarrow>
      conn_sent pc s' = conn_sent pc s @ (if e = None then [simple_frame cmd] else []) \<and> (e = None \<longrightarrow> conn_ok pc s')"
    for s cmd e s'
    by (rule conn_write_sent [where b = "fst (snd (writeFrame_buf pc (simple_frame cmd) new_buffer s))"])
      (auto simp: conn_sender_def Conn_SendSimpleCmd_def split: prod.splits)
  show "conn_ok pc s \<Longrightarrow> frame_valid pc (payload_frame cmd m p) \<Longrightarrow>
      SendPayloadCmd (conn_sender pc) cmd m p s = (e, s') \<Longrightarrow>
      conn_sent pc s' = conn_sent pc s @ (if e = None then [payload_frame cmd m p] else []) \<and>
      (e = None \<longrightarrow> conn_ok pc s')" for s cmd m p e s'
    by (rule conn_write_sent [where b = "fst (snd (writeFrame_buf pc (payload_frame cmd m p) new_buffer s))"])
      (auto simp: conn_sender_def Conn_SendPayloadCmd_def split: prod.splits)
  show "Closed (conn_sender pc) (snd (SendSimpleCmd (conn_sender pc) cmd s)) = Closed (conn_sender pc) s"
    "Closed (conn_sender pc) (snd (SendPayloadCmd (conn_sender pc) cmd m p s)) = Closed (conn_sender pc) s"
    for cmd m p s
    by (simp_all add: conn_sender_def Conn_SendSimpleCmd_def Conn_SendPayloadCmd_def writeFrame_buf_def
        Conn_Closed_def split: prod.splits option.splits)
qed

section \<open>Properties\<close>

text \<open>
  A sequence of writes that stops at the first error, with the number of frames written.
\<close>

fun write_frames :: "proto \<Rightarrow> Frame list \<Rightarrow> bufpools \<Rightarrow> Conn \<Rightarrow> (nat \<times> bufpools \<times> Conn) option" where
  "write_frames pc [] ps c = Some (0, ps, c)"
| "write_frames pc (f # fs) ps c =
     (case writeFrame pc f ps c of
        None \<Rightarrow> None
      | Some (Some err, ps', c') \<Rightarrow> Some (0, ps', c')
      | Some (None, ps', c') \<Rightarrow>
          (case write_frames pc fs ps' c' of
             None \<Rightarrow> None
           | Some (n, ps2, c2) \<Rightarrow> Some (Suc n, ps2, c2)))"

lemma write_frames_wire:
  assumes "bufpools_inv ps" "\<forall>f \<in> set fs. frame_valid pc f \<and> buf_free f ps" "conn_ok pc c"
  shows "\<exists>n ps' c'. write_frames pc fs ps c = Some (n, ps', c') \<and> n \<le> length fs \<and>
    conn_sent pc c' = conn_sent pc c @ take n fs \<and> bufpools_inv ps' \<and> bufs_in_use ps' = bufs_in_use ps"
  using assms
proof (induction fs arbitrary: ps c)
  case (Cons f fs)
  let ?w = "writeFrame_buf pc f new_buffer c"
  obtain ps1 where w: "writeFrame pc f ps c = Some (fst ?w, ps1, snd (snd ?w))"
    and ps1: "bufpools_inv ps1" "bufs_in_use ps1 = bufs_in_use ps"
    using writeFrame_fresh [of ps f pc c] Cons.prems by auto
  have step: "conn_sent pc (snd (snd ?w)) = conn_sent pc c @ (if fst ?w = None then [f] else []) \<and>
      (fst ?w = None \<longrightarrow> conn_ok pc (snd (snd ?w)))"
    using conn_write_sent [of pc c f] Cons.prems by (metis list.set_intros(1) prod.collapse)
  show ?case
  proof (cases "fst ?w")
    case None
    with step have "conn_ok pc (snd (snd ?w))" by simp
    moreover have "\<forall>g \<in> set fs. frame_valid pc g \<and> buf_free g ps1"
      using Cons.prems(2) ps1(2) by (simp add: buf_free_def)
    ultimately obtain n ps2 c2 where "write_frames pc fs ps1 (snd (snd ?w)) = Some (n, ps2, c2)" "n \<le> length fs"
      "conn_sent pc c2 = conn_sent pc (snd (snd ?w)) @ take n fs" "bufpools_inv ps2" "bufs_in_use ps2 = bufs_in_use ps1"
      using Cons.IH [of ps1 "snd (snd ?w)"] ps1(1) by blast
    with None w step ps1(2) show ?thesis by simp
  next
    case (Some x)
    with w step ps1 show ?thesis by simp
  qed
qed simp

text \<open>
  C20. A connection is a first-in-first-out channel of frames: of a list of valid frames written to
  one end, until the first failing write, the reading end hands exactly the frames whose write
  succeeded to its handler, in order, also when the last write broke off in the middle of a frame.
  The reader then closes its connection.
\<close>

theorem conn_fifo:
  assumes "bufpools_inv ps" "\<forall>f \<in> set fs. frame_valid pc f \<and> buf_free f ps" "wr_out (Conn_W a) = []"
  shows "\<exists>n ps' a'. write_frames pc fs ps a = Some (n, ps', a') \<and> n \<le> length fs \<and>
    (\<exists>err b'. Conn_Read pc (\<lambda>f got. got @ [f]) (new_Conn \<lparr>rd_data = wr_out (Conn_W a'), rd_err = EOF\<rparr> w ce) [] =
       (err, b', take n fs) \<and> Conn_IsClosed b' \<and> Conn_Closed b')"
proof -
  have "conn_ok pc a" using assms(3) unfolding conn_ok_def by (intro exI [of _ "[]"]) simp
  moreover have "conn_sent pc a = []"
    by (simp add: conn_sent_def assms(3) read_loop_stop Frame_Decode_Nil)
  ultimately obtain n ps' a' where "write_frames pc fs ps a = Some (n, ps', a')" "n \<le> length fs"
    "conn_sent pc a' = take n fs"
    using write_frames_wire [OF assms(1,2)] by fastforce
  then show ?thesis
    by (auto simp: Conn_Read_def conn_sent_def new_Conn_def Conn_Close_def close_signal_def Conn_Closed_def
        split: prod.splits)
qed

definition demo_conn :: Conn where
  "demo_conn = new_Conn \<lparr>rd_data = [], rd_err = EOF\<rparr> \<lparr>wr_out = [], wr_room = Some 40, wr_err = ErrNet ''reset''\<rparr> None"

lemma demo_frame_valid: "length p \<le> 1000 \<Longrightarrow> frame_valid demo_proto (demo_frame p)"
  by (simp add: frame_valid_def)

theorem conn_fifo_witness:
  "\<exists>n ps' a'. write_frames demo_proto [demo_frame [1], demo_frame [2, 3]] new_bufpools demo_conn = Some (n, ps', a') \<and>
    n \<le> 2 \<and>
    (\<exists>err b'. Conn_Read demo_proto (\<lambda>f got. got @ [f])
         (new_Conn \<lparr>rd_data = wr_out (Conn_W a'), rd_err = EOF\<rparr> new_buffer None) [] =
       (err, b', take n [demo_frame [1], demo_frame [2, 3]]) \<and> Conn_IsClosed b' \<and> Conn_Closed b')"
proof -
  have "\<forall>f \<in> set [demo_frame [1], demo_frame [2, 3]]. frame_valid demo_proto f \<and> buf_free f new_bufpools"
    by (simp add: demo_frame_valid buf_free_def bufs_in_use_def new_bufpools_def make_chan_def
        bufLimit_def smallBufLimit_def)
  moreover have "wr_out (Conn_W demo_conn) = []" by (simp add: demo_conn_def new_Conn_def)
  ultimately show ?thesis
    using conn_fifo [OF new_bufpools_inv, of "[demo_frame [1], demo_frame [2, 3]]" demo_proto demo_conn new_buffer None]
    by (simp del: write_frames.simps add: numeral_2_eq_2)
qed

fun conn_closes :: "nat \<Rightarrow> Conn \<Rightarrow> go_error option list \<times> Conn" where
  "conn_closes 0 c = ([], c)"
| "conn_closes (Suc n) c =
     (case Conn_Close c of (e, c') \<Rightarrow> (case conn_closes n c' of (es, c2) \<Rightarrow> (e # es, c2)))"

lemma conn_closes_closed: "Conn_IsClosed c \<Longrightarrow> conn_closes n c = (replicate n None, c)"
  by (induction n) (simp_all add: Conn_Close_def)

text \<open>
  Closing: a connection made by \<open>NewTCPConn\<close> can be closed any number of times without a panic;
  the first call closes the network connection and returns its error, the others do nothing.
\<close>

theorem conn_close_once:
  assumes "NewTCPConn dial addr timeout = Inr c"
  shows "conn_closes (Suc n) c =
    (conn_close_err c # replicate n None, c\<lparr>Conn_Closedc := True, Conn_IsClosed := True\<rparr>)"
  using assms
  by (auto simp: NewTCPConn_def new_Conn_def Conn_Close_def close_signal_def conn_closes_closed
      split: sum.splits)

theorem conn_close_once_witness:
  "conn_closes 3 demo_conn = ([None, None, None], demo_conn\<lparr>Conn_Closedc := True, Conn_IsClosed := True\<rparr>)"
proof -
  let ?dial = "\<lambda>(a :: string) (t :: int). Inr (Conn_Rc demo_conn, Conn_W demo_conn, None)"
  have "NewTCPConn ?dial ''pulsar://localhost:6650'' 5 = Inr demo_conn"
    by (simp add: NewTCPConn_def demo_conn_def new_Conn_def)
  from conn_close_once [OF this, of 2] show ?thesis
    by (simp add: demo_conn_def new_Conn_def numeral_eq_Suc)
qed

end
