(* ===== verification/Endpoint.thy ===== *)
theory Endpoint
  imports Conn
begin

text \<open>
  Requests: the pattern every request of the client follows, and the connector, pinger and
  discoverer of \<^verbatim>\<open>core/conn/connector.go\<close>, \<^verbatim>\<open>core/srv/pinger.go\<close> and
  \<^verbatim>\<open>core/srv/discoverer.go\<close>. The objects of a client share the sender, the dispatcher and
  the request ids, which are the fields of \<open>endpoint\<close>. A method that blocks in a \<open>select\<close> takes
  an argument \<open>env\<close>: what the other goroutines do to the shared state until the select is left, and
  the case by which it is left. The refinement lemma shows that every request, in any
  environment, is a run of the dispatcher's step relation.
\<close>

section \<open>The shared state\<close>

record 's endpoint =
  ep_S :: 's
  ep_Dispatcher :: Dispatcher
  ep_ReqID :: MonotonicID

datatype wake = WakeCtx ctx_error | WakeResp Frame

definition ep_Next :: "('s, 'z) endpoint_scheme \<Rightarrow> u64 \<times> ('s, 'z) endpoint_scheme" where
  "ep_Next w = (case MonotonicID_Next (ep_ReqID w) of (i, r) \<Rightarrow> (i, w\<lparr>ep_ReqID := r\<rparr>))"

definition ep_send ::
    "'s CmdSender \<Rightarrow> BaseCommand \<Rightarrow> ('s, 'z) endpoint_scheme \<Rightarrow> go_error option \<times> ('s, 'z) endpoint_scheme" where
  "ep_send S cmd w = (case SendSimpleCmd S cmd (ep_S w) of (e, s) \<Rightarrow> (e, w\<lparr>ep_S := s\<rparr>))"

definition ep_disp :: "(Dispatcher \<Rightarrow> Dispatcher) \<Rightarrow> ('s, 'z) endpoint_scheme \<Rightarrow> ('s, 'z) endpoint_scheme" where
  "ep_disp f w = w\<lparr>ep_Dispatcher := f (ep_Dispatcher w)\<rparr>"

section \<open>The request pattern\<close>

text \<open>
  Register the key and defer the cancel; send the command; block in the \<open>select\<close>; handle the case
  that was chosen. \<open>env\<close> runs while the goroutine waits on its response channel.
\<close>

definition request ::
    "corr_key \<Rightarrow> (('s, 'z) endpoint_scheme \<Rightarrow> go_error option \<times> ('s, 'z) endpoint_scheme) \<Rightarrow>
     (('s, 'z) endpoint_scheme \<Rightarrow> ('s, 'z) endpoint_scheme \<times> 'k) \<Rightarrow>
     ('k \<Rightarrow> ('s, 'z) endpoint_scheme \<Rightarrow> (go_error + 'r) \<times> ('s, 'z) endpoint_scheme) \<Rightarrow>
     ('s, 'z) endpoint_scheme \<Rightarrow> (go_error + 'r) \<times> ('s, 'z) endpoint_scheme" where
  "request k send env handle w =
     (case disp_register k (ep_Dispatcher w) of
        (Inl err, d) \<Rightarrow> (Inl err, w\<lparr>ep_Dispatcher := d\<rparr>)
      | (Inr h, d) \<Rightarrow>
          (case send (w\<lparr>ep_Dispatcher := d\<rparr>) of
             (Some err, w1) \<Rightarrow> (Inl err, ep_disp (disp_cancel k h) w1)
           | (None, w1) \<Rightarrow>
               (case env (ep_disp (resp_await h) w1) of
                  (w2, wk) \<Rightarrow>
                    (case handle wk (ep_disp (resp_leave h) w2) of
                       (r, w3) \<Rightarrow> (r, ep_disp (disp_cancel k h) w3)))))"

section \<open>Connector\<close>

record AuthConfig =
  AuthConfig_AuthMethod :: string
  AuthConfig_AuthData :: "bytes option"

record Connector =
  Connector_AuthConfig :: AuthConfig

definition ProtoVersion :: i32 where
  "ProtoVersion = ProtocolVersion_int32 ProtocolVersion_v12"

definition ClientVersion :: string where
  "ClientVersion = ''pulsar-client-go''"

definition UndefRequestID :: u64 where
  "UndefRequestID = 2 ^ 64 - 1"

datatype connect_wake = ConnectCtx ctx_error | ConnectResp Frame | ConnectErr Frame

definition Connector_cmd :: "Connector \<Rightarrow> string \<Rightarrow> string \<Rightarrow> BaseCommand" where
  "Connector_cmd c authMethod proxyBrokerURL =
     (let connect0 = new_CommandConnect
            \<lparr>CommandConnect_ClientVersion := Some ClientVersion,
             CommandConnect_ProtocolVersion := Some ProtoVersion\<rparr>;
          connect1 = (if authMethod \<noteq> '''' then connect0\<lparr>CommandConnect_AuthMethodName := Some authMethod\<rparr>
                      else connect0);
          connect2 = (if proxyBrokerURL \<noteq> ''''
                      then connect1\<lparr>CommandConnect_ProxyToBrokerUrl := Some (TrimPrefix proxyBrokerURL ''pulsar://'')\<rparr>
                      else connect1);
          connect3 = (if AuthConfig_AuthMethod (Connector_AuthConfig c) \<noteq> ''''
                      then connect2\<lparr>CommandConnect_AuthMethodName := Some (AuthConfig_AuthMethod (Connector_AuthConfig c))\<rparr>
                      else connect2);
          connect4 = (if AuthConfig_AuthData (Connector_AuthConfig c) \<noteq> None
                      then connect3\<lparr>CommandConnect_AuthData := AuthConfig_AuthData (Connector_AuthConfig c)\<rparr>
                      else connect3)
      in new_BaseCommand\<lparr>BaseCommand_Type := Some BaseCommand_CONNECT, BaseCommand_Connect := Some connect4\<rparr>)"

text \<open>
  \<open>Connect\<close> registers twice, for the CONNECTED frame and for an ERROR frame with the undefined
  request id, and waits for either; the second registration is made inside the first.
\<close>

definition Connector_Connect ::
    "'s CmdSender \<Rightarrow> Connector \<Rightarrow>
     (('s, 'z) endpoint_scheme \<Rightarrow> ('s, 'z) endpoint_scheme \<times> connect_wake) \<Rightarrow> string \<Rightarrow> string \<Rightarrow>
     ('s, 'z) endpoint_scheme \<Rightarrow> (go_error + CommandConnected option) \<times> ('s, 'z) endpoint_scheme" where
  "Connector_Connect S c env authMethod proxyBrokerURL w =
     (case RegisterGlobal (ep_Dispatcher w) of
        (Inl err, d) \<Rightarrow> (Inl err, w\<lparr>ep_Dispatcher := d\<rparr>)
      | (Inr resp, d) \<Rightarrow>
          (case request (KReq UndefRequestID) (ep_send S (Connector_cmd c authMethod proxyBrokerURL))
             (\<lambda>w1. case env (ep_disp (resp_await resp) w1) of (w2, wk) \<Rightarrow> (ep_disp (resp_leave resp) w2, wk))
             (\<lambda>wk w1.
                ((case wk of
                    ConnectCtx e \<Rightarrow> Inl (ErrCtx e)
                  | ConnectResp connectedFrame \<Rightarrow> Inr (BaseCommand_GetConnected (Frame_BaseCmd connectedFrame))
                  | ConnectErr errFrame \<Rightarrow>
                      let err = BaseCommand_GetError (Frame_BaseCmd errFrame)
                      in Inl (ErrServer (CommandError_GetError err) (CommandError_GetMessage err))), w1))
             (w\<lparr>ep_Dispatcher := d\<rparr>) of
             (r, w1) \<Rightarrow> (r, ep_disp (cancelGlobal resp) w1)))"

section \<open>Pinger\<close>

definition Pinger_ping_cmd :: BaseCommand where
  "Pinger_ping_cmd =
     new_BaseCommand\<lparr>BaseCommand_Type := Some BaseCommand_PING, BaseCommand_Ping := Some CommandPing\<rparr>"

definition Pinger_Ping ::
    "'s CmdSender \<Rightarrow> (('s, 'z) endpoint_scheme \<Rightarrow> ('s, 'z) endpoint_scheme \<times> wake) \<Rightarrow>
     ('s, 'z) endpoint_scheme \<Rightarrow> (go_error + unit) \<times> ('s, 'z) endpoint_scheme" where
  "Pinger_Ping S env w =
     request KGlobal (ep_send S Pinger_ping_cmd) env
       (\<lambda>wk w1. ((case wk of WakeCtx e \<Rightarrow> Inl (ErrCtx e) | WakeResp _ \<Rightarrow> Inr ()), w1)) w"

definition Pinger_HandlePing ::
    "'s CmdSender \<Rightarrow> BaseCommand_Type \<Rightarrow> CommandPing option \<Rightarrow> ('s, 'z) endpoint_scheme \<Rightarrow>
     go_error option \<times> ('s, 'z) endpoint_scheme" where
  "Pinger_HandlePing S msgType msg w =
     ep_send S (new_BaseCommand\<lparr>BaseCommand_Type := Some BaseCommand_PONG,
       BaseCommand_Pong := Some CommandPong\<rparr>) w"

section \<open>Discoverer\<close>

definition Discoverer_metadata_cmd :: "u64 \<Rightarrow> string \<Rightarrow> BaseCommand" where
  "Discoverer_metadata_cmd requestID topic =
     new_BaseCommand\<lparr>BaseCommand_Type := Some BaseCommand_PARTITIONED_METADATA,
       BaseCommand_PartitionMetadata := Some (new_CommandPartitionedTopicMetadata
         \<lparr>CommandPartitionedTopicMetadata_RequestId := Some requestID,
          CommandPartitionedTopicMetadata_Topic := Some topic\<rparr>)\<rparr>"

definition Discoverer_PartitionedMetadata ::
    "'s CmdSender \<Rightarrow> (('s, 'z) endpoint_scheme \<Rightarrow> ('s, 'z) endpoint_scheme \<times> wake) \<Rightarrow> string \<Rightarrow>
     ('s, 'z) endpoint_scheme \<Rightarrow>
     (go_error + CommandPartitionedTopicMetadataResponse option) \<times> ('s, 'z) endpoint_scheme" where
  "Discoverer_PartitionedMetadata S env topic w =
     (case ep_Next w of (requestID, w0) \<Rightarrow>
        request (KReq requestID) (ep_send S (Discoverer_metadata_cmd requestID topic)) env
          (\<lambda>wk w1.
             ((case wk of
                 WakeCtx e \<Rightarrow> Inl (ErrCtx e)
               | WakeResp f \<Rightarrow> Inr (BaseCommand_GetPartitionMetadataResponse (Frame_BaseCmd f))), w1)) w0)"

definition Discoverer_lookup_cmd :: "u64 \<Rightarrow> string \<Rightarrow> bool \<Rightarrow> BaseCommand" where
  "Discoverer_lookup_cmd requestID topic authoritative =
     new_BaseCommand\<lparr>BaseCommand_Type := Some BaseCommand_LOOKUP,
       BaseCommand_LookupTopic := Some (new_CommandLookupTopic
         \<lparr>CommandLookupTopic_RequestId := Some requestID,
          CommandLookupTopic_Topic := Some topic,
          CommandLookupTopic_Authoritative := Some authoritative\<rparr>)\<rparr>"

definition Discoverer_LookupTopic ::
    "'s CmdSender \<Rightarrow> (('s, 'z) endpoint_scheme \<Rightarrow> ('s, 'z) endpoint_scheme \<times> wake) \<Rightarrow> string \<Rightarrow> bool \<Rightarrow>
     ('s, 'z) endpoint_scheme \<Rightarrow> (go_error + CommandLookupTopicResponse option) \<times> ('s, 'z) endpoint_scheme" where
  "Discoverer_LookupTopic S env topic authoritative w =
     (case ep_Next w of (requestID, w0) \<Rightarrow>
        request (KReq requestID) (ep_send S (Discoverer_lookup_cmd requestID topic authoritative)) env
          (\<lambda>wk w1.
             ((case wk of
                 WakeCtx e \<Rightarrow> Inl (ErrCtx e)
               | WakeResp f \<Rightarrow> Inr (BaseCommand_GetLookupTopicResponse (Frame_BaseCmd f))), w1)) w0)"

section \<open>Requests refine the dispatcher's step relation\<close>

text \<open>
  An environment follows the protocol if what it does to the dispatcher is a run of the step
  relation.
\<close>

definition env_runs :: "(('s, 'z) endpoint_scheme \<Rightarrow> ('s, 'z) endpoint_scheme \<times> 'k) \<Rightarrow> bool" where
  "env_runs env \<longleftrightarrow>
     (\<forall>w s. dreach s \<longrightarrow> ds_d s = ep_Dispatcher w \<longrightarrow>
        (\<exists>s'. dstep\<^sup>*\<^sup>* s s' \<and> ds_d s' = ep_Dispatcher (fst (env w))))"

lemma dstep_rtrancl_reach: "dstep\<^sup>*\<^sup>* s s' \<Longrightarrow> dreach s \<Longrightarrow> dreach s'"
  by (induction rule: rtranclp_induct) (auto intro: dreach.step)

lemma dstep_regs: "dstep s s' \<Longrightarrow> set (ds_regs s) \<subseteq> set (ds_regs s')"
  by (cases rule: dstep.cases) auto

lemma dsteps_regs: "dstep\<^sup>*\<^sup>* s s' \<Longrightarrow> set (ds_regs s) \<subseteq> set (ds_regs s')"
  by (induction rule: rtranclp_induct) (auto dest: dstep_regs)

text \<open>Leaving the select and cancelling are steps of the requester.\<close>

lemma leave_run: "dstep\<^sup>*\<^sup>* s (s\<lparr>ds_d := resp_leave h (ds_d s)\<rparr>)"
proof (cases "h \<in> set (disp_waiting (ds_d s))")
  case True
  then show ?thesis by (blast intro: dstep.leave r_into_rtranclp)
next
  case False
  then show ?thesis by (simp add: resp_leave_def removeAll_id)
qed

lemma leave_cancel_run:
  assumes "dreach s" "(k, h) \<in> set (ds_regs s)"
  shows "\<exists>s'. dstep\<^sup>*\<^sup>* s s' \<and> ds_d s' = disp_cancel k h (resp_leave h (ds_d s)) \<and> set (ds_regs s) \<subseteq> set (ds_regs s')"
proof -
  let ?s1 = "s\<lparr>ds_d := resp_leave h (ds_d s)\<rparr>"
  have d: "distinct (disp_waiting (ds_d s))"
    using dreach_inv [OF assms(1)] by (simp add: dinv_def regs_inv_def)
  have 2: "dstep ?s1 (?s1\<lparr>ds_d := disp_cancel k h (ds_d ?s1)\<rparr>)"
    by (rule dstep.cancel) (use assms(2) d in simp_all)
  have run: "dstep\<^sup>*\<^sup>* s (?s1\<lparr>ds_d := disp_cancel k h (ds_d ?s1)\<rparr>)"
    using rtranclp.rtrancl_into_rtrancl [OF leave_run 2] .
  show ?thesis
    by (rule exI [of _ "?s1\<lparr>ds_d := disp_cancel k h (ds_d ?s1)\<rparr>"]) (use run in simp)
qed

text \<open>
  A handle is released: it is in no table, nobody waits on it, and its \<open>Done\<close> channel is closed if
  the registration was made.
\<close>

definition released :: "nat \<Rightarrow> Dispatcher \<Rightarrow> bool" where
  "released h d \<longleftrightarrow>
     h \<notin> set (disp_waiting d) \<and> (\<forall>k a. disp_lookup k d = Some a \<longrightarrow> AsyncResp_Resp a \<noteq> h)"

lemma closed_released:
  assumes "dreach s" "h \<in> set (disp_closed (ds_d s))"
  shows "released h (ds_d s)"
  using dreach_inv [OF assms(1)] assms(2)
  by (auto simp: released_def dinv_def regs_inv_def table_inv_def)

lemma unused_released:
  assumes "dreach s" "disp_next (ds_d s) \<le> h"
  shows "released h (ds_d s)"
proof -
  have inv: "dinv s" by (rule dreach_inv [OF assms(1)])
  then have fresh: "h \<notin> ds_handles s" using assms(2) by (auto simp: dinv_def regs_inv_def)
  have "h \<notin> set (disp_waiting (ds_d s))"
    using inv fresh by (auto simp: dinv_def regs_inv_def)
  moreover have "AsyncResp_Resp a \<in> ds_handles s" if "disp_lookup k (ds_d s) = Some a" for k a
  proof -
    have "(k, AsyncResp_Resp a) \<in> set (ds_regs s)" using inv that by (simp add: dinv_def table_inv_def)
    then show ?thesis by (rule rev_image_eqI) simp
  qed
  ultimately show ?thesis using fresh unfolding released_def by metis
qed

lemmas fresh_released = unused_released [OF _ order_refl]

lemma released_cancel:
  assumes "released h d"
  shows "released h (disp_cancel k h' d)"
  using assms by (auto simp: released_def disp_cancel_lookup disp.cancel_chans_simps split: if_splits)

lemma released_next [simp]: "released h (d\<lparr>disp_next := n\<rparr>) = released h d"
  by (simp add: released_def)

lemma ep_disp_simps [simp]:
  "ep_Dispatcher (ep_disp f w) = f (ep_Dispatcher w)" "ep_S (ep_disp f w) = ep_S w"
  "ep_ReqID (ep_disp f w) = ep_ReqID w"
  by (simp_all add: ep_disp_def)

lemma ep_send_simps [simp]:
  "ep_Dispatcher (snd (ep_send S cmd w)) = ep_Dispatcher w" "ep_ReqID (snd (ep_send S cmd w)) = ep_ReqID w"
  by (simp_all add: ep_send_def split: prod.splits)

lemma ep_Next_simp [simp]:
  "ep_Next w = (MonotonicID_ID (ep_ReqID w), w\<lparr>ep_ReqID := (ep_ReqID w)\<lparr>MonotonicID_ID := MonotonicID_ID (ep_ReqID w) + 1\<rparr>\<rparr>)"
  by (simp add: ep_Next_def)

lemma register_run:
  assumes "dreach s" "disp_register k (ds_d s) = (Inr h, d)"
  defines "s1 \<equiv> s\<lparr>ds_d := resp_await h d, ds_regs := (k, h) # ds_regs s\<rparr>"
  shows "dstep s (s\<lparr>ds_d := d, ds_regs := (k, h) # ds_regs s\<rparr>)" "dstep\<^sup>*\<^sup>* s s1"
proof -
  let ?s0 = "s\<lparr>ds_d := d, ds_regs := (k, h) # ds_regs s\<rparr>"
  show 1: "dstep s ?s0" using assms(2) by (rule dstep.register)
  note r = disp_register_Inr [OF assms(2)]
  have inv: "dinv s" by (rule dreach_inv [OF assms(1)])
  note fresh = regs_inv_fresh [OF inv, folded r(1)]
  have "h \<notin> set (disp_waiting (ds_d s))" using inv fresh(1) by (auto simp: dinv_def regs_inv_def)
  then have "dstep ?s0 (?s0\<lparr>ds_d := resp_await h (ds_d ?s0)\<rparr>)"
    by (intro dstep.await) (use fresh r in simp_all)
  moreover have "?s0\<lparr>ds_d := resp_await h (ds_d ?s0)\<rparr> = s1" by (cases s) (simp add: s1_def)
  ultimately have "dstep ?s0 s1" by (simp only:)
  with 1 show "dstep\<^sup>*\<^sup>* s s1" by (rule converse_rtranclp_into_rtranclp [OF _ r_into_rtranclp])
qed

lemma request_run:
  assumes reach: "dreach s" "ds_d s = ep_Dispatcher w"
    and send: "\<And>w. ep_Dispatcher (snd (send w)) = ep_Dispatcher w"
    and handle: "\<And>wk w. ep_Dispatcher (snd (handle wk w)) = ep_Dispatcher w"
    and env: "\<And>s1 w1. dreach s1 \<Longrightarrow> ds_d s1 = ep_Dispatcher w1 \<Longrightarrow> set (ds_regs s) \<subseteq> set (ds_regs s1) \<Longrightarrow>
      disp_closed (ds_d s1) = disp_closed (ds_d s) \<Longrightarrow> disp_got (ds_d s1) = disp_got (ds_d s) \<Longrightarrow>
      set (disp_waiting (ds_d s1)) \<subseteq> insert (disp_next (ds_d s)) (set (disp_waiting (ds_d s))) \<Longrightarrow>
      \<exists>s2. dstep\<^sup>*\<^sup>* s1 s2 \<and> ds_d s2 = ep_Dispatcher (fst (env w1))"
  shows "\<exists>s'. dstep\<^sup>*\<^sup>* s s' \<and> ds_d s' = ep_Dispatcher (snd (request k send env handle w)) \<and>
    released (disp_next (ds_d s)) (ds_d s') \<and> set (ds_regs s) \<subseteq> set (ds_regs s') \<and>
    (\<forall>x. x \<notin> set (disp_waiting (ds_d s)) \<longrightarrow>
       (\<forall>w1. x \<notin> set (disp_waiting (ep_Dispatcher (fst (env w1))))) \<longrightarrow> x \<notin> set (disp_waiting (ds_d s')))"
proof (cases "disp_register k (ds_d s)")
  case (Pair res d)
  show ?thesis
  proof (cases res)
    case (Inl err)
    with Pair have reg: "disp_register k (ds_d s) = (Inl err, d)" by simp
    from dstep.register_busy [OF reg] have "dstep\<^sup>*\<^sup>* s (s\<lparr>ds_d := d\<rparr>)" by blast
    moreover have "released (disp_next (ds_d s)) d"
      unfolding disp_register_Inl [OF reg] using fresh_released [OF reach(1)] by simp
    ultimately show ?thesis
      using reg reach(2) disp_register_Inl [OF reg]
      by (intro exI [of _ "s\<lparr>ds_d := d\<rparr>"]) (simp add: request_def)
  next
    case (Inr h)
    with Pair have reg: "disp_register k (ds_d s) = (Inr h, d)" by simp
    note r = disp_register_Inr [OF reg] and run = register_run [OF reach(1) reg]
    have regs: "(k, h) \<in> set (ds_regs (s\<lparr>ds_d := x, ds_regs := (k, h) # ds_regs s\<rparr>))" for x by simp
    have fin: ?thesis if "dstep\<^sup>*\<^sup>* s t" "(k, h) \<in> set (ds_regs t)"
      "ep_Dispatcher (snd (request k send env handle w)) = disp_cancel k h (resp_leave h (ds_d t))"
      "set (disp_waiting (ds_d t)) \<subseteq> set (disp_waiting (ds_d s)) \<or> (\<exists>w1. ds_d t = ep_Dispatcher (fst (env w1)))" for t
    proof -
      have "dreach t" using dstep_rtrancl_reach [OF that(1) reach(1)] .
      from leave_cancel_run [OF this that(2)] obtain s' where
        s': "dstep\<^sup>*\<^sup>* t s'" "ds_d s' = disp_cancel k h (resp_leave h (ds_d t))" by blast
      have "dstep\<^sup>*\<^sup>* s s'" using that(1) s'(1) by (rule rtranclp_trans)
      moreover from this have "released h (ds_d s')"
        by (intro closed_released) (use reach(1) s'(2) in \<open>auto intro: dstep_rtrancl_reach simp: disp.cancel_chans_simps\<close>)
      moreover have "set (ds_regs s) \<subseteq> set (ds_regs s')" using calculation(1) by (rule dsteps_regs)
      moreover have "\<forall>x. x \<notin> set (disp_waiting (ds_d s)) \<longrightarrow>
         (\<forall>w1. x \<notin> set (disp_waiting (ep_Dispatcher (fst (env w1))))) \<longrightarrow> x \<notin> set (disp_waiting (ds_d s'))"
        using that(4) by (auto simp: s'(2) disp.cancel_chans_simps)
      ultimately show ?thesis using s'(2) that(3) r(1) by metis
    qed
    show ?thesis
    proof (cases "send (w\<lparr>ep_Dispatcher := d\<rparr>)")
      case (Pair e w1)
      have w1: "ep_Dispatcher w1 = d" using send [of "w\<lparr>ep_Dispatcher := d\<rparr>"] Pair by simp
      show ?thesis
      proof (cases e)
        case (Some x)
        have "h \<notin> set (disp_waiting d)"
          using fresh_released [OF reach(1)] r by (simp add: released_def)
        then have lv: "resp_leave h d = d" by (simp add: resp_leave_def removeAll_id)
        show ?thesis
          by (rule fin [of "s\<lparr>ds_d := d, ds_regs := (k, h) # ds_regs s\<rparr>"])
            (use run(1) reg reach(2) Pair Some w1 lv r(5) in \<open>simp_all add: request_def r_into_rtranclp\<close>)
      next
        case None
        let ?s1 = "s\<lparr>ds_d := resp_await h d, ds_regs := (k, h) # ds_regs s\<rparr>"
        let ?w1 = "ep_disp (resp_await h) w1"
        have "\<exists>s2. dstep\<^sup>*\<^sup>* ?s1 s2 \<and> ds_d s2 = ep_Dispatcher (fst (env ?w1))"
          by (rule env) (use dstep_rtrancl_reach [OF run(2) reach(1)] w1 r in auto)
        then obtain s2 where s2: "dstep\<^sup>*\<^sup>* ?s1 s2" "ds_d s2 = ep_Dispatcher (fst (env ?w1))" by blast
        have mem: "(k, h) \<in> set (ds_regs s2)" using dsteps_regs [OF s2(1)] by auto
        have res: "ep_Dispatcher (snd (request k send env handle w)) =
            disp_cancel k h (resp_leave h (ep_Dispatcher (fst (env ?w1))))"
        proof -
          obtain w2 wk where e: "env ?w1 = (w2, wk)" by fastforce
          obtain x w3 where h: "handle wk (ep_disp (resp_leave h) w2) = (x, w3)" by fastforce
          from handle [of wk "ep_disp (resp_leave h) w2"] h
          have "ep_Dispatcher w3 = resp_leave h (ep_Dispatcher w2)" by simp
          with reg reach(2) Pair None e h show ?thesis by (simp add: request_def)
        qed
        show ?thesis
          by (rule fin [OF rtranclp_trans [OF run(2) s2(1)] mem]) (use res s2(2) in auto)
      qed
    qed
  qed
qed

lemma env_runsD:
  "env_runs env \<Longrightarrow> dreach s \<Longrightarrow> ds_d s = ep_Dispatcher w \<Longrightarrow>
   \<exists>s'. dstep\<^sup>*\<^sup>* s s' \<and> ds_d s' = ep_Dispatcher (fst (env w))"
  by (simp add: env_runs_def)

lemma Connector_Connect_run:
  assumes "dreach s" "ds_d s = ep_Dispatcher w" "env_runs env"
  shows "\<exists>s'. dstep\<^sup>*\<^sup>* s s' \<and> ds_d s' = ep_Dispatcher (snd (Connector_Connect S c env am url w)) \<and>
    released (disp_next (ds_d s)) (ds_d s') \<and> released (Suc (disp_next (ds_d s))) (ds_d s')"
proof (cases "RegisterGlobal (ep_Dispatcher w)")
  case (Pair res d)
  show ?thesis
  proof (cases res)
    case (Inl err)
    with Pair assms(2) have reg: "disp_register KGlobal (ds_d s) = (Inl err, d)" by simp
    from dstep.register_busy [OF reg] have "dstep\<^sup>*\<^sup>* s (s\<lparr>ds_d := d\<rparr>)" by blast
    moreover have "released (disp_next (ds_d s)) d" "released (Suc (disp_next (ds_d s))) d"
      unfolding disp_register_Inl [OF reg] using unused_released [OF assms(1)] by simp_all
    ultimately show ?thesis
      using Pair Inl by (intro exI [of _ "s\<lparr>ds_d := d\<rparr>"]) (simp add: Connector_Connect_def)
  next
    case (Inr resp)
    with Pair assms(2) have reg: "disp_register KGlobal (ds_d s) = (Inr resp, d)" by simp
    note r = disp_register_Inr [OF reg]
    note fresh = regs_inv_fresh [OF dreach_inv [OF assms(1)], folded r(1)]
    have nw: "resp \<notin> set (disp_waiting (ds_d s))"
      using fresh_released [OF assms(1)] r(1) by (simp add: released_def)
    let ?s0 = "s\<lparr>ds_d := d, ds_regs := (KGlobal, resp) # ds_regs s\<rparr>"
    have s0: "dstep s ?s0" by (rule register_run(1) [OF assms(1) reg])
    then have reach0: "dreach ?s0" using assms(1) by (blast intro: dreach.step)
    let ?env = "\<lambda>w1. case env (ep_disp (resp_await resp) w1) of (w2, wk) \<Rightarrow> (ep_disp (resp_leave resp) w2, wk)"
    let ?handle = "\<lambda>wk w1. ((case wk of ConnectCtx e \<Rightarrow> Inl (ErrCtx e)
        | ConnectResp f \<Rightarrow> Inr (BaseCommand_GetConnected (Frame_BaseCmd f))
        | ConnectErr f \<Rightarrow> let err = BaseCommand_GetError (Frame_BaseCmd f)
            in Inl (ErrServer (CommandError_GetError err) (CommandError_GetMessage err))), w1)"
    let ?req = "request (KReq UndefRequestID) (ep_send S (Connector_cmd c am url)) ?env ?handle (w\<lparr>ep_Dispatcher := d\<rparr>)"
    have "\<exists>s'. dstep\<^sup>*\<^sup>* ?s0 s' \<and> ds_d s' = ep_Dispatcher (snd ?req) \<and>
      released (disp_next (ds_d ?s0)) (ds_d s') \<and> set (ds_regs ?s0) \<subseteq> set (ds_regs s') \<and>
      (\<forall>x. x \<notin> set (disp_waiting (ds_d ?s0)) \<longrightarrow>
         (\<forall>w1. x \<notin> set (disp_waiting (ep_Dispatcher (fst (?env w1))))) \<longrightarrow> x \<notin> set (disp_waiting (ds_d s')))"
    proof (rule request_run [OF reach0])
      fix s1 :: dstate and w1 :: "('a, 'b) endpoint_scheme"
      assume s1: "dreach s1" "ds_d s1 = ep_Dispatcher w1" "set (ds_regs ?s0) \<subseteq> set (ds_regs s1)"
        "disp_closed (ds_d s1) = disp_closed (ds_d ?s0)" "disp_got (ds_d s1) = disp_got (ds_d ?s0)"
        "set (disp_waiting (ds_d s1)) \<subseteq> insert (disp_next (ds_d ?s0)) (set (disp_waiting (ds_d ?s0)))"
      have "resp \<in> ds_handles s1" using s1(3) by (auto intro: rev_image_eqI)
      then have aw: "dstep s1 (s1\<lparr>ds_d := resp_await resp (ds_d s1)\<rparr>)"
        using s1(4-6) fresh nw r by (intro dstep.await) auto
      then have "dreach (s1\<lparr>ds_d := resp_await resp (ds_d s1)\<rparr>)" using s1(1) by (blast intro: dreach.step)
      from env_runsD [OF assms(3) this, of "ep_disp (resp_await resp) w1"] s1(2) obtain s2 where
        s2: "dstep\<^sup>*\<^sup>* (s1\<lparr>ds_d := resp_await resp (ds_d s1)\<rparr>) s2"
          "ds_d s2 = ep_Dispatcher (fst (env (ep_disp (resp_await resp) w1)))" by auto
      have run: "dstep\<^sup>*\<^sup>* s1 s2" using aw s2(1) by (rule converse_rtranclp_into_rtranclp)
      have "dstep\<^sup>*\<^sup>* s2 (s2\<lparr>ds_d := resp_leave resp (ds_d s2)\<rparr>)"
        by (rule leave_run)
      with run s2(2) show "\<exists>s'. dstep\<^sup>*\<^sup>* s1 s' \<and> ds_d s' = ep_Dispatcher (fst (?env w1))"
        by (intro exI [of _ "s2\<lparr>ds_d := resp_leave resp (ds_d s2)\<rparr>"]) (auto split: prod.splits)
    qed simp_all
    then obtain s' where s': "dstep\<^sup>*\<^sup>* ?s0 s'" "ds_d s' = ep_Dispatcher (snd ?req)"
      "(KGlobal, resp) \<in> set (ds_regs s')" "released (Suc resp) (ds_d s')"
      and w': "resp \<notin> set (disp_waiting (ds_d ?s0)) \<Longrightarrow>
        (\<forall>w1. resp \<notin> set (disp_waiting (ep_Dispatcher (fst (?env w1))))) \<Longrightarrow> resp \<notin> set (disp_waiting (ds_d s'))"
      using r by auto
    have "resp \<notin> set (disp_waiting (ds_d s'))"
      by (rule w') (use nw r in \<open>auto split: prod.splits\<close>)
    with s'(3) have fin: "dstep s' (s'\<lparr>ds_d := disp_cancel KGlobal resp (ds_d s')\<rparr>)" by (rule dstep.cancel)
    have run: "dstep\<^sup>*\<^sup>* s (s'\<lparr>ds_d := disp_cancel KGlobal resp (ds_d s')\<rparr>)"
      using converse_rtranclp_into_rtranclp [OF s0 s'(1)] fin by (rule rtranclp.rtrancl_into_rtrancl)
    have "released resp (ds_d (s'\<lparr>ds_d := disp_cancel KGlobal resp (ds_d s')\<rparr>))"
      by (rule closed_released) (use dstep_rtrancl_reach [OF run assms(1)] in
        \<open>simp_all add: disp.cancel_chans_simps [where k = KGlobal, simplified]\<close>)
    with run s'(2) r(1) Pair Inr released_cancel [OF s'(4), of KGlobal resp] show ?thesis
      by (intro exI [of _ "s'\<lparr>ds_d := disp_cancel KGlobal resp (ds_d s')\<rparr>"])
        (simp add: Connector_Connect_def split: prod.splits)
  qed
qed

text \<open>A notification that completes is a run as well: the entry is taken and the frame handed over.\<close>

lemma notify_run:
  assumes "dreach s" "disp_notify k frame (ds_d s) = Some (e, d)"
  shows "\<exists>s'. dstep\<^sup>*\<^sup>* s s' \<and> ds_d s' = d"
proof (cases "disp_lookup k (ds_d s)")
  case None
  let ?d1 = "snd (disp_take k (ds_d s))"
  have "disp_take k (ds_d s) = (None, ?d1)" using disp.fetch_fst [of k "ds_d s"] None by (metis prod.collapse)
  from dstep.take_none [OF this] have "dstep\<^sup>*\<^sup>* s (s\<lparr>ds_d := ?d1\<rparr>)" by blast
  moreover have "d = ?d1" using assms(2) disp.notify_None [OF None] by simp
  ultimately show ?thesis by (intro exI [of _ "s\<lparr>ds_d := ?d1\<rparr>"]) simp
next
  case (Some a)
  let ?d1 = "snd (disp_take k (ds_d s))" and ?n = "\<lparr>nf_key = k, nf_frame = frame, nf_resp = a\<rparr>"
  let ?s1 = "s\<lparr>ds_d := ?d1, ds_taken := (k, frame) # ds_taken s, ds_notifiers := ?n # ds_notifiers s\<rparr>"
  have "disp_take k (ds_d s) = (Some a, ?d1)" using disp.fetch_fst [of k "ds_d s"] Some by (metis prod.collapse)
  then have 1: "dstep s ?s1" by (rule dstep.take_some)
  have sel: "resp_select a frame (unexpected k frame) ?d1 = Some (e, d)"
    using assms(2) disp.notify_Some [OF Some] by simp
  have "\<exists>s2. dstep ?s1 s2 \<and> ds_d s2 = d"
  proof (cases e)
    case None
    with sel dstep.deliver [of ?n ?s1 d] show ?thesis by fastforce
  next
    case (Some x)
    with sel dstep.abandoned [of ?n ?s1 x d] show ?thesis by fastforce
  qed
  then obtain s2 where "dstep ?s1 s2" "ds_d s2 = d" by blast
  with 1 show ?thesis
    by (intro exI [of _ s2] conjI) (blast intro: converse_rtranclp_into_rtranclp)+
qed

text \<open>The two ways a request under a free key goes.\<close>

lemma request_cases:
  assumes "disp_lookup k (ep_Dispatcher w) = None" "request k send env handle w = (r, w')"
  obtains (failed) h d e w1 where "send (w\<lparr>ep_Dispatcher := d\<rparr>) = (Some e, w1)" "r = Inl e"
      "w' = ep_disp (disp_cancel k h) w1"
    | (answered) h d w1 w2 wk w3 where "send (w\<lparr>ep_Dispatcher := d\<rparr>) = (None, w1)"
      "env (ep_disp (resp_await h) w1) = (w2, wk)" "handle wk (ep_disp (resp_leave h) w2) = (r, w3)"
      "w' = ep_disp (disp_cancel k h) w3"
proof -
  obtain h d where reg: "disp_register k (ep_Dispatcher w) = (Inr h, d)"
    using disp.reg_free [OF assms(1)] by (metis prod.collapse)
  obtain e w1 where snd_eq: "send (w\<lparr>ep_Dispatcher := d\<rparr>) = (e, w1)" by fastforce
  show thesis
  proof (cases e)
    case None
    obtain w2 wk where env: "env (ep_disp (resp_await h) w1) = (w2, wk)" by fastforce
    obtain x w3 where h: "handle wk (ep_disp (resp_leave h) w2) = (x, w3)" by fastforce
    show thesis
      by (rule answered) (use assms(2) reg snd_eq None env h in \<open>auto simp: request_def\<close>)
  next
    case (Some err)
    show thesis
      by (rule failed) (use assms(2) reg snd_eq Some in \<open>auto simp: request_def\<close>)
  qed
qed

text \<open>What a request puts on the wire, over any sender.\<close>

context cmd_sender
begin

lemma request_sent:
  assumes "ok (ep_S w)" "valid (simple_frame cmd)" "disp_lookup k (ep_Dispatcher w) = None"
    and "\<And>w1. ep_S (fst (env w1)) = ep_S w1" "\<And>wk w1. ep_S (snd (handle wk w1)) = ep_S w1"
    and "request k (ep_send S cmd) env handle w = (r, w')"
  shows "(\<exists>w1 w2. sent (ep_S w') = sent (ep_S w) @ [simple_frame cmd] \<and> r = fst (handle (snd (env w1)) w2)) \<or>
    (\<exists>e s'. sent (ep_S w') = sent (ep_S w) \<and> r = Inl e \<and> SendSimpleCmd S cmd (ep_S w) = (Some e, s'))"
  using assms(3,6)
proof (cases rule: request_cases)
  case (failed h d e w1)
  then obtain s1 where s1: "SendSimpleCmd S cmd (ep_S w) = (Some e, s1)" "ep_S w' = s1"
    by (auto simp: ep_send_def split: prod.splits)
  with simple [OF assms(1,2) s1(1)] failed(2) show ?thesis by simp
next
  case (answered h d w1 w2 wk w3)
  then obtain s1 where s1: "SendSimpleCmd S cmd (ep_S w) = (None, s1)" "ep_S w1 = s1"
    by (auto simp: ep_send_def split: prod.splits)
  have "ep_S w' = s1"
    using assms(4) [of "ep_disp (resp_await h) w1"] assms(5) [of wk "ep_disp (resp_leave h) w2"] answered s1(2) by simp
  with simple [OF assms(1,2) s1(1)] answered(2,3) show ?thesis by (metis fst_conv snd_conv)
qed

end

section \<open>Properties\<close>

text \<open>
  The requests with a request id or for a PONG, with the dispatcher left by each.
\<close>

lemma request_run_env:
  assumes "dreach s" "ds_d s = ep_Dispatcher w" "env_runs env"
    and "\<And>w. ep_Dispatcher (snd (send w)) = ep_Dispatcher w"
    and "\<And>wk w. ep_Dispatcher (snd (handle wk w)) = ep_Dispatcher w"
  shows "\<exists>s'. dstep\<^sup>*\<^sup>* s s' \<and> ds_d s' = ep_Dispatcher (snd (request k send env handle w)) \<and>
    released (disp_next (ds_d s)) (ds_d s')"
  using request_run [OF assms(1,2), of send handle env k] assms(4,5) env_runsD [OF assms(3)] by blast

lemma Discoverer_LookupTopic_run:
  assumes "dreach s" "ds_d s = ep_Dispatcher w" "env_runs env"
  shows "\<exists>s'. dstep\<^sup>*\<^sup>* s s' \<and> ds_d s' = ep_Dispatcher (snd (Discoverer_LookupTopic S env topic auth w)) \<and>
    released (disp_next (ds_d s)) (ds_d s')"
  unfolding Discoverer_LookupTopic_def ep_Next_simp prod.case
  by (rule request_run_env) (use assms in simp_all)

lemma Discoverer_PartitionedMetadata_run:
  assumes "dreach s" "ds_d s = ep_Dispatcher w" "env_runs env"
  shows "\<exists>s'. dstep\<^sup>*\<^sup>* s s' \<and> ds_d s' = ep_Dispatcher (snd (Discoverer_PartitionedMetadata S env topic w)) \<and>
    released (disp_next (ds_d s)) (ds_d s')"
  unfolding Discoverer_PartitionedMetadata_def ep_Next_simp prod.case
  by (rule request_run_env) (use assms in simp_all)

lemma Pinger_Ping_run:
  assumes "dreach s" "ds_d s = ep_Dispatcher w" "env_runs env"
  shows "\<exists>s'. dstep\<^sup>*\<^sup>* s s' \<and> ds_d s' = ep_Dispatcher (snd (Pinger_Ping S env w)) \<and>
    released (disp_next (ds_d s)) (ds_d s')"
  unfolding Pinger_Ping_def by (rule request_run_env) (use assms in simp_all)

text \<open>
  C19. Topic lookup, partition lookup and ping, run in any environment that keeps to the
  dispatcher's protocol, are themselves runs of that protocol, whatever their outcome; and when they
  return, by whichever path, their registration is released: no table holds it and nobody waits on
  it.
\<close>

theorem requests_refine_dispatcher:
  assumes "dreach s" "ds_d s = ep_Dispatcher w" "env_runs env"
  shows "\<forall>w' \<in> {snd (Discoverer_LookupTopic S env topic authoritative w),
      snd (Discoverer_PartitionedMetadata S env topic w), snd (Pinger_Ping S env w)}.
    \<exists>s'. dstep\<^sup>*\<^sup>* s s' \<and> ds_d s' = ep_Dispatcher w' \<and> released (disp_next (ds_d s)) (ep_Dispatcher w')"
  using Discoverer_LookupTopic_run [OF assms] Discoverer_PartitionedMetadata_run [OF assms]
    Pinger_Ping_run [OF assms] by simp metis

definition demo_ep :: "MockSender endpoint" where
  "demo_ep = \<lparr>ep_S = \<lparr>MockSender_Frames = [], MockSender_Closedc = False\<rparr>, ep_Dispatcher = NewFrameDispatcher,
     ep_ReqID = \<lparr>MonotonicID_ID = 0\<rparr>\<rparr>"

text \<open>An environment that answers the request with id 0 and, should that block, lets it time out.\<close>

definition demo_env :: "MockSender endpoint \<Rightarrow> MockSender endpoint \<times> wake" where
  "demo_env w =
     (case NotifyReqID 0 (demo_frame []) (ep_Dispatcher w) of
        Some (None, d) \<Rightarrow> (w\<lparr>ep_Dispatcher := d\<rparr>, WakeResp (demo_frame []))
      | _ \<Rightarrow> (w, WakeCtx DeadlineExceeded))"

lemma demo_env_runs: "env_runs demo_env"
  unfolding env_runs_def
proof (intro allI impI)
  fix w :: "MockSender endpoint" and s
  assume s: "dreach s" "ds_d s = ep_Dispatcher w"
  show "\<exists>s'. dstep\<^sup>*\<^sup>* s s' \<and> ds_d s' = ep_Dispatcher (fst (demo_env w))"
  proof (cases "\<exists>d. NotifyReqID 0 (demo_frame []) (ep_Dispatcher w) = Some (None, d)")
    case True
    then obtain d where "disp_notify (KReq 0) (demo_frame []) (ds_d s) = Some (None, d)" using s(2) by auto
    with notify_run [OF s(1) this] s(2) show ?thesis by (auto simp: demo_env_def)
  next
    case False
    then have "fst (demo_env w) = w" by (auto simp: demo_env_def split: option.splits)
    with s(2) show ?thesis by auto
  qed
qed

theorem requests_refine_dispatcher_witness:
  "\<exists>s'. dstep\<^sup>*\<^sup>* dstate_init s' \<and>
     ds_d s' = ep_Dispatcher (snd (Discoverer_LookupTopic mock_sender demo_env ''t'' False demo_ep)) \<and>
     released 0 (ep_Dispatcher (snd (Discoverer_LookupTopic mock_sender demo_env ''t'' False demo_ep)))"
  using requests_refine_dispatcher [OF dreach.init _ demo_env_runs, of demo_ep mock_sender "''t''" False]
  by (simp add: demo_ep_def dstate_init_def NewFrameDispatcher_def)

text \<open>
  C39. Connect, which registers for two different answers, also is a run of the dispatcher's protocol
  in any environment that keeps to it, and releases both its registrations on every path: the one for
  the CONNECTED frame, whose handle is the next one the dispatcher gives out, and the one for an
  ERROR with the undefined request id, whose handle is the one after it.
\<close>

theorem connect_refines_dispatcher:
  assumes "dreach s" "ds_d s = ep_Dispatcher w" "env_runs env"
  shows "\<exists>s'. dstep\<^sup>*\<^sup>* s s' \<and> ds_d s' = ep_Dispatcher (snd (Connector_Connect S c env authMethod proxyBrokerURL w)) \<and>
    released (disp_next (ds_d s)) (ds_d s') \<and> released (disp_next (ds_d s) + 1) (ds_d s')"
  unfolding Suc_eq_plus1 [symmetric] using assms by (rule Connector_Connect_run)

definition demo_connect_env :: "MockSender endpoint \<Rightarrow> MockSender endpoint \<times> connect_wake" where
  "demo_connect_env w = (w, ConnectCtx DeadlineExceeded)"

theorem connect_refines_dispatcher_witness:
  "\<exists>s'. dstep\<^sup>*\<^sup>* dstate_init s' \<and>
     ds_d s' = ep_Dispatcher (snd (Connector_Connect mock_sender
       \<lparr>Connector_AuthConfig = \<lparr>AuthConfig_AuthMethod = '''', AuthConfig_AuthData = None\<rparr>\<rparr>
       demo_connect_env '''' '''' demo_ep)) \<and> released 0 (ds_d s') \<and> released 1 (ds_d s')"
proof -
  have "env_runs demo_connect_env" by (auto simp: env_runs_def demo_connect_env_def)
  from connect_refines_dispatcher [OF dreach.init _ this, of demo_ep] show ?thesis
    by (simp add: demo_ep_def dstate_init_def NewFrameDispatcher_def)
qed

text \<open>
  A topic lookup over a connection whose request id is free: exactly one LOOKUP frame with that
  id, the topic and the authoritative flag reaches the peer and the result is the response of the
  frame that ended the wait, or the error of the context if that ended it; or the write failed,
  nothing readable was added, and its error is returned.
\<close>

theorem lookup_over_conn:
  fixes w :: "(Conn, 'z) endpoint_scheme"
  assumes "conn_ok pc (ep_S w)" "requestID = MonotonicID_ID (ep_ReqID w)"
    and "frame_valid pc (simple_frame (Discoverer_lookup_cmd requestID topic authoritative))"
    and "Dispatcher_ReqIDs (ep_Dispatcher w) requestID = None"
    and "\<And>w1. ep_S (fst (env w1)) = ep_S w1"
    and "Discoverer_LookupTopic (conn_sender pc) env topic authoritative w = (r, w')"
  shows "(conn_sent pc (ep_S w') =
        conn_sent pc (ep_S w) @ [simple_frame (Discoverer_lookup_cmd requestID topic authoritative)] \<and>
      (\<exists>w1. r = (case snd (env w1) of
         WakeCtx e \<Rightarrow> Inl (ErrCtx e)
       | WakeResp f \<Rightarrow> Inr (BaseCommand_GetLookupTopicResponse (Frame_BaseCmd f))))) \<or>
    (conn_sent pc (ep_S w') = conn_sent pc (ep_S w) \<and>
      (\<exists>e c. r = Inl e \<and> Conn_SendSimpleCmd pc (Discoverer_lookup_cmd requestID topic authoritative) (ep_S w) = (Some e, c)))"
proof -
  let ?w0 = "snd (ep_Next w)"
  let ?handle = "\<lambda>wk w1 :: (Conn, 'z) endpoint_scheme. ((case wk of WakeCtx e \<Rightarrow> Inl (ErrCtx e)
      | WakeResp f \<Rightarrow> Inr (BaseCommand_GetLookupTopicResponse (Frame_BaseCmd f))), w1)"
  have "request (KReq requestID) (ep_send (conn_sender pc) (Discoverer_lookup_cmd requestID topic authoritative))
      env ?handle ?w0 = (r, w')"
    using assms(2,6) by (simp add: Discoverer_LookupTopic_def)
  then have "(\<exists>w1 w2. conn_sent pc (ep_S w') =
        conn_sent pc (ep_S ?w0) @ [simple_frame (Discoverer_lookup_cmd requestID topic authoritative)] \<and>
        r = fst (?handle (snd (env w1)) w2)) \<or>
      (\<exists>e s'. conn_sent pc (ep_S w') = conn_sent pc (ep_S ?w0) \<and> r = Inl e \<and>
        SendSimpleCmd (conn_sender pc) (Discoverer_lookup_cmd requestID topic authoritative) (ep_S ?w0) = (Some e, s'))"
    by (rule conn.request_sent [rotated 5]) (use assms(1,3-5) in simp_all)
  then show ?thesis by (auto simp: conn_sender_def)
qed

text \<open>The demonstration codec, for one further command.\<close>

definition cmd_proto :: "BaseCommand \<Rightarrow> bytes \<Rightarrow> proto" where
  "cmd_proto cmd bs = demo_proto\<lparr>
     Marshal_BaseCommand := (\<lambda>c. if c = Some cmd then Inr bs else Inl (ErrProto ''unsupported'')),
     Unmarshal_BaseCommand := (\<lambda>b. if b = bs then (cmd, None) else (new_BaseCommand, Some (ErrProto ''unsupported'')))\<rparr>"

lemma cmd_proto_valid: "length bs < 1000 \<Longrightarrow> frame_valid (cmd_proto cmd bs) (simple_frame cmd)"
  by (simp add: frame_valid_def simple_frame_def cmd_proto_def proto_cmd_ok_def encoded_size_def)

definition demo_lookup_proto :: proto where
  "demo_lookup_proto = cmd_proto (Discoverer_lookup_cmd 0 ''t'' False) [8, 23, 186, 1, 7, 10, 1, 116, 16, 0, 24, 0]"

definition demo_lookup_ep :: "Conn endpoint" where
  "demo_lookup_ep = \<lparr>ep_S = demo_conn, ep_Dispatcher = NewFrameDispatcher, ep_ReqID = \<lparr>MonotonicID_ID = 0\<rparr>\<rparr>"

definition demo_lookup :: "(go_error + CommandLookupTopicResponse option) \<times> Conn endpoint" where
  "demo_lookup = Discoverer_LookupTopic (conn_sender demo_lookup_proto)
     (\<lambda>w. (w, WakeCtx DeadlineExceeded)) ''t'' False demo_lookup_ep"

theorem lookup_over_conn_witness:
  "(conn_sent demo_lookup_proto (ep_S (snd demo_lookup)) =
      conn_sent demo_lookup_proto demo_conn @ [simple_frame (Discoverer_lookup_cmd 0 ''t'' False)] \<and>
    fst demo_lookup = Inl (ErrCtx DeadlineExceeded)) \<or>
   (conn_sent demo_lookup_proto (ep_S (snd demo_lookup)) = conn_sent demo_lookup_proto demo_conn \<and>
    (\<exists>e c. fst demo_lookup = Inl e \<and>
      Conn_SendSimpleCmd demo_lookup_proto (Discoverer_lookup_cmd 0 ''t'' False) demo_conn = (Some e, c)))"
proof -
  have ok: "conn_ok demo_lookup_proto (ep_S demo_lookup_ep)"
    unfolding conn_ok_def by (intro exI [of _ "[]"]) (simp add: demo_lookup_ep_def demo_conn_def new_Conn_def)
  have valid: "frame_valid demo_lookup_proto (simple_frame (Discoverer_lookup_cmd 0 ''t'' False))"
    unfolding demo_lookup_proto_def by (rule cmd_proto_valid) simp
  have ep: "ep_S demo_lookup_ep = demo_conn" "0 = MonotonicID_ID (ep_ReqID demo_lookup_ep)"
    "Dispatcher_ReqIDs (ep_Dispatcher demo_lookup_ep) 0 = None"
    by (simp_all add: demo_lookup_ep_def NewFrameDispatcher_def)
  show ?thesis
    using lookup_over_conn [OF ok ep(2) valid ep(3), of "\<lambda>w. (w, WakeCtx DeadlineExceeded)"
        "fst demo_lookup" "snd demo_lookup"]
    unfolding demo_lookup_def [symmetric] ep(1) by simp
qed

end
