(* ===== verification/Producer.thy ===== *)
theory Producer
  imports Endpoint
begin

text \<open>
  The producer of \<^verbatim>\<open>core/pub/producer.go\<close>. Producers are shared by reference (between their
  user, the subscriptions of the client and the managed producer), so the state holds them in a
  store, \<open>st_Producers\<close>, and a method takes the index of its receiver. The channel \<open>Closedc\<close> is
  its closed flag. The clock and the trace hook, which is user code, are arguments.
\<close>

section \<open>State\<close>

record Producer =
  Producer_ProducerID :: u64
  Producer_ProducerName :: string
  Producer_SeqID :: MonotonicID
  Producer_IsClosed :: bool
  Producer_Closedc :: bool
  Producer_traceHook :: "(MessageMetadata \<Rightarrow> bytes \<Rightarrow> MessageMetadata \<times> bytes) option"

record 's pub_state = "'s endpoint" +
  st_Producers :: "Producer list"

definition NewProducer :: "u64 \<Rightarrow> Producer" where
  "NewProducer producerID =
     \<lparr>Producer_ProducerID = producerID, Producer_ProducerName = '''', Producer_SeqID = \<lparr>MonotonicID_ID = 0\<rparr>,
      Producer_IsClosed = False, Producer_Closedc = False, Producer_traceHook = None\<rparr>"

abbreviation the_Producer :: "nat \<Rightarrow> ('s, 'z) pub_state_scheme \<Rightarrow> Producer" where
  "the_Producer p w \<equiv> st_Producers w ! p"

definition upd_Producer ::
    "nat \<Rightarrow> (Producer \<Rightarrow> Producer) \<Rightarrow> ('s, 'z) pub_state_scheme \<Rightarrow> ('s, 'z) pub_state_scheme" where
  "upd_Producer p f w = w\<lparr>st_Producers := (st_Producers w)[p := f (the_Producer p w)]\<rparr>"

definition Producer_AddTraceHook ::
    "(MessageMetadata \<Rightarrow> bytes \<Rightarrow> MessageMetadata \<times> bytes) \<Rightarrow> nat \<Rightarrow>
     ('s, 'z) pub_state_scheme \<Rightarrow> ('s, 'z) pub_state_scheme" where
  "Producer_AddTraceHook th p w = upd_Producer p (\<lambda>x. x\<lparr>Producer_traceHook := Some th\<rparr>) w"

section \<open>Send\<close>

datatype send_wake = SendCtx ctx_error | SendClosed | SendResp Frame

definition Producer_send_cmd :: "u64 \<Rightarrow> u64 \<Rightarrow> BaseCommand" where
  "Producer_send_cmd producerID sequenceID =
     new_BaseCommand\<lparr>BaseCommand_Type := Some BaseCommand_SEND,
       BaseCommand_Send := Some (new_CommandSend
         \<lparr>CommandSend_ProducerId := Some producerID, CommandSend_SequenceId := Some sequenceID,
          CommandSend_NumMessages := Some 1\<rparr>)\<rparr>"

definition Producer_metadata :: "i64 \<Rightarrow> string \<Rightarrow> u64 \<Rightarrow> MessageMetadata" where
  "Producer_metadata unixTime producerName sequenceID =
     new_MessageMetadata\<lparr>MessageMetadata_SequenceId := Some sequenceID,
       MessageMetadata_ProducerName := Some producerName,
       MessageMetadata_PublishTime := Some (unixTime * 1000),
       MessageMetadata_Compression := Some CompressionType_NONE\<rparr>"

definition Producer_send_frame ::
    "'s CmdSender \<Rightarrow> i64 \<Rightarrow> Producer \<Rightarrow> u64 \<Rightarrow> bytes \<Rightarrow> ('s, 'z) endpoint_scheme \<Rightarrow>
     go_error option \<times> ('s, 'z) endpoint_scheme" where
  "Producer_send_frame S unixTime x sequenceID payload w =
     (let metadata = Producer_metadata unixTime (Producer_ProducerName x) sequenceID;
          (m, pl) = (case Producer_traceHook x of None \<Rightarrow> (metadata, payload) | Some th \<Rightarrow> th metadata payload)
      in case SendPayloadCmd S (Producer_send_cmd (Producer_ProducerID x) sequenceID) m pl (ep_S w) of
           (e, s) \<Rightarrow> (e, w\<lparr>ep_S := s\<rparr>))"

definition Producer_send_result :: "u64 \<Rightarrow> u64 \<Rightarrow> send_wake \<Rightarrow> go_error + CommandSendReceipt option" where
  "Producer_send_result producerID sequenceID wk =
     (case wk of
        SendCtx e \<Rightarrow> Inl (ErrCtx e)
      | SendClosed \<Rightarrow> Inl ErrClosedProducer
      | SendResp f \<Rightarrow>
          let msgType = BaseCommand_GetType (Frame_BaseCmd f) in
          if msgType = BaseCommand_SEND_RECEIPT then Inr (BaseCommand_GetSendReceipt (Frame_BaseCmd f))
          else if msgType = BaseCommand_SEND_ERROR
          then (let errMsg = BaseCommand_GetSendError (Frame_BaseCmd f)
                in Inl (ErrServer (CommandSendError_GetError errMsg) (CommandSendError_GetMessage errMsg)))
          else Inl (NewUnexpectedErrMsg msgType [producerID, sequenceID]))"

definition Producer_Send ::
    "'s CmdSender \<Rightarrow> i64 \<Rightarrow> (('s, 'z) pub_state_scheme \<Rightarrow> ('s, 'z) pub_state_scheme \<times> send_wake) \<Rightarrow>
     nat \<Rightarrow> bytes \<Rightarrow> ('s, 'z) pub_state_scheme \<Rightarrow>
     (go_error + CommandSendReceipt option) \<times> ('s, 'z) pub_state_scheme" where
  "Producer_Send S unixTime env p payload w =
     (if Producer_IsClosed (the_Producer p w) then (Inl ErrClosedProducer, w)
      else
        (case MonotonicID_Next (Producer_SeqID (the_Producer p w)) of
           (sequenceID, seq) \<Rightarrow>
             let w0 = upd_Producer p (\<lambda>x. x\<lparr>Producer_SeqID := seq\<rparr>) w; x = the_Producer p w0
             in request (KProdSeq (Producer_ProducerID x) sequenceID)
                  (Producer_send_frame S unixTime x sequenceID payload) env
                  (\<lambda>wk w1. (Producer_send_result (Producer_ProducerID x) sequenceID wk, w1)) w0))"

section \<open>Closing\<close>

definition Producer_Closed :: "nat \<Rightarrow> ('s, 'z) pub_state_scheme \<Rightarrow> bool" where
  "Producer_Closed p w = Producer_Closedc (the_Producer p w)"

definition Producer_ConnClosed :: "'s CmdSender \<Rightarrow> ('s, 'z) pub_state_scheme \<Rightarrow> bool" where
  "Producer_ConnClosed S w = Closed S (ep_S w)"

text \<open>Set the flag and close the channel, in this order; closing a closed channel panics.\<close>

definition Producer_set_closed ::
    "nat \<Rightarrow> ('s, 'z) pub_state_scheme \<Rightarrow> (go_error + unit) \<times> ('s, 'z) pub_state_scheme" where
  "Producer_set_closed p w =
     (let w1 = upd_Producer p (\<lambda>x. x\<lparr>Producer_IsClosed := True\<rparr>) w in
      case close_signal (Producer_Closedc (the_Producer p w1)) of
        Inl panic \<Rightarrow> (Inl panic, w1)
      | Inr cl \<Rightarrow> (Inr (), upd_Producer p (\<lambda>x. x\<lparr>Producer_Closedc := cl\<rparr>) w1))"

definition Producer_close_cmd :: "u64 \<Rightarrow> u64 \<Rightarrow> BaseCommand" where
  "Producer_close_cmd requestID producerID =
     new_BaseCommand\<lparr>BaseCommand_Type := Some BaseCommand_CLOSE_PRODUCER,
       BaseCommand_CloseProducer := Some (new_CommandCloseProducer
         \<lparr>CommandCloseProducer_RequestId := Some requestID,
          CommandCloseProducer_ProducerId := Some producerID\<rparr>)\<rparr>"

text \<open>\<open>Close\<close> holds the producer's lock while it waits, so \<open>env\<close> cannot close this producer.\<close>

definition Producer_Close ::
    "'s CmdSender \<Rightarrow> (('s, 'z) pub_state_scheme \<Rightarrow> ('s, 'z) pub_state_scheme \<times> wake) \<Rightarrow>
     nat \<Rightarrow> ('s, 'z) pub_state_scheme \<Rightarrow> (go_error + unit) \<times> ('s, 'z) pub_state_scheme" where
  "Producer_Close S env p w =
     (if Producer_IsClosed (the_Producer p w) then (Inr (), w)
      else
        (case ep_Next w of (requestID, w0) \<Rightarrow>
           request (KReq requestID)
             (ep_send S (Producer_close_cmd requestID (Producer_ProducerID (the_Producer p w0)))) env
             (\<lambda>wk w1. (case wk of
                WakeCtx e \<Rightarrow> (Inl (ErrCtx e), w1)
              | WakeResp _ \<Rightarrow> Producer_set_closed p w1)) w0))"

definition Producer_HandleCloseProducer ::
    "nat \<Rightarrow> Frame \<Rightarrow> ('s, 'z) pub_state_scheme \<Rightarrow> (go_error + unit) \<times> ('s, 'z) pub_state_scheme" where
  "Producer_HandleCloseProducer p f w =
     (if Producer_IsClosed (the_Producer p w) then (Inr (), w) else Producer_set_closed p w)"

section \<open>Lemmas\<close>

lemma upd_Producer_simps [simp]:
  "ep_Dispatcher (upd_Producer p f w) = ep_Dispatcher w" "ep_S (upd_Producer p f w) = ep_S w"
  "ep_ReqID (upd_Producer p f w) = ep_ReqID w" "length (st_Producers (upd_Producer p f w)) = length (st_Producers w)"
  "p < length (st_Producers w) \<Longrightarrow> the_Producer p (upd_Producer p f w) = f (the_Producer p w)"
  "q \<noteq> p \<Longrightarrow> the_Producer q (upd_Producer p f w) = the_Producer q w"
  by (simp_all add: upd_Producer_def)

lemma st_Producers_ep_disp [simp]: "st_Producers (ep_disp f w) = st_Producers w"
  by (simp add: ep_disp_def)

lemma st_Producers_ep_send [simp]: "st_Producers (snd (ep_send S cmd w)) = st_Producers w"
  by (simp add: ep_send_def split: prod.splits)

lemma Producer_send_frame_simps [simp]:
  "ep_Dispatcher (snd (Producer_send_frame S t x sq pl w)) = ep_Dispatcher w"
  "st_Producers (snd (Producer_send_frame S t x sq pl w')) = st_Producers w'"
  by (simp_all add: Producer_send_frame_def Let_def split: prod.splits)

lemma Producer_set_closed_disp [simp]: "ep_Dispatcher (snd (Producer_set_closed p w)) = ep_Dispatcher w"
  by (simp add: Producer_set_closed_def Let_def split: sum.splits)

definition producer_inv :: "Producer \<Rightarrow> bool" where
  "producer_inv x \<longleftrightarrow> Producer_Closedc x = Producer_IsClosed x"

lemma producer_inv_new [simp]: "producer_inv (NewProducer i)"
  by (simp add: producer_inv_def NewProducer_def)

lemma Producer_set_closed_ok:
  assumes "p < length (st_Producers w)" "\<not> Producer_Closedc (the_Producer p w)"
  shows "fst (Producer_set_closed p w) = Inr ()"
    "Producer_IsClosed (the_Producer p (snd (Producer_set_closed p w)))"
    "producer_inv (the_Producer p (snd (Producer_set_closed p w)))"
  using assms by (simp_all add: Producer_set_closed_def close_signal_def producer_inv_def Let_def)

text \<open>
  The contract of an operation that closes a channel at most once: the first call succeeds and
  closes it, every other call succeeds and does nothing.
\<close>

locale close_once =
  fixes closed :: "'w \<Rightarrow> bool"
    and inv :: "'w \<Rightarrow> bool"
    and close_op :: "'w \<Rightarrow> (go_error + unit) \<times> 'w"
  assumes again: "inv w \<Longrightarrow> closed w \<Longrightarrow> close_op w = (Inr (), w)"
    and first: "inv w \<Longrightarrow> \<not> closed w \<Longrightarrow>
      fst (close_op w) = Inr () \<and> closed (snd (close_op w)) \<and> inv (snd (close_op w))"
begin

lemma one: "inv w \<Longrightarrow> fst (close_op w) = Inr () \<and> closed (snd (close_op w)) \<and> inv (snd (close_op w))"
  using again first by (cases "closed w") auto

lemma many: "inv w \<Longrightarrow> ((\<lambda>w. snd (close_op w)) ^^ Suc n) w = snd (close_op w)"
proof (induction n)
  case (Suc n)
  then have "((\<lambda>w. snd (close_op w)) ^^ Suc (Suc n)) w = snd (close_op (snd (close_op w)))" by simp
  also have "\<dots> = snd (close_op w)" using one [OF Suc.prems] again by simp
  finally show ?case .
qed simp

end

interpretation producer_handle: close_once "\<lambda>w. Producer_IsClosed (the_Producer p w)"
  "\<lambda>w. p < length (st_Producers w) \<and> producer_inv (the_Producer p w)" "Producer_HandleCloseProducer p f"
proof
  fix w :: "('a, 'b) pub_state_scheme"
  assume "p < length (st_Producers w) \<and> producer_inv (the_Producer p w)" "\<not> Producer_IsClosed (the_Producer p w)"
  then show "fst (Producer_HandleCloseProducer p f w) = Inr () \<and>
      Producer_IsClosed (the_Producer p (snd (Producer_HandleCloseProducer p f w))) \<and>
      p < length (st_Producers (snd (Producer_HandleCloseProducer p f w))) \<and>
      producer_inv (the_Producer p (snd (Producer_HandleCloseProducer p f w)))"
    using Producer_set_closed_ok [of p w]
    by (auto simp: Producer_HandleCloseProducer_def Producer_set_closed_def producer_inv_def Let_def split: sum.splits)
qed (simp add: Producer_HandleCloseProducer_def)

text \<open>What another goroutine cannot do to a producer whose lock is held.\<close>

definition env_keeps_closed ::
    "nat \<Rightarrow> (('s, 'z) pub_state_scheme \<Rightarrow> ('s, 'z) pub_state_scheme \<times> 'k) \<Rightarrow> bool" where
  "env_keeps_closed p env \<longleftrightarrow>
     (\<forall>w. length (st_Producers w) \<le> length (st_Producers (fst (env w))) \<and>
        Producer_IsClosed (the_Producer p (fst (env w))) = Producer_IsClosed (the_Producer p w) \<and>
        Producer_Closedc (the_Producer p (fst (env w))) = Producer_Closedc (the_Producer p w))"

lemma Producer_Close_cases:
  assumes "p < length (st_Producers w)" "producer_inv (the_Producer p w)" "env_keeps_closed p env"
    and "Dispatcher_ReqIDs (ep_Dispatcher w) (MonotonicID_ID (ep_ReqID w)) = None"
    and "Producer_Close S env p w = (r, w')"
  shows "(r = Inr () \<longleftrightarrow> Producer_IsClosed (the_Producer p w')) \<and> producer_inv (the_Producer p w')"
proof (cases "Producer_IsClosed (the_Producer p w)")
  case True
  with assms(2,5) show ?thesis by (simp add: Producer_Close_def)
next
  case False
  let ?w0 = "snd (ep_Next w)" and ?k = "KReq (MonotonicID_ID (ep_ReqID w))"
  let ?send = "ep_send S (Producer_close_cmd (MonotonicID_ID (ep_ReqID w)) (Producer_ProducerID (the_Producer p ?w0)))"
  let ?handle = "\<lambda>wk w1. (case wk of WakeCtx e \<Rightarrow> (Inl (ErrCtx e), w1) | WakeResp _ \<Rightarrow> Producer_set_closed p w1)"
  have "disp_lookup ?k (ep_Dispatcher ?w0) = None" using assms(4) by simp
  moreover have "request ?k ?send env ?handle ?w0 = (r, w')"
    using assms(5) False by (simp add: Producer_Close_def)
  ultimately show ?thesis
  proof (cases rule: request_cases)
    case (failed h d e w1)
    then have "st_Producers w' = st_Producers w" by (auto simp: ep_send_def split: prod.splits)
    with failed(2) False assms(2) show ?thesis by simp
  next
    case (answered h d w1 w2 wk w3)
    have "st_Producers w1 = st_Producers w" using answered(1) by (auto simp: ep_send_def split: prod.splits)
    with answered(2) assms(1,2,3) False have w2: "p < length (st_Producers w2)"
      "\<not> Producer_IsClosed (the_Producer p w2)" "\<not> Producer_Closedc (the_Producer p w2)"
      unfolding env_keeps_closed_def producer_inv_def
      by (metis fst_conv order_less_le_trans st_Producers_ep_disp)+
    show ?thesis
    proof (cases wk)
      case (WakeCtx e)
      with answered w2 show ?thesis by (auto simp: producer_inv_def)
    next
      case (WakeResp f)
      with answered Producer_set_closed_ok [of p "ep_disp (resp_leave h) w2"] w2 show ?thesis by auto
    qed
  qed
qed

section \<open>Properties\<close>

text \<open>
  Closing a producer. While \<open>Close\<close> runs the others leave the producer's closed flag alone, as
  its lock enforces. Then \<open>Close\<close> returns nil exactly if the producer is closed afterwards, and
  never closes its channel twice; \<open>HandleCloseProducer\<close> always succeeds and leaves it closed; and
  on a closed producer \<open>Send\<close> fails without sending anything, and both closing operations do nothing.
\<close>

theorem producer_close:
  assumes "p < length (st_Producers w)" "producer_inv (the_Producer p w)" "env_keeps_closed p env"
    and "Dispatcher_ReqIDs (ep_Dispatcher w) (MonotonicID_ID (ep_ReqID w)) = None"
    and "w' \<in> {snd (Producer_Close S env p w), snd (Producer_HandleCloseProducer p f w)}"
  shows "(fst (Producer_Close S env p w) = Inr () \<longleftrightarrow> Producer_IsClosed (the_Producer p (snd (Producer_Close S env p w)))) \<and>
    fst (Producer_HandleCloseProducer p f w) = Inr () \<and>
    Producer_IsClosed (the_Producer p (snd (Producer_HandleCloseProducer p f w))) \<and>
    producer_inv (the_Producer p w') \<and>
    (Producer_IsClosed (the_Producer p w') \<longrightarrow>
       Producer_Send S t env' p payload w' = (Inl ErrClosedProducer, w') \<and>
       Producer_Close S env p w' = (Inr (), w') \<and> Producer_HandleCloseProducer p f w' = (Inr (), w'))"
proof -
  have cl: "(fst (Producer_Close S env p w) = Inr () \<longleftrightarrow>
      Producer_IsClosed (the_Producer p (snd (Producer_Close S env p w)))) \<and>
      producer_inv (the_Producer p (snd (Producer_Close S env p w)))"
    using Producer_Close_cases [OF assms(1-4)] by (metis prod.collapse)
  have h: "fst (Producer_HandleCloseProducer p f w) = Inr ()"
    "Producer_IsClosed (the_Producer p (snd (Producer_HandleCloseProducer p f w)))"
    "producer_inv (the_Producer p (snd (Producer_HandleCloseProducer p f w)))"
    using producer_handle.one [of p w f] assms(1,2) by simp_all
  have "producer_inv (the_Producer p w')" using assms(5) cl h(3) by blast
  with cl h show ?thesis
    by (simp add: Producer_Send_def Producer_Close_def Producer_HandleCloseProducer_def)
qed

definition demo_pub :: "MockSender pub_state" where
  "demo_pub = \<lparr>ep_S = \<lparr>MockSender_Frames = [], MockSender_Closedc = False\<rparr>, ep_Dispatcher = NewFrameDispatcher,
     ep_ReqID = \<lparr>MonotonicID_ID = 0\<rparr>, st_Producers = [NewProducer 0]\<rparr>"

lemma demo_pub_simps [simp]:
  "st_Producers demo_pub = [NewProducer 0]" "ep_Dispatcher demo_pub = NewFrameDispatcher"
  "ep_ReqID demo_pub = \<lparr>MonotonicID_ID = 0\<rparr>" "Dispatcher_ReqIDs NewFrameDispatcher r = None"
  "Dispatcher_ProdSeqIDs NewFrameDispatcher k = None"
  by (simp_all add: demo_pub_def NewFrameDispatcher_def)

lemma env_keeps_closed_id [simp]: "env_keeps_closed p (\<lambda>w. (w, k))"
  by (simp add: env_keeps_closed_def)

theorem producer_close_witness:
  "fst (Producer_HandleCloseProducer 0 (demo_frame []) demo_pub) = Inr () \<and>
   Producer_Send mock_sender 0 (\<lambda>w. (w, SendClosed)) 0 [1] (snd (Producer_HandleCloseProducer 0 (demo_frame []) demo_pub)) =
     (Inl ErrClosedProducer, snd (Producer_HandleCloseProducer 0 (demo_frame []) demo_pub))"
  using producer_close [of 0 demo_pub "\<lambda>w. (w, WakeResp (demo_frame []))"
      "snd (Producer_HandleCloseProducer 0 (demo_frame []) demo_pub)" mock_sender "demo_frame []" 0
      "\<lambda>w. (w, SendClosed)" "[1]"]
  by simp

text \<open>
  Sending over a connection. An open producer uses its next sequence id, whatever the outcome.
  If that id is free and the trace hook is unset, then exactly one SEND frame with the producer id,
  that sequence id and the payload reaches the peer, and the result is decided by how the wait ended:
  the receipt of a SEND_RECEIPT frame, the server's error, the context's error, or
  \<open>ErrClosedProducer\<close>; or the write failed, nothing readable was added, and its error is returned.
\<close>

theorem producer_send:
  fixes w :: "(Conn, 'z) pub_state_scheme"
  assumes "x = the_Producer p w" "p < length (st_Producers w)" "\<not> Producer_IsClosed x"
    and "Producer_traceHook x = None" "sq = MonotonicID_ID (Producer_SeqID x)"
    and "disp_lookup (KProdSeq (Producer_ProducerID x) sq) (ep_Dispatcher w) = None" "conn_ok pc (ep_S w)"
    and "frame_valid pc (payload_frame (Producer_send_cmd (Producer_ProducerID x) sq)
      (Producer_metadata t (Producer_ProducerName x) sq) payload)"
    and "\<And>w1. ep_S (fst (env w1)) = ep_S w1 \<and> st_Producers (fst (env w1)) = st_Producers w1"
    and "Producer_Send (conn_sender pc) t env p payload w = (r, w')"
  shows "Producer_SeqID (the_Producer p w') = \<lparr>MonotonicID_ID = sq + 1\<rparr> \<and>
    ((conn_sent pc (ep_S w') = conn_sent pc (ep_S w) @
        [payload_frame (Producer_send_cmd (Producer_ProducerID x) sq)
          (Producer_metadata t (Producer_ProducerName x) sq) payload] \<and>
      (\<exists>w1. r = Producer_send_result (Producer_ProducerID x) sq (snd (env w1)))) \<or>
     (conn_sent pc (ep_S w') = conn_sent pc (ep_S w) \<and> (\<exists>e. r = Inl e)))"
proof -
  let ?w0 = "upd_Producer p (\<lambda>x. x\<lparr>Producer_SeqID := \<lparr>MonotonicID_ID = sq + 1\<rparr>\<rparr>) w"
  let ?x = "the_Producer p ?w0" and ?k = "KProdSeq (Producer_ProducerID x) sq"
  let ?cmd = "Producer_send_cmd (Producer_ProducerID x) sq" and ?m = "Producer_metadata t (Producer_ProducerName x) sq"
  let ?send = "Producer_send_frame (conn_sender pc) t ?x sq payload"
  let ?handle = "\<lambda>wk w1. (Producer_send_result (Producer_ProducerID x) sq wk, w1)"
  have seq: "MonotonicID_Next (Producer_SeqID x) = (sq, \<lparr>MonotonicID_ID = sq + 1\<rparr>)"
    using assms(5) by (cases "Producer_SeqID x") simp
  have x: "?x = x\<lparr>Producer_SeqID := \<lparr>MonotonicID_ID = sq + 1\<rparr>\<rparr>" using assms(1,2) by simp
  have send: "?send v = (case SendPayloadCmd (conn_sender pc) ?cmd ?m payload (ep_S v) of (e, s) \<Rightarrow> (e, v\<lparr>ep_S := s\<rparr>))"
    for v :: "(Conn, 'z) pub_state_scheme"
    unfolding x using assms(4) by (simp add: Producer_send_frame_def)
  have "disp_lookup ?k (ep_Dispatcher ?w0) = None" using assms(6) by simp
  moreover have "request ?k ?send env ?handle ?w0 = (r, w')"
    using assms(10) unfolding Producer_Send_def Let_def assms(1) [symmetric] if_not_P [OF assms(3)] seq prod.case
    by (simp add: x)
  ultimately show ?thesis
  proof (cases rule: request_cases)
    case (failed h d e w1)
    then obtain s1 where s1: "SendPayloadCmd (conn_sender pc) ?cmd ?m payload (ep_S w) = (Some e, s1)"
      "ep_S w' = s1" "st_Producers w' = st_Producers ?w0"
      unfolding send by (auto split: prod.splits)
    with conn.payload [OF assms(7,8) s1(1)] failed(2) x show ?thesis by simp
  next
    case (answered h d w1 w2 wk w3)
    then obtain s1 where s1: "SendPayloadCmd (conn_sender pc) ?cmd ?m payload (ep_S w) = (None, s1)"
      "ep_S w1 = s1" "st_Producers w1 = st_Producers ?w0"
      unfolding send by (auto split: prod.splits)
    have "ep_S w' = s1" "st_Producers w' = st_Producers ?w0"
      using assms(9) [of "ep_disp (resp_await h) w1"] answered(2,3,4) s1(2,3) by auto
    moreover have "wk = snd (env (ep_disp (resp_await h) w1))" using answered(2) by simp
    ultimately show ?thesis using conn.payload [OF assms(7,8) s1(1)] answered(3) x by auto
  qed
qed

definition demo_send_proto :: proto where
  "demo_send_proto = (cmd_proto (Producer_send_cmd 0 0) [8, 6, 50, 6, 8, 0, 16, 0, 24, 1])\<lparr>
     Marshal_MessageMetadata := (\<lambda>m. if m = Producer_metadata 0 [] 0 then Inr [10, 0, 16, 0, 24, 0, 64, 0]
        else Inl (ErrProto ''unsupported'')),
     Unmarshal_MessageMetadata := (\<lambda>b. if b = [10, 0, 16, 0, 24, 0, 64, 0] then (Producer_metadata 0 [] 0, None)
        else (new_MessageMetadata, Some (ErrProto ''unsupported'')))\<rparr>"

definition demo_conn_pub :: "Conn pub_state" where
  "demo_conn_pub = \<lparr>ep_S = demo_conn, ep_Dispatcher = NewFrameDispatcher,
     ep_ReqID = \<lparr>MonotonicID_ID = 0\<rparr>, st_Producers = [NewProducer 0]\<rparr>"

definition demo_send :: "(go_error + CommandSendReceipt option) \<times> Conn pub_state" where
  "demo_send = Producer_Send (conn_sender demo_send_proto) 0 (\<lambda>w. (w, SendClosed)) 0 [7] demo_conn_pub"

theorem producer_send_witness:
  "Producer_SeqID (the_Producer 0 (snd demo_send)) = \<lparr>MonotonicID_ID = 1\<rparr> \<and>
   ((conn_sent demo_send_proto (ep_S (snd demo_send)) = conn_sent demo_send_proto demo_conn @
        [payload_frame (Producer_send_cmd 0 0) (Producer_metadata 0 [] 0) [7]] \<and>
      fst demo_send = Inl ErrClosedProducer) \<or>
    (conn_sent demo_send_proto (ep_S (snd demo_send)) = conn_sent demo_send_proto demo_conn \<and>
      (\<exists>e. fst demo_send = Inl e)))"
proof -
  have ok: "conn_ok demo_send_proto (ep_S demo_conn_pub)"
    unfolding conn_ok_def by (intro exI [of _ "[]"]) (simp add: demo_conn_pub_def demo_conn_def new_Conn_def)
  have valid: "frame_valid demo_send_proto
      (payload_frame (Producer_send_cmd 0 0) (Producer_metadata 0 [] 0) [7])"
    by (simp add: frame_valid_def payload_frame_def demo_send_proto_def cmd_proto_def proto_cmd_ok_def
        proto_meta_ok_def encoded_size_def)
  show ?thesis
    using producer_send [of "NewProducer 0" demo_conn_pub 0 0 demo_send_proto 0 "[7]" "\<lambda>w. (w, SendClosed)"
        "fst demo_send" "snd demo_send"] ok valid
    by (simp add: NewProducer_def demo_conn_pub_def demo_send_def Producer_send_result_def)
qed

text \<open>
  Sending and closing a producer, in any environment that keeps to the dispatcher's protocol, are
  runs of that protocol, and release their registration on every path.
\<close>

theorem producer_refines_dispatcher:
  assumes "dreach s" "ds_d s = ep_Dispatcher w" "env_runs env" "env_runs env'"
  shows "\<forall>w' \<in> {snd (Producer_Send S t env p payload w), snd (Producer_Close S env' p w)}.
    \<exists>s'. dstep\<^sup>*\<^sup>* s s' \<and> ds_d s' = ep_Dispatcher w' \<and> released (disp_next (ds_d s)) (ep_Dispatcher w')"
proof -
  have send: "\<exists>s'. dstep\<^sup>*\<^sup>* s s' \<and> ds_d s' = ep_Dispatcher (snd (Producer_Send S t env p payload w)) \<and>
      released (disp_next (ds_d s)) (ds_d s')"
  proof (cases "Producer_IsClosed (the_Producer p w)")
    case True
    with assms(1,2) fresh_released [OF assms(1)] show ?thesis by (intro exI [of _ s]) (simp add: Producer_Send_def)
  next
    case False
    then show ?thesis
      unfolding Producer_Send_def Let_def MonotonicID_Next_simp prod.case if_not_P [OF False]
      by (intro request_run_env) (use assms in simp_all)
  qed
  have close: "\<exists>s'. dstep\<^sup>*\<^sup>* s s' \<and> ds_d s' = ep_Dispatcher (snd (Producer_Close S env' p w)) \<and>
      released (disp_next (ds_d s)) (ds_d s')"
  proof (cases "Producer_IsClosed (the_Producer p w)")
    case True
    with assms(1,2) fresh_released [OF assms(1)] show ?thesis by (intro exI [of _ s]) (simp add: Producer_Close_def)
  next
    case False
    then show ?thesis
      unfolding Producer_Close_def ep_Next_simp prod.case if_not_P [OF False]
      by (intro request_run_env) (use assms in \<open>simp_all split: wake.split\<close>)
  qed
  from send close show ?thesis by auto
qed

theorem producer_refines_dispatcher_witness:
  "\<exists>s'. dstep\<^sup>*\<^sup>* dstate_init s' \<and>
     ds_d s' = ep_Dispatcher (snd (Producer_Send mock_sender 0 (\<lambda>w. (w, SendClosed)) 0 [1] demo_pub))"
proof -
  have "env_runs (\<lambda>w :: MockSender pub_state. (w, SendClosed))"
    "env_runs (\<lambda>w :: MockSender pub_state. (w, WakeCtx Canceled))"
    by (auto simp: env_runs_def)
  from producer_refines_dispatcher [OF dreach.init _ this, of demo_pub mock_sender 0 0 "[1]"] show ?thesis
    by (simp add: dstate_init_def) blast
qed

end
