(* ===== verification/Consumer.thy ===== *)
theory Consumer
  imports Producer
begin

text \<open>
  The consumer of \<^verbatim>\<open>core/sub/consumer.go\<close>. Consumers and their message queues are shared by
  reference (between their user, the subscriptions of the client and the managed consumer), so the
  state holds them in stores and a method takes the index of its receiver; several consumers may have
  the same queue. The lemmas account for every message a consumer handles: it is in the queue, in
  order, or its id is in the overflow, once.
\<close>

section \<open>State\<close>

record Consumer =
  Consumer_Topic :: string
  Consumer_ConsumerID :: u64
  Consumer_Queue :: nat
  Consumer_Overflow :: "MessageIdData option list"
  Consumer_OverflowSignal :: "unit chan"
  Consumer_IsClosed :: bool
  Consumer_Closedc :: bool
  Consumer_IsEndOfTopic :: bool
  Consumer_EndOfTopicc :: bool
  Consumer_Unactive :: bool

record 's sub_state = "'s pub_state" +
  st_Consumers :: "Consumer list"
  st_Queues :: "Message chan list"

definition newConsumer :: "string \<Rightarrow> u64 \<Rightarrow> nat \<Rightarrow> Consumer" where
  "newConsumer topic consumerID queue =
     \<lparr>Consumer_Topic = topic, Consumer_ConsumerID = consumerID, Consumer_Queue = queue,
      Consumer_Overflow = [], Consumer_OverflowSignal = make_chan 0,
      Consumer_IsClosed = False, Consumer_Closedc = False,
      Consumer_IsEndOfTopic = False, Consumer_EndOfTopicc = False, Consumer_Unactive = False\<rparr>"

definition maxRedeliverUnacknowledged :: nat where
  "maxRedeliverUnacknowledged = 1000"

abbreviation the_Consumer :: "nat \<Rightarrow> ('s, 'z) sub_state_scheme \<Rightarrow> Consumer" where
  "the_Consumer c w \<equiv> st_Consumers w ! c"

definition upd_Consumer ::
    "nat \<Rightarrow> (Consumer \<Rightarrow> Consumer) \<Rightarrow> ('s, 'z) sub_state_scheme \<Rightarrow> ('s, 'z) sub_state_scheme" where
  "upd_Consumer c f w = w\<lparr>st_Consumers := (st_Consumers w)[c := f (the_Consumer c w)]\<rparr>"

definition Consumer_Messages :: "nat \<Rightarrow> ('s, 'z) sub_state_scheme \<Rightarrow> Message chan" where
  "Consumer_Messages c w = st_Queues w ! Consumer_Queue (the_Consumer c w)"

section \<open>Acknowledgement and flow\<close>

definition Consumer_ack_cmd :: "u64 \<Rightarrow> MessageIdData option \<Rightarrow> BaseCommand" where
  "Consumer_ack_cmd consumerID mid =
     new_BaseCommand\<lparr>BaseCommand_Type := Some BaseCommand_ACK,
       BaseCommand_Ack := Some (new_CommandAck
         \<lparr>CommandAck_ConsumerId := Some consumerID, CommandAck_MessageId := [mid],
          CommandAck_AckType := Some CommandAck_Individual\<rparr>)\<rparr>"

definition Consumer_Ack ::
    "'s CmdSender \<Rightarrow> Message \<Rightarrow> nat \<Rightarrow> ('s, 'z) sub_state_scheme \<Rightarrow> go_error option \<times> ('s, 'z) sub_state_scheme" where
  "Consumer_Ack S msg c w =
     ep_send S (Consumer_ack_cmd (Consumer_ConsumerID (the_Consumer c w))
       (CommandMessage_GetMessageId (Message_Msg msg))) w"

definition Consumer_flow_cmd :: "u64 \<Rightarrow> u32 \<Rightarrow> BaseCommand" where
  "Consumer_flow_cmd consumerID permits =
     new_BaseCommand\<lparr>BaseCommand_Type := Some BaseCommand_FLOW,
       BaseCommand_Flow := Some (new_CommandFlow
         \<lparr>CommandFlow_ConsumerId := Some consumerID, CommandFlow_MessagePermits := Some permits\<rparr>)\<rparr>"

definition Consumer_Flow ::
    "'s CmdSender \<Rightarrow> u32 \<Rightarrow> nat \<Rightarrow> ('s, 'z) sub_state_scheme \<Rightarrow> go_error option \<times> ('s, 'z) sub_state_scheme" where
  "Consumer_Flow S permits c w =
     (if permits \<le> 0 then (Some (ErrPermits permits), w)
      else ep_send S (Consumer_flow_cmd (Consumer_ConsumerID (the_Consumer c w)) permits) w)"

section \<open>Closing\<close>

definition Consumer_Closed :: "nat \<Rightarrow> ('s, 'z) sub_state_scheme \<Rightarrow> bool" where
  "Consumer_Closed c w = Consumer_Closedc (the_Consumer c w)"

definition Consumer_ConnClosed :: "'s CmdSender \<Rightarrow> ('s, 'z) sub_state_scheme \<Rightarrow> bool" where
  "Consumer_ConnClosed S w = Closed S (ep_S w)"

definition Consumer_set_closed ::
    "nat \<Rightarrow> ('s, 'z) sub_state_scheme \<Rightarrow> (go_error + unit) \<times> ('s, 'z) sub_state_scheme" where
  "Consumer_set_closed c w =
     (let w1 = upd_Consumer c (\<lambda>x. x\<lparr>Consumer_IsClosed := True\<rparr>) w in
      case close_signal (Consumer_Closedc (the_Consumer c w1)) of
        Inl panic \<Rightarrow> (Inl panic, w1)
      | Inr cl \<Rightarrow> (Inr (), upd_Consumer c (\<lambda>x. x\<lparr>Consumer_Closedc := cl\<rparr>) w1))"

definition Consumer_close_cmd :: "u64 \<Rightarrow> u64 \<Rightarrow> BaseCommand" where
  "Consumer_close_cmd requestID consumerID =
     new_BaseCommand\<lparr>BaseCommand_Type := Some BaseCommand_CLOSE_CONSUMER,
       BaseCommand_CloseConsumer := Some (new_CommandCloseConsumer
         \<lparr>CommandCloseConsumer_RequestId := Some requestID,
          CommandCloseConsumer_ConsumerId := Some consumerID\<rparr>)\<rparr>"

definition Consumer_Close ::
    "'s CmdSender \<Rightarrow> (('s, 'z) sub_state_scheme \<Rightarrow> ('s, 'z) sub_state_scheme \<times> wake) \<Rightarrow>
     nat \<Rightarrow> ('s, 'z) sub_state_scheme \<Rightarrow> (go_error + unit) \<times> ('s, 'z) sub_state_scheme" where
  "Consumer_Close S env c w =
     (if Consumer_IsClosed (the_Consumer c w) then (Inr (), w)
      else
        (case ep_Next w of (requestID, w0) \<Rightarrow>
           request (KReq requestID)
             (ep_send S (Consumer_close_cmd requestID (Consumer_ConsumerID (the_Consumer c w0)))) env
             (\<lambda>wk w1. (case wk of
                WakeCtx e \<Rightarrow> (Inl (ErrCtx e), w1)
              | WakeResp _ \<Rightarrow> Consumer_set_closed c w1)) w0))"

definition Consumer_unsubscribe_cmd :: "u64 \<Rightarrow> u64 \<Rightarrow> BaseCommand" where
  "Consumer_unsubscribe_cmd requestID consumerID =
     new_BaseCommand\<lparr>BaseCommand_Type := Some BaseCommand_UNSUBSCRIBE,
       BaseCommand_Unsubscribe := Some (new_CommandUnsubscribe
         \<lparr>CommandUnsubscribe_RequestId := Some requestID,
          CommandUnsubscribe_ConsumerId := Some consumerID\<rparr>)\<rparr>"

definition Consumer_Unsubscribe ::
    "'s CmdSender \<Rightarrow> (('s, 'z) sub_state_scheme \<Rightarrow> ('s, 'z) sub_state_scheme \<times> wake) \<Rightarrow>
     nat \<Rightarrow> ('s, 'z) sub_state_scheme \<Rightarrow> (go_error + unit) \<times> ('s, 'z) sub_state_scheme" where
  "Consumer_Unsubscribe S env c w =
     (case ep_Next w of (requestID, w0) \<Rightarrow>
        request (KReq requestID)
          (ep_send S (Consumer_unsubscribe_cmd requestID (Consumer_ConsumerID (the_Consumer c w0)))) env
          (\<lambda>wk w1. ((case wk of WakeCtx e \<Rightarrow> Inl (ErrCtx e) | WakeResp _ \<Rightarrow> Inr ()), w1)) w0)"

definition Consumer_HandleCloseConsumer ::
    "nat \<Rightarrow> Frame \<Rightarrow> ('s, 'z) sub_state_scheme \<Rightarrow> (go_error + unit) \<times> ('s, 'z) sub_state_scheme" where
  "Consumer_HandleCloseConsumer c f w =
     (if Consumer_IsClosed (the_Consumer c w) then (Inr (), w) else Consumer_set_closed c w)"

definition Consumer_ReachedEndOfTopic :: "nat \<Rightarrow> ('s, 'z) sub_state_scheme \<Rightarrow> bool" where
  "Consumer_ReachedEndOfTopic c w = Consumer_EndOfTopicc (the_Consumer c w)"

definition Consumer_HandleReachedEndOfTopic ::
    "nat \<Rightarrow> Frame \<Rightarrow> ('s, 'z) sub_state_scheme \<Rightarrow> (go_error + unit) \<times> ('s, 'z) sub_state_scheme" where
  "Consumer_HandleReachedEndOfTopic c f w =
     (if Consumer_IsEndOfTopic (the_Consumer c w) then (Inr (), w)
      else
        (let w1 = upd_Consumer c (\<lambda>x. x\<lparr>Consumer_IsEndOfTopic := True\<rparr>) w in
         case close_signal (Consumer_EndOfTopicc (the_Consumer c w1)) of
           Inl panic \<Rightarrow> (Inl panic, w1)
         | Inr cl \<Rightarrow> (Inr (), upd_Consumer c (\<lambda>x. x\<lparr>Consumer_EndOfTopicc := cl\<rparr>) w1)))"

section \<open>Redelivery\<close>

definition Consumer_redeliver_cmd :: "u64 \<Rightarrow> MessageIdData option list \<Rightarrow> BaseCommand" where
  "Consumer_redeliver_cmd consumerID mids =
     new_BaseCommand\<lparr>BaseCommand_Type := Some BaseCommand_REDELIVER_UNACKNOWLEDGED_MESSAGES,
       BaseCommand_RedeliverUnacknowledgedMessages := Some (new_CommandRedeliverUnacknowledgedMessages
         \<lparr>CommandRedeliverUnacknowledgedMessages_ConsumerId := Some consumerID,
          CommandRedeliverUnacknowledgedMessages_MessageIds := mids\<rparr>)\<rparr>"

definition Consumer_RedeliverUnacknowledged ::
    "'s CmdSender \<Rightarrow> nat \<Rightarrow> ('s, 'z) sub_state_scheme \<Rightarrow> go_error option \<times> ('s, 'z) sub_state_scheme" where
  "Consumer_RedeliverUnacknowledged S c w =
     (case ep_send S (Consumer_redeliver_cmd (Consumer_ConsumerID (the_Consumer c w)) []) w of
        (Some err, w1) \<Rightarrow> (Some err, w1)
      | (None, w1) \<Rightarrow> (None, upd_Consumer c (\<lambda>x. x\<lparr>Consumer_Overflow := []\<rparr>) w1))"

text \<open>The loop of \<open>RedeliverOverflow\<close>, from index \<open>i\<close> of the slice on.\<close>

function redeliver_loop ::
    "'s CmdSender \<Rightarrow> u64 \<Rightarrow> MessageIdData option list \<Rightarrow> nat \<Rightarrow> ('s, 'z) endpoint_scheme \<Rightarrow>
     go_error option \<times> ('s, 'z) endpoint_scheme" where
  "redeliver_loop S consumerID overflow i w =
     (if i < length overflow
      then
        (let end = min (i + maxRedeliverUnacknowledged) (length overflow) in
         case ep_send S (Consumer_redeliver_cmd consumerID (take (end - i) (drop i overflow))) w of
           (Some err, w1) \<Rightarrow> (Some err, w1)
         | (None, w1) \<Rightarrow> redeliver_loop S consumerID overflow (i + maxRedeliverUnacknowledged) w1)
      else (None, w))"
  by pat_completeness auto
termination
  by (relation "measure (\<lambda>(_, _, overflow, i, _). length overflow - i)") (auto simp: maxRedeliverUnacknowledged_def)

declare redeliver_loop.simps [simp del]

definition Consumer_RedeliverOverflow ::
    "'s CmdSender \<Rightarrow> nat \<Rightarrow> ('s, 'z) sub_state_scheme \<Rightarrow> (nat \<times> go_error option) \<times> ('s, 'z) sub_state_scheme" where
  "Consumer_RedeliverOverflow S c w =
     (let overflow = Consumer_Overflow (the_Consumer c w); l = length overflow in
      if l = 0 then ((l, None), w)
      else
        (case redeliver_loop S (Consumer_ConsumerID (the_Consumer c w)) overflow 0 w of
           (Some err, w1) \<Rightarrow> ((0, Some err), w1)
         | (None, w1) \<Rightarrow> ((l, None), upd_Consumer c (\<lambda>x. x\<lparr>Consumer_Overflow := []\<rparr>) w1)))"

section \<open>Received messages\<close>

definition Consumer_message :: "Consumer \<Rightarrow> Frame \<Rightarrow> Message" where
  "Consumer_message x f =
     \<lparr>Message_Topic = Consumer_Topic x, Message_ConsumerID = Consumer_ConsumerID x,
      Message_Msg = BaseCommand_GetMessage (Frame_BaseCmd f), Message_Meta = Frame_Metadata f,
      Message_Payload = Frame_Payload f\<rparr>"

definition overflow_add ::
    "proto \<Rightarrow> MessageIdData option \<Rightarrow> MessageIdData option list \<Rightarrow> MessageIdData option list" where
  "overflow_add pc newMid overflow =
     (if list_ex (\<lambda>mid. Equal_MessageIdData pc mid newMid) overflow then overflow else overflow @ [newMid])"

text \<open>
  \<open>HandleMessage\<close> ends with a send on the unbuffered \<open>OverflowSignal\<close> when the queue is full. The
  result is \<open>None\<close> while nobody receives from it and the call blocks there; the id is in the
  overflow by then.
\<close>

definition Consumer_HandleMessage ::
    "proto \<Rightarrow> nat \<Rightarrow> Frame \<Rightarrow> ('s, 'z) sub_state_scheme \<Rightarrow> go_error option option \<times> ('s, 'z) sub_state_scheme" where
  "Consumer_HandleMessage pc c f w =
     (let x = the_Consumer c w; m = Consumer_message x f; q = Consumer_Messages c w in
      case try_send m q of
        Some q' \<Rightarrow> (Some None, w\<lparr>st_Queues := (st_Queues w)[Consumer_Queue x := q']\<rparr>)
      | None \<Rightarrow>
          (let newMid = CommandMessage_GetMessageId (BaseCommand_GetMessage (Frame_BaseCmd f));
               w1 = upd_Consumer c (\<lambda>x. x\<lparr>Consumer_Overflow := overflow_add pc newMid (Consumer_Overflow x)\<rparr>) w
           in case try_send () (Consumer_OverflowSignal (the_Consumer c w1)) of
                None \<Rightarrow> (None, w1)
              | Some sg \<Rightarrow>
                  (Some (Some (ErrQueueFull (Consumer_Topic x) (ch_cap q))),
                   upd_Consumer c (\<lambda>x. x\<lparr>Consumer_OverflowSignal := sg\<rparr>) w1)))"

section \<open>Lemmas\<close>

lemma upd_Consumer_simps [simp]:
  "ep_Dispatcher (upd_Consumer c f w) = ep_Dispatcher w" "ep_S (upd_Consumer c f w) = ep_S w"
  "st_Queues (upd_Consumer c f w) = st_Queues w" "st_Producers (upd_Consumer c f w) = st_Producers w"
  "length (st_Consumers (upd_Consumer c f w)) = length (st_Consumers w)"
  "c < length (st_Consumers w) \<Longrightarrow> the_Consumer c (upd_Consumer c f w) = f (the_Consumer c w)"
  "b \<noteq> c \<Longrightarrow> the_Consumer b (upd_Consumer c f w) = the_Consumer b w"
  by (simp_all add: upd_Consumer_def)

lemma st_Consumers_ep [simp]:
  "st_Consumers (ep_disp f w) = st_Consumers w" "st_Queues (ep_disp f w) = st_Queues w"
  "st_Consumers (snd (ep_send S cmd w)) = st_Consumers w" "st_Queues (snd (ep_send S cmd w)) = st_Queues w"
  by (simp_all add: ep_disp_def ep_send_def split: prod.splits)

definition consumer_inv :: "Consumer \<Rightarrow> bool" where
  "consumer_inv x \<longleftrightarrow>
     Consumer_Closedc x = Consumer_IsClosed x \<and> Consumer_EndOfTopicc x = Consumer_IsEndOfTopic x"

lemma consumer_inv_new [simp]: "consumer_inv (newConsumer topic i q)"
  by (simp add: consumer_inv_def newConsumer_def)

interpretation consumer_handle: close_once "\<lambda>w. Consumer_IsClosed (the_Consumer c w)"
  "\<lambda>w. c < length (st_Consumers w) \<and> consumer_inv (the_Consumer c w)" "Consumer_HandleCloseConsumer c f"
  by unfold_locales
    (auto simp: Consumer_HandleCloseConsumer_def Consumer_set_closed_def consumer_inv_def close_signal_def Let_def)

interpretation consumer_end: close_once "\<lambda>w. Consumer_IsEndOfTopic (the_Consumer c w)"
  "\<lambda>w. c < length (st_Consumers w) \<and> consumer_inv (the_Consumer c w)" "Consumer_HandleReachedEndOfTopic c f"
  by unfold_locales
    (auto simp: Consumer_HandleReachedEndOfTopic_def consumer_inv_def close_signal_def Let_def)

text \<open>The ids an overflow holds are pairwise different.\<close>

definition overflow_distinct :: "proto \<Rightarrow> MessageIdData option list \<Rightarrow> bool" where
  "overflow_distinct pc = sorted_wrt (\<lambda>a b. \<not> Equal_MessageIdData pc a b)"

lemma overflow_add_distinct:
  "overflow_distinct pc xs \<Longrightarrow> overflow_distinct pc (overflow_add pc mid xs)"
  by (auto simp: overflow_distinct_def overflow_add_def sorted_wrt_append list_ex_iff)

lemma overflow_add_mem:
  assumes "Equal_MessageIdData pc mid mid"
  shows "\<exists>m \<in> set (overflow_add pc mid xs). Equal_MessageIdData pc m mid" "\<exists>ys. overflow_add pc mid xs = xs @ ys"
  using assms by (auto simp: overflow_add_def list_ex_iff)

text \<open>The chunks of a redelivery.\<close>

context cmd_sender
begin

lemma redeliver_loop_sent:
  assumes "ok (ep_S w)" "\<And>mids. length mids \<le> maxRedeliverUnacknowledged \<Longrightarrow> valid (simple_frame (Consumer_redeliver_cmd cid mids))"
    and "redeliver_loop S cid overflow i w = (e, w')"
  shows "\<exists>css. sent (ep_S w') = sent (ep_S w) @ map (\<lambda>mids. simple_frame (Consumer_redeliver_cmd cid mids)) css \<and>
    (\<forall>mids \<in> set css. mids \<noteq> [] \<and> length mids \<le> maxRedeliverUnacknowledged) \<and>
    (\<exists>rest. drop i overflow = concat css @ rest \<and> (e = None \<longrightarrow> rest = [])) \<and> w' = w\<lparr>ep_S := ep_S w'\<rparr>"
  using assms(1,3)
proof (induction "length overflow - i" arbitrary: i w rule: less_induct)
  case less
  let ?cmd = "\<lambda>mids. Consumer_redeliver_cmd cid mids" and ?n = maxRedeliverUnacknowledged
  have n: "0 < ?n" by (simp add: maxRedeliverUnacknowledged_def)
  show ?case
  proof (cases "i < length overflow")
    case True
    define mids where "mids = take ?n (drop i overflow)"
    have len: "mids \<noteq> []" "length mids \<le> ?n" using True n by (auto simp: mids_def)
    have split: "drop i overflow = mids @ drop (i + ?n) overflow"
      unfolding mids_def by (metis add.commute append_take_drop_id drop_drop)
    have tk: "take (min (i + ?n) (length overflow) - i) (drop i overflow) = mids"
      by (simp add: mids_def min_def)
    obtain e1 s1 where send: "SendSimpleCmd S (?cmd mids) (ep_S w) = (e1, s1)" by fastforce
    note law = simple [OF less.prems(1) assms(2) [OF len(2)] send]
    show ?thesis
    proof (cases e1)
      case None
      with True tk send less.prems(2) have loop: "redeliver_loop S cid overflow (i + ?n) (w\<lparr>ep_S := s1\<rparr>) = (e, w')"
        by (subst (asm) redeliver_loop.simps) (simp add: ep_send_def)
      have "length overflow - (i + ?n) < length overflow - i" using True n by simp
      from less.hyps [OF this _ loop] law None obtain css rest where
        "sent (ep_S w') = sent s1 @ map (\<lambda>mids. simple_frame (?cmd mids)) css"
        "\<forall>mids \<in> set css. mids \<noteq> [] \<and> length mids \<le> ?n" "drop (i + ?n) overflow = concat css @ rest"
        "e = None \<longrightarrow> rest = []" "w' = w\<lparr>ep_S := ep_S w'\<rparr>" by auto
      moreover from this(3) have "drop i overflow = concat (mids # css) @ rest"
        using split by simp
      ultimately show ?thesis
        using law None len by (intro exI [of _ "mids # css"]) auto
    next
      case (Some x)
      with True tk send less.prems(2) have "e = Some x" "w' = w\<lparr>ep_S := s1\<rparr>"
        by (subst (asm) redeliver_loop.simps, simp add: ep_send_def)+
      with law Some show ?thesis by (intro exI [of _ "[]"]) simp
    qed
  next
    case False
    with less.prems(2) have "e = None" "w' = w"
      by (subst (asm) redeliver_loop.simps, simp)+
    with False show ?thesis by (intro exI [of _ "[]"]) simp
  qed
qed

end

section \<open>Properties\<close>

text \<open>
  C26. Every message a consumer handles is kept: either the call returns without error and the message
  is the next one of the queue, behind all messages before it; or the queue was full, it is left as
  it was, and the id of the message is in the overflow, which only grows and never holds an id
  twice. The second case returns the error, or blocks (\<open>None\<close>) if nobody listens for overflows.
\<close>

theorem consumer_handle_message:
  assumes "c < length (st_Consumers w)" "Consumer_Queue (the_Consumer c w) < length (st_Queues w)"
    and "chan_inv (Consumer_Messages c w)" "overflow_distinct pc (Consumer_Overflow (the_Consumer c w))"
    and "mid = CommandMessage_GetMessageId (BaseCommand_GetMessage (Frame_BaseCmd f))" "Equal_MessageIdData pc mid mid"
    and "Consumer_HandleMessage pc c f w = (r, w')"
  shows "(r = Some None \<and>
      chan_history (Consumer_Messages c w') = chan_history (Consumer_Messages c w) @ [Consumer_message (the_Consumer c w) f] \<and>
      chan_inv (Consumer_Messages c w') \<and> st_Consumers w' = st_Consumers w) \<or>
    (r \<in> {None, Some (Some (ErrQueueFull (Consumer_Topic (the_Consumer c w)) (ch_cap (Consumer_Messages c w))))} \<and>
      ch_cap (Consumer_Messages c w) \<le> length (ch_buf (Consumer_Messages c w)) \<and> st_Queues w' = st_Queues w \<and>
      (\<exists>m \<in> set (Consumer_Overflow (the_Consumer c w')). Equal_MessageIdData pc m mid) \<and>
      (\<exists>ys. Consumer_Overflow (the_Consumer c w') = Consumer_Overflow (the_Consumer c w) @ ys) \<and>
      overflow_distinct pc (Consumer_Overflow (the_Consumer c w')))"
proof (cases "try_send (Consumer_message (the_Consumer c w) f) (Consumer_Messages c w)")
  case None
  have ov: "Consumer_Overflow (the_Consumer c w') = overflow_add pc mid (Consumer_Overflow (the_Consumer c w))"
    "st_Queues w' = st_Queues w"
    "r \<in> {None, Some (Some (ErrQueueFull (Consumer_Topic (the_Consumer c w)) (ch_cap (Consumer_Messages c w))))}"
    using assms(1,5,7) None by (auto simp: Consumer_HandleMessage_def Let_def split: option.splits)
  have "ch_cap (Consumer_Messages c w) \<le> length (ch_buf (Consumer_Messages c w))"
    using None by (simp add: try_send_None)
  with ov overflow_add_mem [OF assms(6)] overflow_add_distinct [OF assms(4)] show ?thesis by simp
next
  case (Some q)
  have "r = Some None" "w' = w\<lparr>st_Queues := (st_Queues w)[Consumer_Queue (the_Consumer c w) := q]\<rparr>"
    using assms(7) Some by (simp_all add: Consumer_HandleMessage_def Let_def)
  with try_send_history [OF Some assms(3)] try_send_inv [OF Some assms(3)] assms(2) show ?thesis
    by (simp add: Consumer_Messages_def)
qed

definition demo_sub :: "MockSender sub_state" where
  "demo_sub = \<lparr>ep_S = \<lparr>MockSender_Frames = [], MockSender_Closedc = False\<rparr>, ep_Dispatcher = NewFrameDispatcher,
     ep_ReqID = \<lparr>MonotonicID_ID = 0\<rparr>, st_Producers = [], st_Consumers = [newConsumer ''t'' 0 0],
     st_Queues = [make_chan 0]\<rparr>"

lemma demo_sub_simps [simp]:
  "st_Consumers demo_sub = [newConsumer ''t'' 0 0]" "st_Queues demo_sub = [make_chan 0]"
  "Consumer_Messages 0 demo_sub = make_chan 0" "ep_Dispatcher demo_sub = NewFrameDispatcher"
  by (simp_all add: demo_sub_def Consumer_Messages_def newConsumer_def)

theorem consumer_handle_message_witness:
  "fst (Consumer_HandleMessage demo_proto 0 (demo_frame []) demo_sub) \<noteq> Some None \<and>
   (\<exists>m \<in> set (Consumer_Overflow (the_Consumer 0 (snd (Consumer_HandleMessage demo_proto 0 (demo_frame []) demo_sub)))).
      Equal_MessageIdData demo_proto m None)"
proof -
  have mid: "None = CommandMessage_GetMessageId (BaseCommand_GetMessage (Frame_BaseCmd (demo_frame [])))"
    by (simp add: CommandMessage_GetMessageId_def BaseCommand_GetMessage_def ping_cmd_def new_BaseCommand_def)
  have full: "try_send m (make_chan 0) = None" for m :: Message by (simp add: try_send_def make_chan_def)
  then have "fst (Consumer_HandleMessage demo_proto 0 (demo_frame []) demo_sub) \<noteq> Some None"
    by (simp add: Consumer_HandleMessage_def Let_def split: option.splits)
  then show ?thesis
    using consumer_handle_message [OF _ _ _ _ mid, of 0 demo_sub demo_proto
        "fst (Consumer_HandleMessage demo_proto 0 (demo_frame []) demo_sub)"
        "snd (Consumer_HandleMessage demo_proto 0 (demo_frame []) demo_sub)"]
    by (auto simp: newConsumer_def overflow_distinct_def demo_proto_def)
qed

text \<open>What redelivering the overflow puts on the wire.\<close>

lemma RedeliverOverflow_sent:
  fixes w :: "(Conn, 'z) sub_state_scheme"
  assumes "c < length (st_Consumers w)" "conn_ok pc (ep_S w)"
    and "x = the_Consumer c w"
    and "\<And>mids. length mids \<le> maxRedeliverUnacknowledged \<Longrightarrow>
      frame_valid pc (simple_frame (Consumer_redeliver_cmd (Consumer_ConsumerID x) mids))"
    and "Consumer_RedeliverOverflow (conn_sender pc) c w = ((n, e), w')"
  shows "\<exists>css. conn_sent pc (ep_S w') = conn_sent pc (ep_S w) @
      map (\<lambda>mids. simple_frame (Consumer_redeliver_cmd (Consumer_ConsumerID x) mids)) css \<and>
    (\<forall>mids \<in> set css. mids \<noteq> [] \<and> length mids \<le> maxRedeliverUnacknowledged) \<and>
    (if e = None
     then n = length (Consumer_Overflow x) \<and> concat css = Consumer_Overflow x \<and>
       Consumer_Overflow (the_Consumer c w') = []
     else n = 0 \<and> (\<exists>rest. Consumer_Overflow x = concat css @ rest) \<and>
       Consumer_Overflow (the_Consumer c w') = Consumer_Overflow x)"
proof (cases "Consumer_Overflow x = []")
  case True
  with assms(3,5) show ?thesis
    by (intro exI [of _ "[]"]) (simp add: Consumer_RedeliverOverflow_def)
next
  case False
  obtain e1 w1 where loop: "redeliver_loop (conn_sender pc) (Consumer_ConsumerID x) (Consumer_Overflow x) 0 w = (e1, w1)"
    by fastforce
  from conn.redeliver_loop_sent [OF assms(2,4) loop] obtain css rest where
    css: "conn_sent pc (ep_S w1) = conn_sent pc (ep_S w) @
        map (\<lambda>mids. simple_frame (Consumer_redeliver_cmd (Consumer_ConsumerID x) mids)) css"
      "\<forall>mids \<in> set css. mids \<noteq> [] \<and> length mids \<le> maxRedeliverUnacknowledged"
      "Consumer_Overflow x = concat css @ rest" "e1 = None \<longrightarrow> rest = []" "w1 = w\<lparr>ep_S := ep_S w1\<rparr>"
    by auto
  have st: "st_Consumers w1 = st_Consumers w" using arg_cong [OF css(5), of st_Consumers] by simp
  have res: "(n, e) = (case e1 of None \<Rightarrow> (length (Consumer_Overflow x), None) | Some er \<Rightarrow> (0, Some er))"
    "w' = (case e1 of None \<Rightarrow> upd_Consumer c (\<lambda>x. x\<lparr>Consumer_Overflow := []\<rparr>) w1 | Some _ \<Rightarrow> w1)"
    using assms(3,5) False loop
    by (auto simp: Consumer_RedeliverOverflow_def Let_def split: option.splits)
  show ?thesis
    by (rule exI [of _ css], cases e1) (use css(1-4) st res assms(1,3) in auto)
qed

text \<open>
  C27. Redelivering the overflow over a connection. The ids are requested in commands of at least one
  and at most 1000 ids, in order. If no write fails, together they are exactly the overflow, their
  number is returned and the overflow is cleared; otherwise the ids requested are a prefix of the
  overflow, which is kept as it was, and the error is returned with 0.
\<close>

theorem consumer_redeliver_overflow:
  fixes w :: "(Conn, 'z) sub_state_scheme"
  assumes "c < length (st_Consumers w)" "conn_ok pc (ep_S w)"
    and "x = the_Consumer c w"
    and "\<And>mids. length mids \<le> maxRedeliverUnacknowledged \<Longrightarrow>
      frame_valid pc (simple_frame (Consumer_redeliver_cmd (Consumer_ConsumerID x) mids))"
    and "Consumer_RedeliverOverflow (conn_sender pc) c w = ((n, e), w')"
  shows "\<exists>css. conn_sent pc (ep_S w') = conn_sent pc (ep_S w) @
      map (\<lambda>mids. simple_frame (Consumer_redeliver_cmd (Consumer_ConsumerID x) mids)) css \<and>
    (\<forall>mids \<in> set css. mids \<noteq> [] \<and> length mids \<le> maxRedeliverUnacknowledged) \<and>
    (if e = None
     then n = length (Consumer_Overflow x) \<and> concat css = Consumer_Overflow x \<and>
       Consumer_Overflow (the_Consumer c w') = []
     else n = 0 \<and> (\<exists>rest. Consumer_Overflow x = concat css @ rest) \<and>
       Consumer_Overflow (the_Consumer c w') = Consumer_Overflow x)"
  using assms by (rule RedeliverOverflow_sent)

definition demo_redeliver_proto :: proto where
  "demo_redeliver_proto = cmd_proto (Consumer_redeliver_cmd 0 [None]) [8, 16, 130, 1, 2, 8, 0]"

definition demo_conn_sub :: "Conn sub_state" where
  "demo_conn_sub = \<lparr>ep_S = demo_conn, ep_Dispatcher = NewFrameDispatcher, ep_ReqID = \<lparr>MonotonicID_ID = 0\<rparr>,
     st_Producers = [], st_Consumers = [(newConsumer ''t'' 0 0)\<lparr>Consumer_Overflow := [None]\<rparr>],
     st_Queues = [make_chan 0]\<rparr>"

theorem consumer_redeliver_overflow_witness:
  "\<exists>css. conn_sent demo_redeliver_proto
      (ep_S (snd (Consumer_RedeliverOverflow (conn_sender demo_redeliver_proto) 0 demo_conn_sub))) =
    conn_sent demo_redeliver_proto demo_conn @ map (\<lambda>mids. simple_frame (Consumer_redeliver_cmd 0 mids)) css"
proof -
  let ?r = "Consumer_RedeliverOverflow (conn_sender demo_redeliver_proto) 0 demo_conn_sub"
  let ?x = "(newConsumer ''t'' 0 0)\<lparr>Consumer_Overflow := [None]\<rparr>"
  have ok: "conn_ok demo_redeliver_proto (ep_S demo_conn_sub)"
    unfolding conn_ok_def by (intro exI [of _ "[]"]) (simp add: demo_conn_sub_def demo_conn_def new_Conn_def)
  have valid: "frame_valid demo_redeliver_proto (simple_frame (Consumer_redeliver_cmd (Consumer_ConsumerID ?x) mids))" for mids
    by (auto simp: demo_redeliver_proto_def cmd_proto_def frame_valid_def simple_frame_def proto_cmd_ok_def
        encoded_size_def newConsumer_def)
  show ?thesis
    using consumer_redeliver_overflow [OF _ ok, of 0 ?x "fst (fst ?r)" "snd (fst ?r)" "snd ?r"] valid
    by (auto simp: demo_conn_sub_def newConsumer_def)
qed

text \<open>
  The signals of a consumer: its \<open>Closed\<close> and its \<open>ReachedEndOfTopic\<close> channel are closed by the
  first frame that asks for it, and any further one is accepted and changes nothing.
\<close>

theorem consumer_signals_once:
  assumes "c < length (st_Consumers w)" "consumer_inv (the_Consumer c w)"
  shows "fst (Consumer_HandleCloseConsumer c f w) = Inr () \<and>
    ((\<lambda>w. snd (Consumer_HandleCloseConsumer c f w)) ^^ Suc n) w = snd (Consumer_HandleCloseConsumer c f w) \<and>
    Consumer_Closed c (snd (Consumer_HandleCloseConsumer c f w)) \<and>
    fst (Consumer_HandleReachedEndOfTopic c f w) = Inr () \<and>
    ((\<lambda>w. snd (Consumer_HandleReachedEndOfTopic c f w)) ^^ Suc n) w = snd (Consumer_HandleReachedEndOfTopic c f w) \<and>
    Consumer_ReachedEndOfTopic c (snd (Consumer_HandleReachedEndOfTopic c f w))"
  using consumer_handle.one [where c = c and w = w and f = f]
    consumer_handle.many [where c = c and w = w and f = f and n = n]
    consumer_end.one [where c = c and w = w and f = f]
    consumer_end.many [where c = c and w = w and f = f and n = n] assms
  by (simp add: Consumer_Closed_def Consumer_ReachedEndOfTopic_def consumer_inv_def)

theorem consumer_signals_once_witness:
  "fst (Consumer_HandleCloseConsumer 0 (demo_frame []) demo_sub) = Inr () \<and>
   ((\<lambda>w. snd (Consumer_HandleCloseConsumer 0 (demo_frame []) w)) ^^ 3) demo_sub =
     snd (Consumer_HandleCloseConsumer 0 (demo_frame []) demo_sub)"
  using consumer_signals_once [of 0 demo_sub "demo_frame []" 2] by (simp add: numeral_3_eq_3 numeral_2_eq_2)

end
