(* ===== verification/Pubsub.thy ===== *)
theory Pubsub
  imports Consumer
begin

text \<open>
  Creating producers and consumers and routing frames to them: \<^verbatim>\<open>core/sub/subscriptions.go\<close> and
  \<^verbatim>\<open>core/sub/pubsub.go\<close>. The two maps of \<open>Subscriptions\<close> hold references into the stores of
  producers and consumers. The invariant says that an entry refers to a well-formed object with that
  id; the lemmas show that every operation keeps it, that frames reach the object with their id and
  no other, and that a subscription which fails leaves no entry behind.
\<close>

section \<open>Subscriptions\<close>

record Subscriptions =
  Subscriptions_Consumers :: "u64 \<rightharpoonup> nat"
  Subscriptions_Producers :: "u64 \<rightharpoonup> nat"

definition NewSubscriptions :: Subscriptions where
  "NewSubscriptions = \<lparr>Subscriptions_Consumers = Map.empty, Subscriptions_Producers = Map.empty\<rparr>"

record 's pubsub_state = "'s sub_state" +
  ps_Subscriptions :: Subscriptions
  ps_ProducerID :: MonotonicID
  ps_ConsumerID :: MonotonicID

definition upd_consumers ::
    "((u64 \<rightharpoonup> nat) \<Rightarrow> (u64 \<rightharpoonup> nat)) \<Rightarrow> ('s, 'z) pubsub_state_scheme \<Rightarrow> ('s, 'z) pubsub_state_scheme" where
  "upd_consumers f w = w\<lparr>ps_Subscriptions := (ps_Subscriptions w)
     \<lparr>Subscriptions_Consumers := f (Subscriptions_Consumers (ps_Subscriptions w))\<rparr>\<rparr>"

definition upd_producers ::
    "((u64 \<rightharpoonup> nat) \<Rightarrow> (u64 \<rightharpoonup> nat)) \<Rightarrow> ('s, 'z) pubsub_state_scheme \<Rightarrow> ('s, 'z) pubsub_state_scheme" where
  "upd_producers f w = w\<lparr>ps_Subscriptions := (ps_Subscriptions w)
     \<lparr>Subscriptions_Producers := f (Subscriptions_Producers (ps_Subscriptions w))\<rparr>\<rparr>"

abbreviation sub_consumers :: "('s, 'z) pubsub_state_scheme \<Rightarrow> u64 \<rightharpoonup> nat" where
  "sub_consumers w \<equiv> Subscriptions_Consumers (ps_Subscriptions w)"

abbreviation sub_producers :: "('s, 'z) pubsub_state_scheme \<Rightarrow> u64 \<rightharpoonup> nat" where
  "sub_producers w \<equiv> Subscriptions_Producers (ps_Subscriptions w)"

definition Subscriptions_AddConsumer :: "nat \<Rightarrow> ('s, 'z) pubsub_state_scheme \<Rightarrow> ('s, 'z) pubsub_state_scheme" where
  "Subscriptions_AddConsumer c w = upd_consumers (\<lambda>m. m(Consumer_ConsumerID (the_Consumer c w) \<mapsto> c)) w"

definition Subscriptions_DelConsumer :: "nat \<Rightarrow> ('s, 'z) pubsub_state_scheme \<Rightarrow> ('s, 'z) pubsub_state_scheme" where
  "Subscriptions_DelConsumer c w = upd_consumers (\<lambda>m. m(Consumer_ConsumerID (the_Consumer c w) := None)) w"

definition sub_unexpected :: "u64 \<Rightarrow> Frame \<Rightarrow> go_error" where
  "sub_unexpected i f = NewUnexpectedErrMsg (BaseCommand_GetType (Frame_BaseCmd f)) [i]"

definition sum_err :: "go_error + unit \<Rightarrow> go_error option" where
  "sum_err r = (case r of Inl e \<Rightarrow> Some e | Inr _ \<Rightarrow> None)"

definition Subscriptions_HandleCloseConsumer ::
    "u64 \<Rightarrow> Frame \<Rightarrow> ('s, 'z) pubsub_state_scheme \<Rightarrow> go_error option \<times> ('s, 'z) pubsub_state_scheme" where
  "Subscriptions_HandleCloseConsumer consumerID f w =
     (case sub_consumers w consumerID of
        None \<Rightarrow> (Some (sub_unexpected consumerID f), w)
      | Some c \<Rightarrow>
          (case Consumer_HandleCloseConsumer c f (upd_consumers (\<lambda>m. m(consumerID := None)) w) of
             (r, w1) \<Rightarrow> (sum_err r, w1)))"

definition Subscriptions_HandleReachedEndOfTopic ::
    "u64 \<Rightarrow> Frame \<Rightarrow> ('s, 'z) pubsub_state_scheme \<Rightarrow> go_error option \<times> ('s, 'z) pubsub_state_scheme" where
  "Subscriptions_HandleReachedEndOfTopic consumerID f w =
     (case sub_consumers w consumerID of
        None \<Rightarrow> (Some (sub_unexpected consumerID f), w)
      | Some c \<Rightarrow> (case Consumer_HandleReachedEndOfTopic c f w of (r, w1) \<Rightarrow> (sum_err r, w1)))"

definition Subscriptions_HandleMessage ::
    "proto \<Rightarrow> u64 \<Rightarrow> Frame \<Rightarrow> ('s, 'z) pubsub_state_scheme \<Rightarrow>
     go_error option option \<times> ('s, 'z) pubsub_state_scheme" where
  "Subscriptions_HandleMessage pc consumerID f w =
     (case sub_consumers w consumerID of
        None \<Rightarrow> (Some (Some (sub_unexpected consumerID f)), w)
      | Some c \<Rightarrow> Consumer_HandleMessage pc c f w)"

definition Subscriptions_AddProducer :: "nat \<Rightarrow> ('s, 'z) pubsub_state_scheme \<Rightarrow> ('s, 'z) pubsub_state_scheme" where
  "Subscriptions_AddProducer p w = upd_producers (\<lambda>m. m(Producer_ProducerID (the_Producer p w) \<mapsto> p)) w"

definition Subscriptions_DelProducer :: "nat \<Rightarrow> ('s, 'z) pubsub_state_scheme \<Rightarrow> ('s, 'z) pubsub_state_scheme" where
  "Subscriptions_DelProducer p w = upd_producers (\<lambda>m. m(Producer_ProducerID (the_Producer p w) := None)) w"

definition Subscriptions_HandleCloseProducer ::
    "u64 \<Rightarrow> Frame \<Rightarrow> ('s, 'z) pubsub_state_scheme \<Rightarrow> go_error option \<times> ('s, 'z) pubsub_state_scheme" where
  "Subscriptions_HandleCloseProducer producerID f w =
     (case sub_producers w producerID of
        None \<Rightarrow> (Some (sub_unexpected producerID f), w)
      | Some p \<Rightarrow>
          (case Producer_HandleCloseProducer p f (upd_producers (\<lambda>m. m(producerID := None)) w) of
             (r, w1) \<Rightarrow> (sum_err r, w1)))"

definition Subscriptions_HandleActiveConsumerChange ::
    "u64 \<Rightarrow> Frame \<Rightarrow> ('s, 'z) pubsub_state_scheme \<Rightarrow> go_error option \<times> ('s, 'z) pubsub_state_scheme" where
  "Subscriptions_HandleActiveConsumerChange consumerID f w =
     (let isActive = CommandActiveConsumerChange_GetIsActive
            (BaseCommand_GetActiveConsumerChange (Frame_BaseCmd f))
      in case sub_consumers w consumerID of
           None \<Rightarrow> (None, w)
         | Some c \<Rightarrow> (None, upd_Consumer c (\<lambda>x. x\<lparr>Consumer_Unactive := (if \<not> isActive then True else False)\<rparr>) w))"

section \<open>Pubsub\<close>

definition Pubsub_subscribe_cmd ::
    "u64 \<Rightarrow> u64 \<Rightarrow> string \<Rightarrow> string \<Rightarrow> CommandSubscribe_SubType \<Rightarrow> CommandSubscribe_InitialPosition \<Rightarrow> BaseCommand" where
  "Pubsub_subscribe_cmd requestID consumerID topic sub subType initialPosition =
     new_BaseCommand\<lparr>BaseCommand_Type := Some BaseCommand_SUBSCRIBE,
       BaseCommand_Subscribe := Some (new_CommandSubscribe
         \<lparr>CommandSubscribe_SubType := Some subType, CommandSubscribe_Topic := Some topic,
          CommandSubscribe_Subscription := Some sub, CommandSubscribe_RequestId := Some requestID,
          CommandSubscribe_ConsumerId := Some consumerID,
          CommandSubscribe_InitialPosition := Some initialPosition\<rparr>)\<rparr>"

definition Pubsub_server_error :: "Frame \<Rightarrow> go_error" where
  "Pubsub_server_error f =
     (let errMsg = BaseCommand_GetError (Frame_BaseCmd f)
      in ErrServer (CommandError_GetError errMsg) (CommandError_GetMessage errMsg))"

text \<open>
  The consumer is created and added to the subscriptions before the command is sent, and taken out
  again on every error path; \<open>c\<close> is its reference, the next free one of the store. \<open>mid\<close> is what the
  other goroutines do to the state once the command is on the wire and before \<open>SendSimpleCmd\<close> has
  returned: the broker may answer, or send a first message, in that time.
\<close>

definition subscribed :: "string \<Rightarrow> u64 \<Rightarrow> nat \<Rightarrow> nat \<Rightarrow> ('s, 'z) pubsub_state_scheme \<Rightarrow> ('s, 'z) pubsub_state_scheme" where
  "subscribed topic cid queue c w =
     Subscriptions_AddConsumer c (w\<lparr>st_Consumers := st_Consumers w @ [newConsumer topic cid queue]\<rparr>)"

definition subscribe_send ::
    "'s CmdSender \<Rightarrow> (('s, 'z) pubsub_state_scheme \<Rightarrow> ('s, 'z) pubsub_state_scheme) \<Rightarrow> BaseCommand \<Rightarrow>
     string \<Rightarrow> u64 \<Rightarrow> nat \<Rightarrow> nat \<Rightarrow> ('s, 'z) pubsub_state_scheme \<Rightarrow>
     go_error option \<times> ('s, 'z) pubsub_state_scheme" where
  "subscribe_send S mid cmd topic cid queue c w =
     (case ep_send S cmd (subscribed topic cid queue c w) of
        (Some err, w3) \<Rightarrow> (Some err, Subscriptions_DelConsumer c (mid w3))
      | (None, w3) \<Rightarrow> (None, mid w3))"

definition subscribe_handle ::
    "u64 \<Rightarrow> nat \<Rightarrow> wake \<Rightarrow> ('s, 'z) pubsub_state_scheme \<Rightarrow> (go_error + nat) \<times> ('s, 'z) pubsub_state_scheme" where
  "subscribe_handle requestID c wk w1 =
     (case wk of
        WakeCtx e \<Rightarrow> (Inl (ErrCtx e), Subscriptions_DelConsumer c w1)
      | WakeResp f \<Rightarrow>
          let msgType = BaseCommand_GetType (Frame_BaseCmd f) in
          if msgType = BaseCommand_SUCCESS then (Inr c, w1)
          else if msgType = BaseCommand_ERROR
          then (Inl (Pubsub_server_error f), Subscriptions_DelConsumer c w1)
          else (Inl (NewUnexpectedErrMsg msgType [requestID]), Subscriptions_DelConsumer c w1))"

definition Pubsub_Subscribe_in ::
    "'s CmdSender \<Rightarrow> (('s, 'z) pubsub_state_scheme \<Rightarrow> ('s, 'z) pubsub_state_scheme) \<Rightarrow>
     (('s, 'z) pubsub_state_scheme \<Rightarrow> ('s, 'z) pubsub_state_scheme \<times> wake) \<Rightarrow>
     string \<Rightarrow> string \<Rightarrow> CommandSubscribe_SubType \<Rightarrow> CommandSubscribe_InitialPosition \<Rightarrow> nat \<Rightarrow>
     ('s, 'z) pubsub_state_scheme \<Rightarrow> (go_error + nat) \<times> ('s, 'z) pubsub_state_scheme" where
  "Pubsub_Subscribe_in S mid env topic sub subType initialPosition queue w =
     (case ep_Next w of (requestID, w0) \<Rightarrow>
      case MonotonicID_Next (ps_ConsumerID w0) of (consumerID, cids) \<Rightarrow>
        let cmd = Pubsub_subscribe_cmd requestID consumerID topic sub subType initialPosition;
            c = length (st_Consumers w0)
        in request (KReq requestID) (subscribe_send S mid cmd topic consumerID queue c) env
             (subscribe_handle requestID c) (w0\<lparr>ps_ConsumerID := cids\<rparr>))"

text \<open>A subscription during which the other goroutines run only while it waits.\<close>

definition Pubsub_Subscribe ::
    "'s CmdSender \<Rightarrow> (('s, 'z) pubsub_state_scheme \<Rightarrow> ('s, 'z) pubsub_state_scheme \<times> wake) \<Rightarrow>
     string \<Rightarrow> string \<Rightarrow> CommandSubscribe_SubType \<Rightarrow> CommandSubscribe_InitialPosition \<Rightarrow> nat \<Rightarrow>
     ('s, 'z) pubsub_state_scheme \<Rightarrow> (go_error + nat) \<times> ('s, 'z) pubsub_state_scheme" where
  "Pubsub_Subscribe S = Pubsub_Subscribe_in S id"

definition Pubsub_producer_cmd :: "u64 \<Rightarrow> u64 \<Rightarrow> string \<Rightarrow> string \<Rightarrow> BaseCommand" where
  "Pubsub_producer_cmd requestID producerID topic producerName =
     (let pr = new_CommandProducer
            \<lparr>CommandProducer_RequestId := Some requestID, CommandProducer_ProducerId := Some producerID,
             CommandProducer_Topic := Some topic\<rparr>
      in new_BaseCommand\<lparr>BaseCommand_Type := Some BaseCommand_PRODUCER,
           BaseCommand_Producer := Some
             (if producerName \<noteq> '''' then pr\<lparr>CommandProducer_ProducerName := Some producerName\<rparr> else pr)\<rparr>)"

definition produced :: "u64 \<Rightarrow> nat \<Rightarrow> ('s, 'z) pubsub_state_scheme \<Rightarrow> ('s, 'z) pubsub_state_scheme" where
  "produced producerID p w =
     Subscriptions_AddProducer p (w\<lparr>st_Producers := st_Producers w @ [NewProducer producerID]\<rparr>)"

definition producer_send_cmd ::
    "'s CmdSender \<Rightarrow> BaseCommand \<Rightarrow> u64 \<Rightarrow> nat \<Rightarrow> ('s, 'z) pubsub_state_scheme \<Rightarrow>
     go_error option \<times> ('s, 'z) pubsub_state_scheme" where
  "producer_send_cmd S cmd producerID p w =
     (case ep_send S cmd (produced producerID p w) of
        (Some err, w3) \<Rightarrow> (Some err, Subscriptions_DelProducer p w3)
      | (None, w3) \<Rightarrow> (None, w3))"

definition producer_handle_resp ::
    "u64 \<Rightarrow> nat \<Rightarrow> wake \<Rightarrow> ('s, 'z) pubsub_state_scheme \<Rightarrow> (go_error + nat) \<times> ('s, 'z) pubsub_state_scheme" where
  "producer_handle_resp requestID p wk w1 =
     (case wk of
        WakeCtx e \<Rightarrow> (Inl (ErrCtx e), Subscriptions_DelProducer p w1)
      | WakeResp f \<Rightarrow>
          let msgType = BaseCommand_GetType (Frame_BaseCmd f) in
          if msgType = BaseCommand_PRODUCER_SUCCESS
          then (Inr p, upd_Producer p (\<lambda>x. x\<lparr>Producer_ProducerName :=
                  CommandProducerSuccess_GetProducerName
                    (BaseCommand_GetProducerSuccess (Frame_BaseCmd f))\<rparr>) w1)
          else if msgType = BaseCommand_ERROR
          then (Inl (Pubsub_server_error f), Subscriptions_DelProducer p w1)
          else (Inl (NewUnexpectedErrMsg msgType [requestID]), Subscriptions_DelProducer p w1))"

definition Pubsub_Producer ::
    "'s CmdSender \<Rightarrow> (('s, 'z) pubsub_state_scheme \<Rightarrow> ('s, 'z) pubsub_state_scheme \<times> wake) \<Rightarrow>
     string \<Rightarrow> string \<Rightarrow>
     ('s, 'z) pubsub_state_scheme \<Rightarrow> (go_error + nat) \<times> ('s, 'z) pubsub_state_scheme" where
  "Pubsub_Producer S env topic producerName w =
     (case ep_Next w of (requestID, w0) \<Rightarrow>
      case MonotonicID_Next (ps_ProducerID w0) of (producerID, pids) \<Rightarrow>
        let cmd = Pubsub_producer_cmd requestID producerID topic producerName;
            p = length (st_Producers w0)
        in request (KReq requestID) (producer_send_cmd S cmd producerID p) env
             (producer_handle_resp requestID p) (w0\<lparr>ps_ProducerID := pids\<rparr>))"

section \<open>The invariant\<close>

definition subs_inv :: "('s, 'z) pubsub_state_scheme \<Rightarrow> bool" where
  "subs_inv w \<longleftrightarrow>
     (\<forall>i c. sub_consumers w i = Some c \<longrightarrow>
        c < length (st_Consumers w) \<and> Consumer_ConsumerID (the_Consumer c w) = i \<and> consumer_inv (the_Consumer c w)) \<and>
     (\<forall>i p. sub_producers w i = Some p \<longrightarrow>
        p < length (st_Producers w) \<and> Producer_ProducerID (the_Producer p w) = i \<and> producer_inv (the_Producer p w))"

lemma subs_invD:
  assumes "subs_inv w"
  shows "sub_consumers w i = Some c \<Longrightarrow> c < length (st_Consumers w)"
    "sub_consumers w i = Some c \<Longrightarrow> Consumer_ConsumerID (the_Consumer c w) = i"
    "sub_consumers w i = Some c \<Longrightarrow> consumer_inv (the_Consumer c w)"
    "sub_producers w j = Some p \<Longrightarrow> p < length (st_Producers w)"
    "sub_producers w j = Some p \<Longrightarrow> Producer_ProducerID (the_Producer p w) = j"
    "sub_producers w j = Some p \<Longrightarrow> producer_inv (the_Producer p w)"
  using assms by (simp_all add: subs_inv_def)

lemma upd_subs_simps [simp]:
  "st_Consumers (upd_consumers f w) = st_Consumers w" "st_Producers (upd_consumers f w) = st_Producers w"
  "st_Queues (upd_consumers f w) = st_Queues w" "sub_consumers (upd_consumers f w) = f (sub_consumers w)"
  "sub_producers (upd_consumers f w) = sub_producers w" "ep_S (upd_consumers f w) = ep_S w"
  "ep_Dispatcher (upd_consumers f w) = ep_Dispatcher w"
  "st_Consumers (upd_producers g w) = st_Consumers w" "st_Producers (upd_producers g w) = st_Producers w"
  "st_Queues (upd_producers g w) = st_Queues w" "sub_producers (upd_producers g w) = g (sub_producers w)"
  "sub_consumers (upd_producers g w) = sub_consumers w" "ep_S (upd_producers g w) = ep_S w"
  "ep_Dispatcher (upd_producers g w) = ep_Dispatcher w"
  by (simp_all add: upd_consumers_def upd_producers_def)

lemma ps_Subscriptions_keep [simp]:
  "ps_Subscriptions (upd_Consumer c h w) = ps_Subscriptions w"
  "ps_Subscriptions (upd_Producer p g w) = ps_Subscriptions w"
  "ps_Subscriptions (ep_disp f w) = ps_Subscriptions w"
  "ps_Subscriptions (snd (ep_send S cmd w)) = ps_Subscriptions w"
  "st_Consumers (upd_Producer p g w') = st_Consumers w'"
  by (simp_all add: upd_Consumer_def upd_Producer_def ep_disp_def ep_send_def split: prod.splits)

lemma subs_inv_new: "ps_Subscriptions w = NewSubscriptions \<Longrightarrow> subs_inv w"
  by (simp add: subs_inv_def NewSubscriptions_def)

lemma subs_inv_ep_disp [simp]: "subs_inv (ep_disp f w) = subs_inv w"
  by (simp add: subs_inv_def ep_disp_def)

lemma subs_inv_del:
  assumes "subs_inv w"
  shows "subs_inv (upd_consumers (\<lambda>m. m(i := None)) w)" "subs_inv (upd_producers (\<lambda>m. m(i := None)) w)"
  using assms by (simp_all add: subs_inv_def)

lemma subs_inv_upd_Consumer:
  assumes "subs_inv w" "\<And>x. Consumer_ConsumerID (f x) = Consumer_ConsumerID x"
    and "\<And>x. consumer_inv x \<Longrightarrow> consumer_inv (f x)"
  shows "subs_inv (upd_Consumer c f w)"
proof -
  have "d < length (st_Consumers w) \<and> Consumer_ConsumerID (the_Consumer d (upd_Consumer c f w)) = i \<and>
      consumer_inv (the_Consumer d (upd_Consumer c f w))" if "sub_consumers w i = Some d" for i d
    using subs_invD(1-3) [OF assms(1) that] assms(2,3) by (cases "d = c") simp_all
  then show ?thesis using assms(1) by (simp add: subs_inv_def)
qed

lemma subs_inv_upd_Producer:
  assumes "subs_inv w" "\<And>x. Producer_ProducerID (f x) = Producer_ProducerID x"
    and "\<And>x. producer_inv x \<Longrightarrow> producer_inv (f x)"
  shows "subs_inv (upd_Producer p f w)"
proof -
  have "d < length (st_Producers w) \<and> Producer_ProducerID (the_Producer d (upd_Producer p f w)) = i \<and>
      producer_inv (the_Producer d (upd_Producer p f w))" if "sub_producers w i = Some d" for i d
    using subs_invD(4-6) [OF assms(1) that] assms(2,3) by (cases "d = p") simp_all
  then show ?thesis using assms(1) by (simp add: subs_inv_def)
qed

text \<open>The closing handlers of the objects as single updates.\<close>

lemma Consumer_HandleCloseConsumer_eq:
  assumes "c < length (st_Consumers w)" "consumer_inv (the_Consumer c w)"
  shows "Consumer_HandleCloseConsumer c f w =
    (Inr (), upd_Consumer c (\<lambda>x. x\<lparr>Consumer_IsClosed := True, Consumer_Closedc := True\<rparr>) w)"
proof (cases "Consumer_IsClosed (the_Consumer c w)")
  case True
  with assms(2) have "(the_Consumer c w)\<lparr>Consumer_IsClosed := True, Consumer_Closedc := True\<rparr> = the_Consumer c w"
    by (cases "the_Consumer c w") (simp add: consumer_inv_def)
  with True show ?thesis by (simp add: Consumer_HandleCloseConsumer_def upd_Consumer_def)
next
  case False
  with assms show ?thesis
    by (simp add: Consumer_HandleCloseConsumer_def Consumer_set_closed_def consumer_inv_def close_signal_def
        upd_Consumer_def Let_def)
qed

lemma Consumer_HandleReachedEndOfTopic_eq:
  assumes "c < length (st_Consumers w)" "consumer_inv (the_Consumer c w)"
  shows "Consumer_HandleReachedEndOfTopic c f w =
    (Inr (), upd_Consumer c (\<lambda>x. x\<lparr>Consumer_IsEndOfTopic := True, Consumer_EndOfTopicc := True\<rparr>) w)"
proof (cases "Consumer_IsEndOfTopic (the_Consumer c w)")
  case True
  with assms(2) have "(the_Consumer c w)\<lparr>Consumer_IsEndOfTopic := True, Consumer_EndOfTopicc := True\<rparr> = the_Consumer c w"
    by (cases "the_Consumer c w") (simp add: consumer_inv_def)
  with True show ?thesis by (simp add: Consumer_HandleReachedEndOfTopic_def upd_Consumer_def)
next
  case False
  with assms show ?thesis
    by (simp add: Consumer_HandleReachedEndOfTopic_def consumer_inv_def close_signal_def upd_Consumer_def Let_def)
qed

lemma Producer_HandleCloseProducer_eq:
  assumes "p < length (st_Producers w)" "producer_inv (the_Producer p w)"
  shows "Producer_HandleCloseProducer p f w =
    (Inr (), upd_Producer p (\<lambda>x. x\<lparr>Producer_IsClosed := True, Producer_Closedc := True\<rparr>) w)"
proof (cases "Producer_IsClosed (the_Producer p w)")
  case True
  with assms(2) have "(the_Producer p w)\<lparr>Producer_IsClosed := True, Producer_Closedc := True\<rparr> = the_Producer p w"
    by (cases "the_Producer p w") (simp add: producer_inv_def)
  with True show ?thesis by (simp add: Producer_HandleCloseProducer_def upd_Producer_def)
next
  case False
  with assms show ?thesis
    by (simp add: Producer_HandleCloseProducer_def Producer_set_closed_def producer_inv_def close_signal_def
        upd_Producer_def Let_def)
qed

lemma Consumer_HandleMessage_subs_inv:
  assumes "subs_inv w"
  shows "subs_inv (snd (Consumer_HandleMessage pc c f w))"
proof -
  have q: "subs_inv (w\<lparr>st_Queues := q\<rparr>)" for q using assms by (simp add: subs_inv_def)
  have ov: "subs_inv (upd_Consumer c (\<lambda>x. x\<lparr>Consumer_Overflow := h x\<rparr>) w)" for h
    by (rule subs_inv_upd_Consumer [OF assms]) (simp_all add: consumer_inv_def)
  have sg: "subs_inv v \<Longrightarrow> subs_inv (upd_Consumer c (\<lambda>x. x\<lparr>Consumer_OverflowSignal := s\<rparr>) v)" for v s
    by (rule subs_inv_upd_Consumer) (simp_all add: consumer_inv_def)
  show ?thesis
    by (simp add: Consumer_HandleMessage_def Let_def q ov sg split: option.split)
qed

lemma Subscriptions_HandleMessage_subs_inv:
  "subs_inv w \<Longrightarrow> subs_inv (snd (Subscriptions_HandleMessage pc i f w))"
  by (simp add: Subscriptions_HandleMessage_def Consumer_HandleMessage_subs_inv split: option.split)

lemma Subscriptions_HandleCloseConsumer_eq:
  assumes "subs_inv w" "sub_consumers w i = Some c"
  shows "Subscriptions_HandleCloseConsumer i f w =
    (None, upd_Consumer c (\<lambda>x. x\<lparr>Consumer_IsClosed := True, Consumer_Closedc := True\<rparr>)
       (upd_consumers (\<lambda>m. m(i := None)) w))"
  using subs_invD(1,3) [OF assms]
  by (simp add: Subscriptions_HandleCloseConsumer_def assms(2) Consumer_HandleCloseConsumer_eq sum_err_def)

lemma Subscriptions_HandleReachedEndOfTopic_eq:
  assumes "subs_inv w" "sub_consumers w i = Some c"
  shows "Subscriptions_HandleReachedEndOfTopic i f w =
    (None, upd_Consumer c (\<lambda>x. x\<lparr>Consumer_IsEndOfTopic := True, Consumer_EndOfTopicc := True\<rparr>) w)"
  using subs_invD(1,3) [OF assms]
  by (simp add: Subscriptions_HandleReachedEndOfTopic_def assms(2) Consumer_HandleReachedEndOfTopic_eq sum_err_def)

lemma Subscriptions_HandleCloseProducer_eq:
  assumes "subs_inv w" "sub_producers w i = Some p"
  shows "Subscriptions_HandleCloseProducer i f w =
    (None, upd_Producer p (\<lambda>x. x\<lparr>Producer_IsClosed := True, Producer_Closedc := True\<rparr>)
       (upd_producers (\<lambda>m. m(i := None)) w))"
  using subs_invD(4,6) [OF assms]
  by (simp add: Subscriptions_HandleCloseProducer_def assms(2) Producer_HandleCloseProducer_eq sum_err_def)

lemma Subscriptions_handlers_subs_inv:
  assumes "subs_inv w"
  shows "subs_inv (snd (Subscriptions_HandleCloseConsumer i f w))"
    "subs_inv (snd (Subscriptions_HandleReachedEndOfTopic i f w))"
    "subs_inv (snd (Subscriptions_HandleCloseProducer i f w))"
    "subs_inv (snd (Subscriptions_HandleActiveConsumerChange i f w))"
proof -
  show "subs_inv (snd (Subscriptions_HandleCloseConsumer i f w))"
  proof (cases "sub_consumers w i")
    case None
    with assms show ?thesis by (simp add: Subscriptions_HandleCloseConsumer_def)
  next
    case (Some c)
    show ?thesis
      unfolding Subscriptions_HandleCloseConsumer_eq [OF assms Some] snd_conv
      by (rule subs_inv_upd_Consumer [OF subs_inv_del(1) [OF assms]]) (simp_all add: consumer_inv_def)
  qed
  show "subs_inv (snd (Subscriptions_HandleReachedEndOfTopic i f w))"
  proof (cases "sub_consumers w i")
    case None
    with assms show ?thesis by (simp add: Subscriptions_HandleReachedEndOfTopic_def)
  next
    case (Some c)
    show ?thesis
      unfolding Subscriptions_HandleReachedEndOfTopic_eq [OF assms Some] snd_conv
      by (rule subs_inv_upd_Consumer [OF assms]) (simp_all add: consumer_inv_def)
  qed
  show "subs_inv (snd (Subscriptions_HandleCloseProducer i f w))"
  proof (cases "sub_producers w i")
    case None
    with assms show ?thesis by (simp add: Subscriptions_HandleCloseProducer_def)
  next
    case (Some p)
    show ?thesis
      unfolding Subscriptions_HandleCloseProducer_eq [OF assms Some] snd_conv
      by (rule subs_inv_upd_Producer [OF subs_inv_del(2) [OF assms]]) (simp_all add: producer_inv_def)
  qed
  have "subs_inv (upd_Consumer c (\<lambda>x. x\<lparr>Consumer_Unactive := b\<rparr>) w)" for c b
    by (rule subs_inv_upd_Consumer [OF assms]) (simp_all add: consumer_inv_def)
  with assms show "subs_inv (snd (Subscriptions_HandleActiveConsumerChange i f w))"
    by (simp add: Subscriptions_HandleActiveConsumerChange_def Let_def split: option.split)
qed

lemma request_busy:
  assumes "disp_lookup k (ep_Dispatcher w) \<noteq> None" "request k send env handle w = (r, w')"
  shows "\<exists>e d. r = Inl e \<and> w' = w\<lparr>ep_Dispatcher := d\<rparr>"
proof -
  obtain e where "disp_register k (ep_Dispatcher w) =
      (Inl e, (ep_Dispatcher w)\<lparr>disp_next := disp_next (ep_Dispatcher w) + 1\<rparr>)"
    using disp.reg_busy [OF assms(1)] by blast
  with assms(2) show ?thesis by (auto simp: request_def)
qed

text \<open>
  What the other goroutines may do to the objects of a client while a request waits: they may add
  objects and entries and run the handlers, but no object ever changes its id.
\<close>

definition ids_kept :: "('s, 'z) pubsub_state_scheme \<Rightarrow> ('s, 'z) pubsub_state_scheme \<Rightarrow> bool" where
  "ids_kept w w' \<longleftrightarrow>
     length (st_Consumers w) \<le> length (st_Consumers w') \<and> length (st_Producers w) \<le> length (st_Producers w') \<and>
     (\<forall>c < length (st_Consumers w). Consumer_ConsumerID (the_Consumer c w') = Consumer_ConsumerID (the_Consumer c w)) \<and>
     (\<forall>p < length (st_Producers w). Producer_ProducerID (the_Producer p w') = Producer_ProducerID (the_Producer p w))"

lemma Pubsub_Subscribe_in_request:
  "Pubsub_Subscribe_in S mid env topic sub subType initialPosition queue w =
   (let rid = MonotonicID_ID (ep_ReqID w); cid = MonotonicID_ID (ps_ConsumerID w); c = length (st_Consumers w) in
    request (KReq rid)
      (subscribe_send S mid (Pubsub_subscribe_cmd rid cid topic sub subType initialPosition) topic cid queue c) env
      (subscribe_handle rid c)
      ((snd (ep_Next w))\<lparr>ps_ConsumerID := (ps_ConsumerID w)\<lparr>MonotonicID_ID := cid + 1\<rparr>\<rparr>))"
  by (simp add: Pubsub_Subscribe_in_def Let_def)

lemmas Pubsub_Subscribe_request =
  Pubsub_Subscribe_in_request [where mid = id, folded Pubsub_Subscribe_def]

lemma subscribed_simps [simp]:
  "st_Consumers (subscribed topic cid queue c w) = st_Consumers w @ [newConsumer topic cid queue]"
  "ep_S (subscribed topic cid queue c w) = ep_S w" "ep_Dispatcher (subscribed topic cid queue c w) = ep_Dispatcher w"
  "st_Queues (subscribed topic cid queue c w) = st_Queues w"
  "c = length (st_Consumers w) \<Longrightarrow> sub_consumers (subscribed topic cid queue c w) = (sub_consumers w)(cid \<mapsto> c)"
  "sub_producers (subscribed topic cid queue c w) = sub_producers w"
  "st_Producers (subscribed topic cid queue c w) = st_Producers w"
  by (auto simp: subscribed_def Subscriptions_AddConsumer_def newConsumer_def)

lemma subs_inv_subscribed:
  assumes "subs_inv w" "c = length (st_Consumers w)"
  shows "subs_inv (subscribed topic cid queue c w)"
proof -
  have "d < length (st_Consumers (subscribed topic cid queue c w)) \<and>
      Consumer_ConsumerID (the_Consumer d (subscribed topic cid queue c w)) = i \<and>
      consumer_inv (the_Consumer d (subscribed topic cid queue c w))"
    if "sub_consumers (subscribed topic cid queue c w) i = Some d" for i d
  proof (cases "i = cid")
    case True
    with that assms(2) show ?thesis by (simp add: nth_append newConsumer_def consumer_inv_def)
  next
    case False
    with that assms(2) have "sub_consumers w i = Some d" by simp
    from subs_invD(1-3) [OF assms(1) this] show ?thesis by (simp add: nth_append)
  qed
  with assms(1) show ?thesis by (simp add: subs_inv_def)
qed

lemma DelConsumer_simps [simp]:
  "sub_consumers (Subscriptions_DelConsumer c w) = (sub_consumers w)(Consumer_ConsumerID (the_Consumer c w) := None)"
  "st_Consumers (Subscriptions_DelConsumer c w) = st_Consumers w"
  "st_Queues (Subscriptions_DelConsumer c w) = st_Queues w"
  "ep_Dispatcher (Subscriptions_DelConsumer c w) = ep_Dispatcher w"
  by (auto simp: Subscriptions_DelConsumer_def)

lemma subscribe_send_sent:
  "subscribe_send S mid cmd topic cid queue c w = (None, w1) \<Longrightarrow>
   fst (SendSimpleCmd S cmd (ep_S w)) = None \<and>
   (\<exists>s. w1 = mid ((subscribed topic cid queue c w)\<lparr>ep_S := s\<rparr>))"
  by (auto simp: subscribe_send_def ep_send_def split: prod.splits option.splits)

lemma subscribe_send_None:
  "subscribe_send S id cmd topic cid queue c w = (None, w1) \<Longrightarrow>
   w1 = (subscribed topic cid queue c w)\<lparr>ep_S := ep_S w1\<rparr>"
  by (auto simp: subscribe_send_def ep_send_def split: prod.splits option.splits)

text \<open>The new consumer keeps its id, and its entry, through what the other goroutines do.\<close>

lemma subscribed_kept:
  assumes "c = length (st_Consumers w)" "\<And>v. ids_kept v (g v)" "\<And>v. sub_consumers (g v) cid = sub_consumers v cid"
  shows "Consumer_ConsumerID (the_Consumer c (g ((subscribed topic cid queue c w)\<lparr>ep_S := s\<rparr>))) = cid"
    "sub_consumers (g ((subscribed topic cid queue c w)\<lparr>ep_S := s\<rparr>)) cid = Some c"
    "c < length (st_Consumers (g ((subscribed topic cid queue c w)\<lparr>ep_S := s\<rparr>)))"
  using assms(1) assms(2,3) [of "(subscribed topic cid queue c w)\<lparr>ep_S := s\<rparr>"]
  by (auto simp: ids_kept_def newConsumer_def)

lemma subscribe_send_failed:
  assumes "subscribe_send S mid cmd topic cid queue c w = (Some e, w1)" "c = length (st_Consumers w)"
    and "\<And>v. ids_kept v (mid v)" "\<And>v. sub_consumers (mid v) cid = sub_consumers v cid"
  shows "fst (SendSimpleCmd S cmd (ep_S w)) = Some e \<and> sub_consumers w1 cid = None"
  using assms(1) subscribed_kept(1) [OF assms(2-4), where topic = topic and queue = queue]
  by (auto simp: subscribe_send_def ep_send_def split: prod.splits option.splits)

text \<open>The entry and the object of a new producer.\<close>

lemma produced_simps:
  "st_Producers (produced pid p w) = st_Producers w @ [NewProducer pid]"
  "p = length (st_Producers w) \<Longrightarrow> sub_producers (produced pid p w) = (sub_producers w)(pid \<mapsto> p)"
  "st_Consumers (produced pid p w) = st_Consumers w" "sub_consumers (produced pid p w) = sub_consumers w"
  "ep_S (produced pid p w) = ep_S w"
  by (auto simp: produced_def Subscriptions_AddProducer_def NewProducer_def)

lemma DelProducer_entry:
  "sub_producers (Subscriptions_DelProducer p w) = (sub_producers w)(Producer_ProducerID (the_Producer p w) := None)"
  by (rule ext) (simp add: Subscriptions_DelProducer_def)

lemma upd_Producer_entries: "sub_producers (upd_Producer p g w) = sub_producers w"
  by simp

lemma producer_send_sent:
  assumes "producer_send_cmd S cmd pid p w = (None, w1)" "p = length (st_Producers w)"
  shows "fst (SendSimpleCmd S cmd (ep_S w)) = None \<and> sub_producers w1 pid = Some p \<and>
    Producer_ProducerID (the_Producer p w1) = pid \<and> length (st_Producers w1) = Suc p"
  using assms
  by (auto simp: producer_send_cmd_def ep_send_def produced_simps nth_append NewProducer_def split: prod.splits option.splits)

lemma producer_send_failed:
  assumes "producer_send_cmd S cmd pid p w = (Some e, w1)" "p = length (st_Producers w)"
  shows "fst (SendSimpleCmd S cmd (ep_S w)) = Some e \<and> sub_producers w1 pid = None"
  using assms
  by (auto simp: producer_send_cmd_def ep_send_def produced_simps nth_append NewProducer_def DelProducer_entry
      split: prod.splits option.splits)

text \<open>The result of \<open>Subscribe\<close> for the case its select took.\<close>

definition subscribe_result :: "u64 \<Rightarrow> nat \<Rightarrow> wake \<Rightarrow> go_error + nat" where
  "subscribe_result rid c wk =
     (case wk of
        WakeCtx e \<Rightarrow> Inl (ErrCtx e)
      | WakeResp f \<Rightarrow>
          if BaseCommand_GetType (Frame_BaseCmd f) = BaseCommand_SUCCESS then Inr c
          else if BaseCommand_GetType (Frame_BaseCmd f) = BaseCommand_ERROR then Inl (Pubsub_server_error f)
          else Inl (NewUnexpectedErrMsg (BaseCommand_GetType (Frame_BaseCmd f)) [rid]))"

lemma subscribe_handle_result:
  "subscribe_handle rid c wk w1 =
   (subscribe_result rid c wk, if subscribe_result rid c wk = Inr c then w1 else Subscriptions_DelConsumer c w1)"
  by (auto simp: subscribe_handle_def subscribe_result_def Let_def split: wake.splits)

lemma subscribe_handle_cases:
  "subscribe_handle rid c wk w1 = (r, w') \<Longrightarrow>
   (r = Inr c \<and> w' = w1 \<and>
     (\<exists>f :: Frame. wk = WakeResp f \<and> BaseCommand_GetType (Frame_BaseCmd f) = BaseCommand_SUCCESS)) \<or>
   (\<exists>e. r = Inl e \<and> w' = Subscriptions_DelConsumer c w1)"
  by (auto simp: subscribe_handle_def Let_def split: wake.splits if_splits)

lemma Pubsub_Subscribe_in_outcome:
  assumes "rid = MonotonicID_ID (ep_ReqID w)" "cid = MonotonicID_ID (ps_ConsumerID w)"
    and "sub_consumers w cid = None" "c = length (st_Consumers w)"
    and "\<And>v. ids_kept v (mid v)" "\<And>v. sub_consumers (mid v) cid = sub_consumers v cid"
    and "\<And>v. ids_kept v (fst (env v))" "\<And>v. sub_consumers (fst (env v)) cid = sub_consumers v cid"
    and "\<And>v. snd (env v) = wk"
    and "Pubsub_Subscribe_in S mid env topic sub subType initialPosition queue w = (r, w')"
  shows "r = (if Dispatcher_ReqIDs (ep_Dispatcher w) rid \<noteq> None then Inl (ErrOutstandingReqID rid)
      else case fst (SendSimpleCmd S (Pubsub_subscribe_cmd rid cid topic sub subType initialPosition) (ep_S w)) of
          Some e \<Rightarrow> Inl e
        | None \<Rightarrow> subscribe_result rid c wk) \<and>
    (if r = Inr c then sub_consumers w' cid = Some c \<and> Consumer_ConsumerID (the_Consumer c w') = cid
     else sub_consumers w' cid = None)"
proof -
  let ?w0 = "(snd (ep_Next w))\<lparr>ps_ConsumerID := (ps_ConsumerID w)\<lparr>MonotonicID_ID := cid + 1\<rparr>\<rparr>"
  let ?send = "subscribe_send S mid (Pubsub_subscribe_cmd rid cid topic sub subType initialPosition) topic cid queue c"
  have req: "request (KReq rid) ?send env (subscribe_handle rid c) ?w0 = (r, w')"
    using assms(1,2,4,10) by (simp add: Pubsub_Subscribe_in_request Let_def)
  show ?thesis
  proof (cases "Dispatcher_ReqIDs (ep_Dispatcher w) rid")
    case (Some a)
    then have "RegisterReqID rid (ep_Dispatcher ?w0) = (Inl (ErrOutstandingReqID rid),
        (ep_Dispatcher w)\<lparr>disp_next := disp_next (ep_Dispatcher w) + 1\<rparr>)"
      by (simp add: RegisterReqID_def new_AsyncResp_def)
    with req Some assms(3) show ?thesis by (auto simp: request_def)
  next
    case None
    then have "disp_lookup (KReq rid) (ep_Dispatcher ?w0) = None" by simp
    from this req show ?thesis
    proof (cases rule: request_cases)
      case (failed h d e w1)
      from subscribe_send_failed [OF failed(1) _ assms(5,6)] assms(4) None failed(2,3) show ?thesis by simp
    next
      case (answered h d w1 w2 wk' w3)
      let ?g = "\<lambda>v. fst (env (ep_disp (resp_await h) (mid v)))"
      have g: "ids_kept v (?g v)" "sub_consumers (?g v) cid = sub_consumers v cid" for v
        using assms(5-8) [of v] assms(7,8) [of "ep_disp (resp_await h) (mid v)"] by (auto simp: ids_kept_def)
      obtain s where sent: "fst (SendSimpleCmd S (Pubsub_subscribe_cmd rid cid topic sub subType initialPosition) (ep_S w)) = None"
        "w1 = mid ((subscribed topic cid queue c (?w0\<lparr>ep_Dispatcher := d\<rparr>))\<lparr>ep_S := s\<rparr>)"
        using subscribe_send_sent [OF answered(1)] by auto
      have w2: "w2 = ?g ((subscribed topic cid queue c (?w0\<lparr>ep_Dispatcher := d\<rparr>))\<lparr>ep_S := s\<rparr>)" "wk' = wk"
        using answered(2) assms(9) [of "ep_disp (resp_await h) w1"] sent(2) by simp_all
      have "Consumer_ConsumerID (the_Consumer c w2) = cid" "sub_consumers w2 cid = Some c"
        unfolding w2(1) by (rule subscribed_kept [OF _ g], use assms(4) in simp)+
      with answered(3,4) None sent(1) show ?thesis by (auto simp: subscribe_handle_result w2(2))
    qed
  qed
qed

lemma subs_inv_fields [simp]:
  "subs_inv (w\<lparr>ep_S := s\<rparr>) = subs_inv w" "subs_inv (w\<lparr>ep_Dispatcher := d\<rparr>) = subs_inv w"
  "subs_inv (w\<lparr>ep_ReqID := i\<rparr>) = subs_inv w" "subs_inv (w\<lparr>ps_ConsumerID := i\<rparr>) = subs_inv w"
  "subs_inv (w\<lparr>ps_ProducerID := i\<rparr>) = subs_inv w"
  by (simp_all add: subs_inv_def)

lemma subs_inv_send [simp]: "subs_inv (snd (ep_send S cmd w)) = subs_inv w"
  by (simp add: ep_send_def split: prod.splits)

lemma subs_inv_Del [simp]:
  "subs_inv w \<Longrightarrow> subs_inv (Subscriptions_DelConsumer c w)" "subs_inv w \<Longrightarrow> subs_inv (Subscriptions_DelProducer p w)"
  by (simp_all add: Subscriptions_DelConsumer_def Subscriptions_DelProducer_def subs_inv_del)

lemma subs_inv_produced:
  assumes "subs_inv w" "p = length (st_Producers w)"
  shows "subs_inv (produced pid p w)"
proof -
  note eqs = produced_simps(1) [of pid p w] produced_simps(2) [OF assms(2), of pid] produced_simps(3,4) [of pid p w]
  have "d < length (st_Producers (produced pid p w)) \<and>
      Producer_ProducerID (the_Producer d (produced pid p w)) = i \<and> producer_inv (the_Producer d (produced pid p w))"
    if "sub_producers (produced pid p w) i = Some d" for i d
  proof (cases "i = pid")
    case True
    with that have "d = p" by (simp add: eqs(2))
    with True assms(2) show ?thesis
      unfolding eqs(1) by (simp add: nth_append NewProducer_def producer_inv_def)
  next
    case False
    with that have "sub_producers w i = Some d" by (simp add: eqs(2))
    from subs_invD(4-6) [OF assms(1) this] show ?thesis by (simp add: eqs nth_append)
  qed
  with assms(1) show ?thesis by (simp add: subs_inv_def eqs)
qed

text \<open>A request keeps an invariant that its parts keep.\<close>

lemma request_keeps:
  assumes "P w" "\<And>v f. P (ep_disp f v) = P v" "\<And>v d. P (v\<lparr>ep_Dispatcher := d\<rparr>) = P v"
    and "\<And>d. P (snd (send (w\<lparr>ep_Dispatcher := d\<rparr>)))"
    and "\<And>v. P v \<Longrightarrow> P (fst (env v))" "\<And>v wk. P v \<Longrightarrow> P (snd (handle wk v))"
  shows "P (snd (request k send env handle w))"
proof (cases "disp_lookup k (ep_Dispatcher w)")
  case (Some a)
  obtain r w' where req: "request k send env handle w = (r, w')" by fastforce
  from request_busy [OF _ req] Some obtain d where "w' = w\<lparr>ep_Dispatcher := d\<rparr>" by auto
  with assms(1,3) req show ?thesis by simp
next
  case None
  obtain r w' where req: "request k send env handle w = (r, w')" by fastforce
  from None req show ?thesis
  proof (cases rule: request_cases)
    case (failed h d e w1)
    with assms(4) [of d] assms(2) req show ?thesis by simp
  next
    case (answered h d w1 w2 wk w3)
    have "P w1" using assms(4) [of d] answered(1) by simp
    then have "P w2" using assms(2) [of _ w1] assms(5) [of "ep_disp (resp_await h) w1"] answered(2) by simp
    then have "P w3" using assms(2) assms(6) [of "ep_disp (resp_leave h) w2" wk] answered(3) by simp
    with assms(2) answered(4) req show ?thesis by simp
  qed
qed

section \<open>Properties\<close>

text \<open>
  C18. The subscriptions stay well-formed: every entry refers to an existing object with that id whose
  closed flags agree with its channels. This is kept by the handlers of all frames that are routed to
  a producer or consumer, and by creating a producer or a consumer, on success and on every error
  path, in any environment that keeps it.
\<close>

theorem pubsub_keeps_subscriptions:
  assumes "subs_inv w" "\<And>v. subs_inv v \<Longrightarrow> subs_inv (fst (env v))"
  shows "subs_inv (snd (Pubsub_Subscribe S env topic sub subType initialPosition queue w)) \<and>
    subs_inv (snd (Pubsub_Producer S env topic producerName w)) \<and>
    subs_inv (snd (Subscriptions_HandleMessage pc i f w)) \<and>
    subs_inv (snd (Subscriptions_HandleCloseConsumer i f w)) \<and>
    subs_inv (snd (Subscriptions_HandleReachedEndOfTopic i f w)) \<and>
    subs_inv (snd (Subscriptions_HandleCloseProducer i f w)) \<and>
    subs_inv (snd (Subscriptions_HandleActiveConsumerChange i f w))"
proof -
  have send: "subs_inv (snd (subscribe_send S id cmd topic cid queue c v))" if "subs_inv v" "c = length (st_Consumers v)"
    for v :: "('a, 'b) pubsub_state_scheme" and cmd cid c
    using subs_inv_subscribed [OF that, of topic cid queue]
      subs_inv_send [of S cmd "subscribed topic cid queue c v"]
    by (auto simp: subscribe_send_def split: prod.splits option.splits simp del: subs_inv_send)
  have hd: "subs_inv (snd (subscribe_handle rid c wk v))" if "subs_inv v"
    for v :: "('a, 'b) pubsub_state_scheme" and rid c wk
    using that by (auto simp: subscribe_handle_def Let_def split: wake.splits)
  have psend: "subs_inv (snd (producer_send_cmd S cmd pid p v))" if "subs_inv v" "p = length (st_Producers v)"
    for v :: "('a, 'b) pubsub_state_scheme" and cmd pid p
    using subs_inv_produced [OF that, of pid] subs_inv_send [of S cmd "produced pid p v"]
    by (auto simp: producer_send_cmd_def split: prod.splits option.splits simp del: subs_inv_send)
  have phd: "subs_inv (snd (producer_handle_resp rid p wk v))" if "subs_inv v"
    for v :: "('a, 'b) pubsub_state_scheme" and rid p wk
    using that by (auto simp: producer_handle_resp_def Let_def producer_inv_def
        intro!: subs_inv_upd_Producer split: wake.splits)
  have "subs_inv (snd (Pubsub_Subscribe S env topic sub subType initialPosition queue w))"
    unfolding Pubsub_Subscribe_request Let_def
    by (rule request_keeps) (use assms hd in \<open>simp_all add: send\<close>)
  moreover have "subs_inv (snd (Pubsub_Producer S env topic producerName w))"
    unfolding Pubsub_Producer_def ep_Next_simp MonotonicID_Next_simp prod.case Let_def
    by (rule request_keeps) (use assms phd in \<open>simp_all add: psend\<close>)
  ultimately show ?thesis
    using Subscriptions_handlers_subs_inv [OF assms(1)] Subscriptions_HandleMessage_subs_inv [OF assms(1)] by blast
qed

definition demo_pubsub :: "MockSender pubsub_state" where
  "demo_pubsub = \<lparr>ep_S = \<lparr>MockSender_Frames = [], MockSender_Closedc = False\<rparr>, ep_Dispatcher = NewFrameDispatcher,
     ep_ReqID = \<lparr>MonotonicID_ID = 0\<rparr>, st_Producers = [], st_Consumers = [], st_Queues = [make_chan 1],
     ps_Subscriptions = NewSubscriptions, ps_ProducerID = \<lparr>MonotonicID_ID = 0\<rparr>, ps_ConsumerID = \<lparr>MonotonicID_ID = 0\<rparr>\<rparr>"

definition success_frame :: "u64 \<Rightarrow> Frame" where
  "success_frame rid = simple_frame (new_BaseCommand\<lparr>BaseCommand_Type := Some BaseCommand_SUCCESS,
     BaseCommand_Success := Some (new_CommandSuccess\<lparr>CommandSuccess_RequestId := Some rid\<rparr>)\<rparr>)"

lemma success_frame_type [simp]: "BaseCommand_GetType (Frame_BaseCmd (success_frame rid)) = BaseCommand_SUCCESS"
  by (simp add: success_frame_def simple_frame_def BaseCommand_GetType_def)

abbreviation demo_subscribe :: "(go_error + nat) \<times> MockSender pubsub_state" where
  "demo_subscribe \<equiv> Pubsub_Subscribe mock_sender (\<lambda>w. (w, WakeResp (success_frame 0))) ''t'' ''s''
     CommandSubscribe_Shared CommandSubscribe_Latest 0 demo_pubsub"

theorem pubsub_keeps_subscriptions_witness:
  "subs_inv (snd demo_subscribe)"
  using pubsub_keeps_subscriptions [of demo_pubsub "\<lambda>w. (w, WakeResp (success_frame 0))" mock_sender "''t''" "''s''"
      CommandSubscribe_Shared CommandSubscribe_Latest 0]
  by (simp add: subs_inv_new demo_pubsub_def)

text \<open>
  C28. The outcome of a subscription, for every sender and whatever the other goroutines do between
  the send and the wait and during the wait, as long as objects keep their ids and nobody else
  touches the entry of the new consumer id; \<open>wk\<close> is the case the select took. \<open>Subscribe\<close> returns
  the new consumer exactly if its request id was not outstanding, the command could be sent and the
  wait ended with a SUCCESS frame, and the subscriptions then hold the consumer, which has that id.
  Otherwise it returns the error of the registration, of the send, of the context or of the answer,
  and the subscriptions hold nothing for that id.
\<close>

theorem subscribe_outcome:
  assumes "rid = MonotonicID_ID (ep_ReqID w)" "cid = MonotonicID_ID (ps_ConsumerID w)"
    and "sub_consumers w cid = None" "c = length (st_Consumers w)"
    and "\<And>v. ids_kept v (mid v)" "\<And>v. sub_consumers (mid v) cid = sub_consumers v cid"
    and "\<And>v. ids_kept v (fst (env v))" "\<And>v. sub_consumers (fst (env v)) cid = sub_consumers v cid"
    and "\<And>v. snd (env v) = wk"
    and "Pubsub_Subscribe_in S mid env topic sub subType initialPosition queue w = (r, w')"
  shows "r = (if Dispatcher_ReqIDs (ep_Dispatcher w) rid \<noteq> None then Inl (ErrOutstandingReqID rid)
      else case fst (SendSimpleCmd S (Pubsub_subscribe_cmd rid cid topic sub subType initialPosition) (ep_S w)) of
          Some e \<Rightarrow> Inl e
        | None \<Rightarrow> (case wk of
              WakeCtx e \<Rightarrow> Inl (ErrCtx e)
            | WakeResp f \<Rightarrow>
                if BaseCommand_GetType (Frame_BaseCmd f) = BaseCommand_SUCCESS then Inr c
                else if BaseCommand_GetType (Frame_BaseCmd f) = BaseCommand_ERROR then Inl (Pubsub_server_error f)
                else Inl (NewUnexpectedErrMsg (BaseCommand_GetType (Frame_BaseCmd f)) [rid]))) \<and>
    (if r = Inr c then sub_consumers w' cid = Some c \<and> Consumer_ConsumerID (the_Consumer c w') = cid
     else sub_consumers w' cid = None)"
  using Pubsub_Subscribe_in_outcome [OF assms] unfolding subscribe_result_def .

theorem subscribe_outcome_witness:
  "fst demo_subscribe = Inr 0 \<and> sub_consumers (snd demo_subscribe) 0 = Some 0 \<and>
   Consumer_ConsumerID (the_Consumer 0 (snd demo_subscribe)) = 0"
proof -
  have w: "MonotonicID_ID (ep_ReqID demo_pubsub) = 0" "MonotonicID_ID (ps_ConsumerID demo_pubsub) = 0"
    "sub_consumers demo_pubsub 0 = None" "length (st_Consumers demo_pubsub) = 0"
    "Dispatcher_ReqIDs (ep_Dispatcher demo_pubsub) 0 = None"
    by (simp_all add: demo_pubsub_def NewSubscriptions_def NewFrameDispatcher_def)
  have snt: "fst (SendSimpleCmd mock_sender cmd (ep_S demo_pubsub)) = None" for cmd
    by (simp add: demo_pubsub_def mock_sender_def MockSender_SendSimpleCmd_def)
  have k: "ids_kept v v" for v :: "MockSender pubsub_state" by (simp add: ids_kept_def)
  show ?thesis
    unfolding Pubsub_Subscribe_def
    using subscribe_outcome [where mid = id and env = "\<lambda>v. (v, WakeResp (success_frame 0))" and wk = "WakeResp (success_frame 0)"
        and w = demo_pubsub and rid = 0 and cid = 0 and c = 0 and S = mock_sender and topic = "''t''" and sub = "''s''"
        and subType = CommandSubscribe_Shared and initialPosition = CommandSubscribe_Latest and queue = 0, OF _ _ _ _ _ _ _ _ _ prod.collapse [symmetric]]
    by (simp add: w snt k)
qed

text \<open>
  C29. The outcome of creating a producer, in the same environments: \<open>Producer\<close> returns the new producer
  exactly if its request id was not outstanding, the command could be sent and the wait ended with a
  PRODUCER_SUCCESS frame; the subscriptions then hold the producer, which has its id and the name the
  broker chose. Otherwise it returns the error of the registration, of the send, of the context or of
  the answer, and the subscriptions hold nothing for that id.
\<close>

theorem producer_outcome:
  assumes "rid = MonotonicID_ID (ep_ReqID w)" "pid = MonotonicID_ID (ps_ProducerID w)"
    and "sub_producers w pid = None" "p = length (st_Producers w)"
    and "\<And>v. ids_kept v (fst (env v))" "\<And>v. sub_producers (fst (env v)) pid = sub_producers v pid"
    and "\<And>v. snd (env v) = wk"
    and "Pubsub_Producer S env topic producerName w = (r, w')"
  shows "r = (if Dispatcher_ReqIDs (ep_Dispatcher w) rid \<noteq> None then Inl (ErrOutstandingReqID rid)
      else case fst (SendSimpleCmd S (Pubsub_producer_cmd rid pid topic producerName) (ep_S w)) of
          Some e \<Rightarrow> Inl e
        | None \<Rightarrow> (case wk of
              WakeCtx e \<Rightarrow> Inl (ErrCtx e)
            | WakeResp f \<Rightarrow>
                if BaseCommand_GetType (Frame_BaseCmd f) = BaseCommand_PRODUCER_SUCCESS then Inr p
                else if BaseCommand_GetType (Frame_BaseCmd f) = BaseCommand_ERROR then Inl (Pubsub_server_error f)
                else Inl (NewUnexpectedErrMsg (BaseCommand_GetType (Frame_BaseCmd f)) [rid]))) \<and>
    (if r = Inr p
     then sub_producers w' pid = Some p \<and> Producer_ProducerID (the_Producer p w') = pid \<and>
       (\<forall>f. wk = WakeResp f \<longrightarrow> Producer_ProducerName (the_Producer p w') =
          CommandProducerSuccess_GetProducerName (BaseCommand_GetProducerSuccess (Frame_BaseCmd f)))
     else sub_producers w' pid = None)"
proof -
  let ?w0 = "(snd (ep_Next w))\<lparr>ps_ProducerID := (ps_ProducerID w)\<lparr>MonotonicID_ID := pid + 1\<rparr>\<rparr>"
  let ?cmd = "Pubsub_producer_cmd rid pid topic producerName"
  have req: "request (KReq rid) (producer_send_cmd S ?cmd pid p) env (producer_handle_resp rid p) ?w0 = (r, w')"
    using assms(1,2,4,8) by (simp add: Pubsub_Producer_def Let_def)
  show ?thesis
  proof (cases "Dispatcher_ReqIDs (ep_Dispatcher w) rid")
    case (Some a)
    then have "RegisterReqID rid (ep_Dispatcher ?w0) = (Inl (ErrOutstandingReqID rid),
        (ep_Dispatcher w)\<lparr>disp_next := disp_next (ep_Dispatcher w) + 1\<rparr>)"
      by (simp add: RegisterReqID_def new_AsyncResp_def)
    with req Some assms(3) show ?thesis by (auto simp: request_def)
  next
    case None
    then have "disp_lookup (KReq rid) (ep_Dispatcher ?w0) = None" by simp
    from this req show ?thesis
    proof (cases rule: request_cases)
      case (failed h d e w1)
      from producer_send_failed [OF failed(1)] assms(4) None failed(2,3) show ?thesis by simp
    next
      case (answered h d w1 w2 wk' w3)
      from producer_send_sent [OF answered(1)] assms(4) have
        sent: "fst (SendSimpleCmd S ?cmd (ep_S w)) = None" "sub_producers w1 pid = Some p"
          "Producer_ProducerID (the_Producer p w1) = pid" "length (st_Producers w1) = Suc p" by simp_all
      have "wk' = wk" using assms(7) [of "ep_disp (resp_await h) w1"] answered(2) by simp
      moreover have "sub_producers w2 pid = Some p" "Producer_ProducerID (the_Producer p w2) = pid" "p < length (st_Producers w2)"
        using assms(5,6) [of "ep_disp (resp_await h) w1"] answered(2) sent(2-4) by (auto simp: ids_kept_def)
      ultimately show ?thesis using answered(3,4) None sent(1)
        by (auto simp: producer_handle_resp_def Let_def DelProducer_entry upd_Producer_entries split: wake.splits if_splits)
    qed
  qed
qed

definition producer_success_frame :: "u64 \<Rightarrow> string \<Rightarrow> Frame" where
  "producer_success_frame rid name = simple_frame (new_BaseCommand\<lparr>BaseCommand_Type := Some BaseCommand_PRODUCER_SUCCESS,
     BaseCommand_ProducerSuccess := Some (new_CommandProducerSuccess
       \<lparr>CommandProducerSuccess_RequestId := Some rid, CommandProducerSuccess_ProducerName := Some name\<rparr>)\<rparr>)"

abbreviation demo_producer :: "(go_error + nat) \<times> MockSender pubsub_state" where
  "demo_producer \<equiv> Pubsub_Producer mock_sender (\<lambda>v. (v, WakeResp (producer_success_frame 0 ''p''))) ''t'' '''' demo_pubsub"

theorem producer_outcome_witness:
  "fst demo_producer = Inr 0 \<and> sub_producers (snd demo_producer) 0 = Some 0 \<and>
   Producer_ProducerName (the_Producer 0 (snd demo_producer)) = ''p''"
proof -
  have w: "MonotonicID_ID (ep_ReqID demo_pubsub) = 0" "MonotonicID_ID (ps_ProducerID demo_pubsub) = 0"
    "sub_producers demo_pubsub 0 = None" "length (st_Producers demo_pubsub) = 0"
    "Dispatcher_ReqIDs (ep_Dispatcher demo_pubsub) 0 = None"
    by (simp_all add: demo_pubsub_def NewSubscriptions_def NewFrameDispatcher_def)
  have snt: "fst (SendSimpleCmd mock_sender cmd (ep_S demo_pubsub)) = None" for cmd
    by (simp add: demo_pubsub_def mock_sender_def MockSender_SendSimpleCmd_def)
  have k: "ids_kept v v" for v :: "MockSender pubsub_state" by (simp add: ids_kept_def)
  have f: "BaseCommand_GetType (Frame_BaseCmd (producer_success_frame 0 ''p'')) = BaseCommand_PRODUCER_SUCCESS"
    "CommandProducerSuccess_GetProducerName (BaseCommand_GetProducerSuccess (Frame_BaseCmd (producer_success_frame 0 ''p''))) = ''p''"
    by (simp_all add: producer_success_frame_def simple_frame_def BaseCommand_GetType_def BaseCommand_GetProducerSuccess_def
        CommandProducerSuccess_GetProducerName_def)
  show ?thesis
    using producer_outcome [where env = "\<lambda>v. (v, WakeResp (producer_success_frame 0 ''p''))"
        and wk = "WakeResp (producer_success_frame 0 ''p'')" and w = demo_pubsub and rid = 0 and pid = 0 and p = 0
        and S = mock_sender and topic = "''t''" and producerName = "''''", OF _ _ _ _ _ _ _ prod.collapse [symmetric]]
    by (simp add: w snt k f)
qed

text \<open>Messages for a consumer, handled one after the other by the read loop.\<close>

definition handle_messages :: "proto \<Rightarrow> u64 \<Rightarrow> Frame list \<Rightarrow> ('s, 'z) pubsub_state_scheme \<Rightarrow> ('s, 'z) pubsub_state_scheme" where
  "handle_messages pc cid fs w = fold (\<lambda>f v. snd (Subscriptions_HandleMessage pc cid f v)) fs w"

lemma handle_messages_room:
  assumes "sub_consumers w cid = Some c" "the_Consumer c w = x" "Consumer_Queue x < length (st_Queues w)"
    and "chan_inv (st_Queues w ! Consumer_Queue x)"
    and "length (ch_buf (st_Queues w ! Consumer_Queue x)) + length fs \<le> ch_cap (st_Queues w ! Consumer_Queue x)"
  shows "\<exists>q. handle_messages pc cid fs w = w\<lparr>st_Queues := (st_Queues w)[Consumer_Queue x := q]\<rparr> \<and> chan_inv q \<and>
    chan_history q = chan_history (st_Queues w ! Consumer_Queue x) @ map (Consumer_message x) fs \<and>
    ch_cap q = ch_cap (st_Queues w ! Consumer_Queue x) \<and>
    length (ch_buf q) \<le> length (ch_buf (st_Queues w ! Consumer_Queue x)) + length fs"
  using assms
proof (induction fs arbitrary: w)
  case Nil
  then show ?case by (intro exI [of _ "st_Queues w ! Consumer_Queue x"]) (simp add: handle_messages_def)
next
  case (Cons f fs)
  let ?q = "st_Queues w ! Consumer_Queue x"
  have "try_send (Consumer_message x f) ?q \<noteq> None" using Cons.prems(5) by (simp add: try_send_None)
  then obtain q' where q': "try_send (Consumer_message x f) ?q = Some q'" by blast
  have len: "length (ch_buf q') \<le> Suc (length (ch_buf ?q))" using q' by (auto simp: try_send_def split: if_splits)
  let ?w = "w\<lparr>st_Queues := (st_Queues w)[Consumer_Queue x := q']\<rparr>"
  have w: "snd (Subscriptions_HandleMessage pc cid f w) = ?w"
    using Cons.prems(1,2) q'
    by (simp add: Subscriptions_HandleMessage_def Consumer_HandleMessage_def Consumer_Messages_def Let_def)
  note p = try_send_inv [OF q' Cons.prems(4)] try_send_history [OF q' Cons.prems(4)] try_send_cap [OF q']
  obtain q where q: "handle_messages pc cid fs ?w = ?w\<lparr>st_Queues := (st_Queues ?w)[Consumer_Queue x := q]\<rparr>" "chan_inv q"
    "chan_history q = chan_history q' @ map (Consumer_message x) fs" "ch_cap q = ch_cap q'"
    "length (ch_buf q) \<le> length (ch_buf q') + length fs"
    using Cons.IH [of ?w] Cons.prems len p by auto
  have "handle_messages pc cid (f # fs) w = handle_messages pc cid fs ?w" by (simp add: handle_messages_def w)
  with q p len show ?case by (intro exI [of _ q]) auto
qed

text \<open>
  C17. No message is lost to the race between the answer to a subscribe command and the first messages:
  the messages \<open>fs\<close> for the new consumer that arrive as soon as the command is on the wire, before
  \<open>SendSimpleCmd\<close> has even returned, and the messages \<open>gs\<close> that arrive while \<open>Subscribe\<close> waits for
  the SUCCESS frame, are all in the queue that the consumer returned by \<open>Subscribe\<close> reads from, in
  order, if the queue has room for them.
\<close>

theorem subscribe_early_message:
  assumes "cid = MonotonicID_ID (ps_ConsumerID w)" "c = length (st_Consumers w)"
    and "Dispatcher_ReqIDs (ep_Dispatcher w) (MonotonicID_ID (ep_ReqID w)) = None"
    and "\<And>cmd s. fst (SendSimpleCmd S cmd s) = None"
    and "queue < length (st_Queues w)" "chan_inv (st_Queues w ! queue)"
    and "length (ch_buf (st_Queues w ! queue)) + length fs + length gs \<le> ch_cap (st_Queues w ! queue)"
    and "BaseCommand_GetType (Frame_BaseCmd answer) = BaseCommand_SUCCESS"
    and "Pubsub_Subscribe_in S (handle_messages pc cid fs) (\<lambda>v. (handle_messages pc cid gs v, WakeResp answer))
      topic sub subType initialPosition queue w = (r, w')"
  shows "r = Inr c \<and> chan_history (Consumer_Messages c w') =
    chan_history (st_Queues w ! queue) @ map (Consumer_message (newConsumer topic cid queue)) (fs @ gs)"
proof -
  let ?rid = "MonotonicID_ID (ep_ReqID w)" and ?x = "newConsumer topic cid queue"
  let ?w0 = "(snd (ep_Next w))\<lparr>ps_ConsumerID := (ps_ConsumerID w)\<lparr>MonotonicID_ID := cid + 1\<rparr>\<rparr>"
  let ?cmd = "Pubsub_subscribe_cmd ?rid cid topic sub subType initialPosition"
  let ?env = "\<lambda>v. (handle_messages pc cid gs v, WakeResp answer)"
  have x: "Consumer_Queue ?x = queue" by (simp add: newConsumer_def)
  have "disp_lookup (KReq ?rid) (ep_Dispatcher ?w0) = None" using assms(3) by simp
  moreover have "request (KReq ?rid) (subscribe_send S (handle_messages pc cid fs) ?cmd topic cid queue c) ?env
      (subscribe_handle ?rid c) ?w0 = (r, w')"
    using assms(1,2,9) by (simp add: Pubsub_Subscribe_in_request Let_def)
  ultimately show ?thesis
  proof (cases rule: request_cases)
    case (failed h d e w1)
    with assms(4) [of ?cmd "ep_S w"] show ?thesis
      by (auto simp: subscribe_send_def ep_send_def split: prod.splits)
  next
    case (answered h d w1 w2 wk w3)
    from subscribe_send_sent [OF answered(1)] obtain s where
      w1: "w1 = handle_messages pc cid fs ((subscribed topic cid queue c (?w0\<lparr>ep_Dispatcher := d\<rparr>))\<lparr>ep_S := s\<rparr>)" (is "_ = handle_messages _ _ _ ?v")
      by blast
    have v: "sub_consumers ?v cid = Some c" "the_Consumer c ?v = ?x" "st_Queues ?v = st_Queues w"
      "Consumer_Queue ?x < length (st_Queues ?v)"
      using assms(2,5) x by (simp_all add: nth_append)
    obtain q where q: "w1 = ?v\<lparr>st_Queues := (st_Queues w)[queue := q]\<rparr>" "chan_inv q"
      "chan_history q = chan_history (st_Queues w ! queue) @ map (Consumer_message ?x) fs"
      "ch_cap q = ch_cap (st_Queues w ! queue)" "length (ch_buf q) \<le> length (ch_buf (st_Queues w ! queue)) + length fs"
      using handle_messages_room [OF v(1,2,4), of fs pc] assms(6,7) unfolding v(3) x w1 by auto
    let ?u = "ep_disp (resp_await h) w1"
    have u: "sub_consumers ?u cid = Some c" "the_Consumer c ?u = ?x" "st_Queues ?u ! queue = q"
      "Consumer_Queue ?x < length (st_Queues ?u)"
      using v assms(5) x by (simp_all add: q(1) ep_disp_def)
    obtain q' where q': "w2 = ?u\<lparr>st_Queues := (st_Queues ?u)[queue := q']\<rparr>"
      "chan_history q' = chan_history q @ map (Consumer_message ?x) gs"
      using handle_messages_room [OF u(1,2,4), of gs pc] answered(2) assms(7) q(2,4,5) unfolding x u(3) by auto
    have "r = Inr c" "w3 = ep_disp (resp_leave h) w2"
      using answered(2,3) assms(8) by (auto simp: subscribe_handle_def Let_def)
    moreover from this have "Consumer_Messages c w' = q'"
      using answered(4) u(2,4) x by (simp add: q'(1) Consumer_Messages_def ep_disp_def)
    ultimately show ?thesis using q(3) q'(2) by simp
  qed
qed

abbreviation demo_early_subscribe :: "(go_error + nat) \<times> MockSender pubsub_state" where
  "demo_early_subscribe \<equiv> Pubsub_Subscribe_in mock_sender (handle_messages demo_proto 0 [demo_frame [1]])
     (\<lambda>v. (handle_messages demo_proto 0 [demo_frame [2]] v, WakeResp (success_frame 0)))
     ''t'' ''s'' CommandSubscribe_Shared CommandSubscribe_Latest 0 (demo_pubsub\<lparr>st_Queues := [make_chan 2]\<rparr>)"

theorem subscribe_early_message_witness:
  "fst demo_early_subscribe = Inr 0 \<and>
   chan_history (Consumer_Messages 0 (snd demo_early_subscribe)) =
   map (Consumer_message (newConsumer ''t'' 0 0)) [demo_frame [1], demo_frame [2]]"
  using subscribe_early_message [OF _ _ _ _ _ _ _ _ prod.collapse [symmetric], of 0 "demo_pubsub\<lparr>st_Queues := [make_chan 2]\<rparr>" 0
      mock_sender 0 "[demo_frame [1]]" "[demo_frame [2]]" "success_frame 0" demo_proto "''t''" "''s''"
      CommandSubscribe_Shared CommandSubscribe_Latest]
  by (simp add: demo_pubsub_def NewFrameDispatcher_def mock_sender_def MockSender_SendSimpleCmd_def
      make_chan_def chan_inv_def chan_history_def)

text \<open>
  Routing. A frame for an id the subscriptions do not hold is reported as unexpected and changes
  nothing. A CLOSE_CONSUMER frame for an id they hold closes that consumer and no other, removes the
  entry, and from then on a message for that id is unexpected.
\<close>

theorem subscriptions_route:
  assumes "subs_inv w"
  shows "(sub_consumers w i = None \<longrightarrow>
      Subscriptions_HandleMessage pc i f w = (Some (Some (sub_unexpected i f)), w) \<and>
      Subscriptions_HandleCloseConsumer i f w = (Some (sub_unexpected i f), w) \<and>
      Subscriptions_HandleReachedEndOfTopic i f w = (Some (sub_unexpected i f), w)) \<and>
    (\<forall>c. sub_consumers w i = Some c \<longrightarrow> (\<exists>w'. Subscriptions_HandleCloseConsumer i f w = (None, w') \<and>
      Consumer_Closed c w' \<and> sub_consumers w' = (sub_consumers w)(i := None) \<and>
      (\<forall>d. d \<noteq> c \<longrightarrow> the_Consumer d w' = the_Consumer d w) \<and> st_Queues w' = st_Queues w \<and>
      Subscriptions_HandleMessage pc i g w' = (Some (Some (sub_unexpected i g)), w')))"
proof (intro conjI impI allI)
  fix c
  assume c: "sub_consumers w i = Some c"
  from subs_invD(1) [OF assms c]
  show "\<exists>w'. Subscriptions_HandleCloseConsumer i f w = (None, w') \<and>
      Consumer_Closed c w' \<and> sub_consumers w' = (sub_consumers w)(i := None) \<and>
      (\<forall>d. d \<noteq> c \<longrightarrow> the_Consumer d w' = the_Consumer d w) \<and> st_Queues w' = st_Queues w \<and>
      Subscriptions_HandleMessage pc i g w' = (Some (Some (sub_unexpected i g)), w')"
    unfolding Subscriptions_HandleCloseConsumer_eq [OF assms c]
    by (auto simp: Consumer_Closed_def Subscriptions_HandleMessage_def)
qed (simp_all add: Subscriptions_HandleMessage_def Subscriptions_HandleCloseConsumer_def
    Subscriptions_HandleReachedEndOfTopic_def)

theorem subscriptions_route_witness:
  "Subscriptions_HandleMessage demo_proto 0 (demo_frame []) demo_pubsub =
     (Some (Some (sub_unexpected 0 (demo_frame []))), demo_pubsub)"
  using subscriptions_route [of demo_pubsub 0 demo_proto "demo_frame []" "demo_frame []"]
  by (simp add: subs_inv_new demo_pubsub_def NewSubscriptions_def)

end
