(* ===== verification/Client.thy ===== *)
theory Client
  imports Pubsub
begin

text \<open>
  The client of \<^verbatim>\<open>core/manage/client.go\<close>: one connection with the dispatcher, the
  subscriptions and the objects that use them, the loop that reads frames and the function that
  routes each of them. The loop handles a MESSAGE frame itself and starts a goroutine for any other
  frame; \<open>cl_spawned\<close> holds the frames of the goroutines that have not run yet. If the handler of a
  message blocks, \<open>cl_stuck\<close> is set and the frames behind it stay unread.
\<close>

section \<open>State\<close>

record 's Client = "'s pubsub_state" +
  cl_AsyncErrs :: AsyncErrors
  cl_Connector :: Connector
  cl_spawned :: "Frame list"
  cl_stuck :: bool
  cl_unread :: "Frame list"

definition new_Client :: "'s \<Rightarrow> AsyncErrors \<Rightarrow> AuthConfig \<Rightarrow> 's Client" where
  "new_Client cnx errs auth =
     \<lparr>ep_S = cnx, ep_Dispatcher = NewFrameDispatcher, ep_ReqID = \<lparr>MonotonicID_ID = 0\<rparr>,
      st_Producers = [], st_Consumers = [], st_Queues = [],
      ps_Subscriptions = NewSubscriptions, ps_ProducerID = \<lparr>MonotonicID_ID = 0\<rparr>,
      ps_ConsumerID = \<lparr>MonotonicID_ID = 0\<rparr>,
      cl_AsyncErrs = errs, cl_Connector = \<lparr>Connector_AuthConfig = auth\<rparr>,
      cl_spawned = [], cl_stuck = False, cl_unread = []\<rparr>"

definition Client_async_err :: "go_error \<Rightarrow> ('s, 'z) Client_scheme \<Rightarrow> ('s, 'z) Client_scheme" where
  "Client_async_err err w = w\<lparr>cl_AsyncErrs := AsyncErrors_Send err (cl_AsyncErrs w)\<rparr>"

section \<open>Handling a frame\<close>

text \<open>
  A notification of the dispatcher; while it blocks (\<open>None\<close>) it holds the entry it took.
\<close>

definition ep_notify ::
    "corr_key \<Rightarrow> Frame \<Rightarrow> ('s, 'z) endpoint_scheme \<Rightarrow> go_error option option \<times> ('s, 'z) endpoint_scheme" where
  "ep_notify k f w =
     (case disp_notify k f (ep_Dispatcher w) of
        Some (e, d) \<Rightarrow> (Some e, w\<lparr>ep_Dispatcher := d\<rparr>)
      | None \<Rightarrow> (None, w\<lparr>ep_Dispatcher := snd (disp_take k (ep_Dispatcher w))\<rparr>))"

definition now :: "go_error option \<times> 'w \<Rightarrow> go_error option option \<times> 'w" where
  "now r = (Some (fst r), snd r)"

definition Client_route ::
    "proto \<Rightarrow> 's CmdSender \<Rightarrow> Frame \<Rightarrow> ('s, 'z) pubsub_state_scheme \<Rightarrow>
     go_error option option \<times> ('s, 'z) pubsub_state_scheme" where
  "Client_route pc S f w =
     (let cmd = Frame_BaseCmd f; msgType = BaseCommand_GetType cmd in
      case msgType of
        BaseCommand_CONNECTED \<Rightarrow> ep_notify KGlobal f w
      | BaseCommand_PONG \<Rightarrow> ep_notify KGlobal f w
      | BaseCommand_SUCCESS \<Rightarrow>
          ep_notify (KReq (CommandSuccess_GetRequestId (BaseCommand_GetSuccess cmd))) f w
      | BaseCommand_ERROR \<Rightarrow>
          ep_notify (KReq (CommandError_GetRequestId (BaseCommand_GetError cmd))) f w
      | BaseCommand_LOOKUP_RESPONSE \<Rightarrow>
          ep_notify (KReq (CommandLookupTopicResponse_GetRequestId (BaseCommand_GetLookupTopicResponse cmd))) f w
      | BaseCommand_PARTITIONED_METADATA_RESPONSE \<Rightarrow>
          ep_notify (KReq (CommandPartitionedTopicMetadataResponse_GetRequestId
            (BaseCommand_GetPartitionMetadataResponse cmd))) f w
      | BaseCommand_PRODUCER_SUCCESS \<Rightarrow>
          ep_notify (KReq (CommandProducerSuccess_GetRequestId (BaseCommand_GetProducerSuccess cmd))) f w
      | BaseCommand_SEND_RECEIPT \<Rightarrow>
          (let msg = BaseCommand_GetSendReceipt cmd
           in ep_notify (KProdSeq (CommandSendReceipt_GetProducerId msg) (CommandSendReceipt_GetSequenceId msg)) f w)
      | BaseCommand_SEND_ERROR \<Rightarrow>
          (let msg = BaseCommand_GetSendError cmd
           in ep_notify (KProdSeq (CommandSendError_GetProducerId msg) (CommandSendError_GetSequenceId msg)) f w)
      | BaseCommand_CLOSE_PRODUCER \<Rightarrow>
          now (Subscriptions_HandleCloseProducer
            (CommandCloseProducer_GetProducerId (BaseCommand_GetCloseProducer cmd)) f w)
      | BaseCommand_CLOSE_CONSUMER \<Rightarrow>
          now (Subscriptions_HandleCloseConsumer
            (CommandCloseConsumer_GetConsumerId (BaseCommand_GetCloseConsumer cmd)) f w)
      | BaseCommand_REACHED_END_OF_TOPIC \<Rightarrow>
          now (Subscriptions_HandleReachedEndOfTopic
            (CommandReachedEndOfTopic_GetConsumerId (BaseCommand_GetReachedEndOfTopic cmd)) f w)
      | BaseCommand_MESSAGE \<Rightarrow>
          Subscriptions_HandleMessage pc (CommandMessage_GetConsumerId (BaseCommand_GetMessage cmd)) f w
      | BaseCommand_PING \<Rightarrow> now (Pinger_HandlePing S msgType (BaseCommand_GetPing cmd) w)
      | BaseCommand_ACTIVE_CONSUMER_CHANGE \<Rightarrow>
          now (Subscriptions_HandleActiveConsumerChange
            (CommandActiveConsumerChange_GetConsumerId (BaseCommand_GetActiveConsumerChange cmd)) f w)
      | _ \<Rightarrow> (Some (Some (ErrUnhandled msgType)), w))"

text \<open>The first component says whether the call has returned.\<close>

definition Client_handleFrame ::
    "proto \<Rightarrow> 's CmdSender \<Rightarrow> Frame \<Rightarrow> ('s, 'z) Client_scheme \<Rightarrow> bool \<times> ('s, 'z) Client_scheme" where
  "Client_handleFrame pc S f w =
     (case Client_route pc S f w of
        (None, w1) \<Rightarrow> (False, w1)
      | (Some None, w1) \<Rightarrow> (True, w1)
      | (Some (Some err), w1) \<Rightarrow> (True, Client_async_err err w1))"

section \<open>The read loop\<close>

definition Client_handler ::
    "proto \<Rightarrow> 's CmdSender \<Rightarrow> Frame \<Rightarrow> ('s, 'z) Client_scheme \<Rightarrow> ('s, 'z) Client_scheme" where
  "Client_handler pc S f w =
     (if cl_stuck w then w\<lparr>cl_unread := cl_unread w @ [f]\<rparr>
      else if BaseCommand_GetType (Frame_BaseCmd f) = BaseCommand_MESSAGE
      then (case Client_handleFrame pc S f w of (returned, w1) \<Rightarrow> w1\<lparr>cl_stuck := \<not> returned\<rparr>)
      else w\<lparr>cl_spawned := cl_spawned w @ [f]\<rparr>)"

definition Client_Close :: "(Conn, 'z) Client_scheme \<Rightarrow> go_error option \<times> (Conn, 'z) Client_scheme" where
  "Client_Close w = (case Conn_Close (ep_S w) of (e, c) \<Rightarrow> (e, w\<lparr>ep_S := c\<rparr>))"

definition Client_Closed :: "(Conn, 'z) Client_scheme \<Rightarrow> bool" where
  "Client_Closed w = Conn_Closed (ep_S w)"

text \<open>The goroutine of \<open>NewClient\<close>: read until an error, report it, close the connection.\<close>

definition Client_read :: "proto \<Rightarrow> (Conn, 'z) Client_scheme \<Rightarrow> (Conn, 'z) Client_scheme" where
  "Client_read pc w =
     (case read_loop pc (Client_handler pc (conn_sender pc)) (Conn_Rc (ep_S w)) w of
        (err, rc, w1) \<Rightarrow>
          if cl_stuck w1 then w1
          else
            (let w2 = Client_async_err err
                   (w1\<lparr>ep_S := snd (Conn_Close ((ep_S w1)\<lparr>Conn_Rc := rc\<rparr>))\<rparr>)
             in case Client_Close w2 of
                  (None, w3) \<Rightarrow> w3
                | (Some e, w3) \<Rightarrow> Client_async_err e w3))"

text \<open>A goroutine the read loop started runs.\<close>

definition Client_run_spawned ::
    "proto \<Rightarrow> 's CmdSender \<Rightarrow> Frame \<Rightarrow> ('s, 'z) Client_scheme \<Rightarrow> bool \<times> ('s, 'z) Client_scheme" where
  "Client_run_spawned pc S f w =
     Client_handleFrame pc S f (w\<lparr>cl_spawned := remove1 f (cl_spawned w)\<rparr>)"

section \<open>Methods\<close>

definition AuthMethodTLS :: string where
  "AuthMethodTLS = ''tls''"

definition Client_Connect ::
    "'s CmdSender \<Rightarrow> (('s, 'z) Client_scheme \<Rightarrow> ('s, 'z) Client_scheme \<times> connect_wake) \<Rightarrow> string \<Rightarrow>
     ('s, 'z) Client_scheme \<Rightarrow> (go_error + CommandConnected option) \<times> ('s, 'z) Client_scheme" where
  "Client_Connect S env proxyBrokerURL w = Connector_Connect S (cl_Connector w) env '''' proxyBrokerURL w"

definition Client_ConnectTLS ::
    "'s CmdSender \<Rightarrow> (('s, 'z) Client_scheme \<Rightarrow> ('s, 'z) Client_scheme \<times> connect_wake) \<Rightarrow> string \<Rightarrow>
     ('s, 'z) Client_scheme \<Rightarrow> (go_error + CommandConnected option) \<times> ('s, 'z) Client_scheme" where
  "Client_ConnectTLS S env proxyBrokerURL w = Connector_Connect S (cl_Connector w) env AuthMethodTLS proxyBrokerURL w"

definition Client_Ping ::
    "'s CmdSender \<Rightarrow> (('s, 'z) Client_scheme \<Rightarrow> ('s, 'z) Client_scheme \<times> wake) \<Rightarrow>
     ('s, 'z) Client_scheme \<Rightarrow> (go_error + unit) \<times> ('s, 'z) Client_scheme" where
  "Client_Ping S env w = Pinger_Ping S env w"

definition Client_LookupTopic ::
    "'s CmdSender \<Rightarrow> (('s, 'z) Client_scheme \<Rightarrow> ('s, 'z) Client_scheme \<times> wake) \<Rightarrow> string \<Rightarrow> bool \<Rightarrow>
     ('s, 'z) Client_scheme \<Rightarrow> (go_error + CommandLookupTopicResponse option) \<times> ('s, 'z) Client_scheme" where
  "Client_LookupTopic S env topic authoritative w = Discoverer_LookupTopic S env topic authoritative w"

definition Client_NewProducer ::
    "'s CmdSender \<Rightarrow> (('s, 'z) Client_scheme \<Rightarrow> ('s, 'z) Client_scheme \<times> wake) \<Rightarrow> string \<Rightarrow> string \<Rightarrow>
     ('s, 'z) Client_scheme \<Rightarrow> (go_error + nat) \<times> ('s, 'z) Client_scheme" where
  "Client_NewProducer S env topic producerName w = Pubsub_Producer S env topic producerName w"

definition initial_position :: "bool \<Rightarrow> CommandSubscribe_InitialPosition" where
  "initial_position earliest = (if earliest then CommandSubscribe_Earliest else CommandSubscribe_Latest)"

definition Client_NewSharedConsumer ::
    "'s CmdSender \<Rightarrow> (('s, 'z) Client_scheme \<Rightarrow> ('s, 'z) Client_scheme \<times> wake) \<Rightarrow> string \<Rightarrow> string \<Rightarrow> bool \<Rightarrow> nat \<Rightarrow>
     ('s, 'z) Client_scheme \<Rightarrow> (go_error + nat) \<times> ('s, 'z) Client_scheme" where
  "Client_NewSharedConsumer S env topic subscriptionName earliest queue w =
     Pubsub_Subscribe S env topic subscriptionName CommandSubscribe_Shared (initial_position earliest) queue w"

definition Client_NewExclusiveConsumer ::
    "'s CmdSender \<Rightarrow> (('s, 'z) Client_scheme \<Rightarrow> ('s, 'z) Client_scheme \<times> wake) \<Rightarrow> string \<Rightarrow> string \<Rightarrow> bool \<Rightarrow> nat \<Rightarrow>
     ('s, 'z) Client_scheme \<Rightarrow> (go_error + nat) \<times> ('s, 'z) Client_scheme" where
  "Client_NewExclusiveConsumer S env topic subscriptionName earliest queue w =
     Pubsub_Subscribe S env topic subscriptionName CommandSubscribe_Exclusive (initial_position earliest) queue w"

definition Client_NewFailoverConsumer ::
    "'s CmdSender \<Rightarrow> (('s, 'z) Client_scheme \<Rightarrow> ('s, 'z) Client_scheme \<times> wake) \<Rightarrow> string \<Rightarrow> string \<Rightarrow> bool \<Rightarrow> nat \<Rightarrow>
     ('s, 'z) Client_scheme \<Rightarrow> (go_error + nat) \<times> ('s, 'z) Client_scheme" where
  "Client_NewFailoverConsumer S env topic subscriptionName earliest queue w =
     Pubsub_Subscribe S env topic subscriptionName CommandSubscribe_Failover (initial_position earliest) queue w"

section \<open>Lemmas\<close>

lemma ep_Dispatcher_HandleMessage [simp]:
  "ep_Dispatcher (snd (Consumer_HandleMessage pc c f w)) = ep_Dispatcher w"
  by (simp add: Consumer_HandleMessage_def Let_def split: option.split)

lemma ep_Dispatcher_handlers [simp]:
  "ep_Dispatcher (snd (Subscriptions_HandleMessage pc i f v)) = ep_Dispatcher v"
  "ep_Dispatcher (snd (Subscriptions_HandleActiveConsumerChange i f v)) = ep_Dispatcher v"
  "ep_Dispatcher (snd (Subscriptions_HandleReachedEndOfTopic i f v)) = ep_Dispatcher v"
  "ep_Dispatcher (snd (Subscriptions_HandleCloseConsumer i f v)) = ep_Dispatcher v"
  "ep_Dispatcher (snd (Subscriptions_HandleCloseProducer i f v)) = ep_Dispatcher v"
  "ep_Dispatcher (snd (Pinger_HandlePing S t m u)) = ep_Dispatcher u"
  by (simp_all add: Subscriptions_HandleMessage_def Subscriptions_HandleActiveConsumerChange_def
    Subscriptions_HandleReachedEndOfTopic_def Subscriptions_HandleCloseConsumer_def
    Subscriptions_HandleCloseProducer_def Consumer_HandleCloseConsumer_def Consumer_set_closed_def
    Consumer_HandleReachedEndOfTopic_def Producer_HandleCloseProducer_def Producer_set_closed_def Pinger_HandlePing_def Let_def
    split: option.split prod.splits sum.splits)

lemma now_simps [simp]: "snd (now r) = snd r" "fst (now r) = Some (fst r)"
  by (simp_all add: now_def)

text \<open>A frame is either a notification under one key, or does not touch the dispatcher.\<close>

lemma Client_route_cases:
  obtains (notify) k where "Client_route pc S f w = ep_notify k f w"
    | (other) "ep_Dispatcher (snd (Client_route pc S f w)) = ep_Dispatcher w"
  by (cases "BaseCommand_GetType (Frame_BaseCmd f)") (simp_all add: Client_route_def Let_def)

lemma ep_notify_run:
  assumes "dreach s" "ds_d s = ep_Dispatcher w"
  shows "\<exists>s'. dstep\<^sup>*\<^sup>* s s' \<and> ds_d s' = ep_Dispatcher (snd (ep_notify k f w))"
proof (cases "disp_notify k f (ep_Dispatcher w)")
  case None
  then obtain a where "disp_lookup k (ds_d s) = Some a"
    using disp.notify_None [of k "ds_d s" f] assms(2) by (cases "disp_lookup k (ds_d s)") auto
  then have "disp_take k (ds_d s) = (Some a, snd (disp_take k (ds_d s)))"
    using disp.fetch_fst [of k "ds_d s"] by (metis prod.collapse)
  from dstep.take_some [OF this] show ?thesis
    by (intro exI conjI, rule r_into_rtranclp) (use None assms(2) in \<open>simp add: ep_notify_def\<close>)
next
  case (Some r)
  with notify_run [OF assms(1), of k f "fst r" "snd r"] assms(2) show ?thesis
    by (auto simp: ep_notify_def split: prod.splits)
qed

lemma ep_Dispatcher_async_err [simp]: "ep_Dispatcher (Client_async_err e w) = ep_Dispatcher w"
  by (simp add: Client_async_err_def)

lemma Client_handleFrame_run:
  assumes "dreach s" "ds_d s = ep_Dispatcher w"
  shows "\<exists>s'. dstep\<^sup>*\<^sup>* s s' \<and> ds_d s' = ep_Dispatcher (snd (Client_handleFrame pc S f w))"
proof -
  have eq: "ep_Dispatcher (snd (Client_handleFrame pc S f w)) = ep_Dispatcher (snd (Client_route pc S f w))"
    by (simp add: Client_handleFrame_def split: prod.split option.split)
  show ?thesis
    unfolding eq
    by (cases rule: Client_route_cases [of pc S f w])
      (use ep_notify_run [OF assms] assms(2) in \<open>auto intro: exI [of _ s]\<close>)
qed

lemma ep_notify_subs_inv [simp]: "subs_inv (snd (ep_notify k f w)) = subs_inv w"
  by (simp add: ep_notify_def split: option.split prod.split)

lemma Client_handleFrame_subs_inv:
  assumes "subs_inv w"
  shows "subs_inv (snd (Client_handleFrame pc S f w))"
proof -
  have "subs_inv (snd (Client_route pc S f w))"
    using Subscriptions_handlers_subs_inv [OF assms] Subscriptions_HandleMessage_subs_inv [OF assms] assms
    by (cases "BaseCommand_GetType (Frame_BaseCmd f)")
      (simp_all add: Client_route_def Let_def Pinger_HandlePing_def)
  then show ?thesis
    by (auto simp: Client_handleFrame_def Client_async_err_def subs_inv_def split: prod.split option.split)
qed

section \<open>Properties\<close>

text \<open>
  Handling any frame, whether the call returns or blocks, keeps the subscriptions well-formed and
  is, for the dispatcher, a run of its protocol. So the reader and the goroutines it starts are an
  environment in which the guarantees for requests hold.
\<close>

theorem handle_frame_safe:
  assumes "dreach s" "ds_d s = ep_Dispatcher w" "subs_inv w"
  shows "subs_inv (snd (Client_handleFrame pc S f w)) \<and>
    (\<exists>s'. dstep\<^sup>*\<^sup>* s s' \<and> ds_d s' = ep_Dispatcher (snd (Client_handleFrame pc S f w)))"
  using Client_handleFrame_subs_inv [OF assms(3)] Client_handleFrame_run [OF assms(1,2)] by blast

definition demo_client :: "MockSender Client" where
  "demo_client = new_Client \<lparr>MockSender_Frames = [], MockSender_Closedc = False\<rparr> None
     \<lparr>AuthConfig_AuthMethod = '''', AuthConfig_AuthData = None\<rparr>"

theorem handle_frame_safe_witness:
  "subs_inv (snd (Client_handleFrame demo_proto mock_sender (demo_frame []) demo_client))"
  using handle_frame_safe [OF dreach.init, of demo_client demo_proto mock_sender "demo_frame []"]
  by (simp add: demo_client_def new_Client_def dstate_init_def subs_inv_new)

text \<open>The queue of a consumer after a list of message frames.\<close>

definition message_frame_for :: "u64 \<Rightarrow> Frame \<Rightarrow> bool" where
  "message_frame_for i f \<longleftrightarrow>
     BaseCommand_GetType (Frame_BaseCmd f) = BaseCommand_MESSAGE \<and>
     CommandMessage_GetConsumerId (BaseCommand_GetMessage (Frame_BaseCmd f)) = i"

lemma Client_handler_message:
  assumes "message_frame_for i f" "\<not> cl_stuck w" "sub_consumers w i = Some c"
    and "try_send (Consumer_message (the_Consumer c w) f) (Consumer_Messages c w) = Some q'"
  shows "Client_handler pc S f w = w\<lparr>st_Queues := (st_Queues w)[Consumer_Queue (the_Consumer c w) := q']\<rparr>"
proof -
  have "Client_route pc S f w =
      (Some None, w\<lparr>st_Queues := (st_Queues w)[Consumer_Queue (the_Consumer c w) := q']\<rparr>)"
    using assms by (simp add: Client_route_def message_frame_for_def Subscriptions_HandleMessage_def
        Consumer_HandleMessage_def Let_def)
  with assms(1,2) show ?thesis
    by (cases w) (simp add: Client_handler_def Client_handleFrame_def message_frame_for_def)
qed

lemma Client_handler_messages:
  assumes "\<forall>f \<in> set fs. message_frame_for i f" "\<not> cl_stuck w" "sub_consumers w i = Some c"
    and "Consumer_Queue (the_Consumer c w) < length (st_Queues w)" "chan_inv (Consumer_Messages c w)"
    and "length (ch_buf (Consumer_Messages c w)) + length fs \<le> ch_cap (Consumer_Messages c w)"
  shows "\<exists>qs. fold (Client_handler pc S) fs w = w\<lparr>st_Queues := qs\<rparr> \<and>
    chan_history (qs ! Consumer_Queue (the_Consumer c w)) =
      chan_history (Consumer_Messages c w) @ map (Consumer_message (the_Consumer c w)) fs"
  using assms
proof (induction fs arbitrary: w)
  case Nil
  then show ?case by (intro exI [of _ "st_Queues w"]) (cases w, simp add: Consumer_Messages_def)
next
  case (Cons f fs)
  let ?m = "Consumer_message (the_Consumer c w) f" and ?q = "Consumer_Messages c w"
  have "try_send ?m ?q \<noteq> None" using Cons.prems(6) by (simp add: try_send_None)
  then obtain q' where q': "try_send ?m ?q = Some q'" by blast
  let ?w1 = "w\<lparr>st_Queues := (st_Queues w)[Consumer_Queue (the_Consumer c w) := q']\<rparr>"
  have step: "Client_handler pc S f w = ?w1"
    using Cons.prems by (intro Client_handler_message [OF _ _ _ q']) simp_all
  have q1: "Consumer_Messages c ?w1 = q'" using Cons.prems(4) by (simp add: Consumer_Messages_def)
  have room: "length (ch_buf q') \<le> length (ch_buf ?q) + 1" "ch_cap q' = ch_cap ?q"
    using q' by (auto simp: try_send_def split: if_splits)
  have "\<exists>qs. fold (Client_handler pc S) fs ?w1 = ?w1\<lparr>st_Queues := qs\<rparr> \<and>
      chan_history (qs ! Consumer_Queue (the_Consumer c ?w1)) =
        chan_history (Consumer_Messages c ?w1) @ map (Consumer_message (the_Consumer c ?w1)) fs"
    by (rule Cons.IH) (use Cons.prems room q1 try_send_inv [OF q' Cons.prems(5)] in simp_all)
  with step q1 try_send_history [OF q' Cons.prems(5)] show ?case by simp
qed

text \<open>
  C4. Messages arrive in order and complete: if the bytes on the connection are MESSAGE frames for a
  consumer, and its queue has room for them, then reading the connection to its end puts exactly
  these messages into the queue, in the order they were sent, and closes the connection.
\<close>

theorem messages_in_order:
  fixes w :: "(Conn, 'z) Client_scheme"
  assumes "\<forall>f \<in> set fs. message_frame_for i f \<and> encodable pc f"
    and "Conn_Rc (ep_S w) = \<lparr>rd_data = wires pc fs, rd_err = EOF\<rparr>" "conn_close_err (ep_S w) = None"
    and "\<not> Conn_IsClosed (ep_S w)" "\<not> Conn_Closedc (ep_S w)" "\<not> cl_stuck w" "sub_consumers w i = Some c"
    and "Consumer_Queue (the_Consumer c w) < length (st_Queues w)" "chan_inv (Consumer_Messages c w)"
    and "length (ch_buf (Consumer_Messages c w)) + length fs \<le> ch_cap (Consumer_Messages c w)"
  shows "chan_history (Consumer_Messages c (Client_read pc w)) =
      chan_history (Consumer_Messages c w) @ map (Consumer_message (the_Consumer c w)) fs \<and>
    Client_Closed (Client_read pc w) \<and> cl_AsyncErrs (Client_read pc w) = AsyncErrors_Send EOF (cl_AsyncErrs w)"
proof -
  obtain qs where fold: "fold (Client_handler pc (conn_sender pc)) fs w = w\<lparr>st_Queues := qs\<rparr>"
    and hist: "chan_history (qs ! Consumer_Queue (the_Consumer c w)) =
      chan_history (Consumer_Messages c w) @ map (Consumer_message (the_Consumer c w)) fs"
    using Client_handler_messages [of fs i w c pc "conn_sender pc"] assms by blast
  have "read_loop pc h \<lparr>rd_data = [], rd_err = EOF\<rparr> v = (EOF, \<lparr>rd_data = [], rd_err = EOF\<rparr>, v)" for h and v :: "(Conn, 'z) Client_scheme"
    by (subst read_loop.simps) (simp add: Frame_Decode_Nil)
  with read_loop_wires [of fs pc "Client_handler pc (conn_sender pc)" "[]" EOF w] assms(1) fold
  have loop: "read_loop pc (Client_handler pc (conn_sender pc)) (Conn_Rc (ep_S w)) w =
      (EOF, \<lparr>rd_data = [], rd_err = EOF\<rparr>, w\<lparr>st_Queues := qs\<rparr>)"
    by (simp add: assms(2))
  show ?thesis
    using assms(3-6) hist
    by (simp add: Client_read_def loop Conn_Close_def close_signal_def Client_Close_def Client_Closed_def
        Conn_Closed_def Client_async_err_def Consumer_Messages_def Let_def)
qed

definition demo_message_cmd :: BaseCommand where
  "demo_message_cmd = new_BaseCommand\<lparr>BaseCommand_Type := Some BaseCommand_MESSAGE,
     BaseCommand_Message := Some (new_CommandMessage\<lparr>CommandMessage_ConsumerId := Some 0\<rparr>)\<rparr>"

definition demo_message_proto :: proto where
  "demo_message_proto = cmd_proto demo_message_cmd [8, 9, 74, 6, 8, 0, 18, 4, 8, 0, 16, 0]"

definition demo_message :: Frame where
  "demo_message = payload_frame demo_message_cmd demo_meta [7]"

lemma demo_message_encodable: "encodable demo_message_proto demo_message"
proof -
  have valid: "frame_valid demo_message_proto demo_message"
    by (simp add: frame_valid_def demo_message_def payload_frame_def demo_message_proto_def cmd_proto_def
        proto_cmd_ok_def proto_meta_ok_def encoded_size_def demo_proto_def)
  have "fst (Frame_Encode demo_message_proto demo_message new_buffer) = None"
    by (subst Frame_Encode_payload [where cmd = "[8, 9, 74, 6, 8, 0, 18, 4, 8, 0, 16, 0]" and m = demo_meta
          and meta = "[10, 1, 112, 16, 0, 24, 0]"])
      (simp_all add: demo_message_def payload_frame_def demo_message_proto_def cmd_proto_def demo_proto_def
        MaxFrameSize_def new_buffer_def)
  with valid show ?thesis by (simp add: encodable_def)
qed

lemma demo_message_for: "message_frame_for 0 demo_message"
  by (simp add: message_frame_for_def demo_message_def payload_frame_def demo_message_cmd_def
      BaseCommand_GetType_def BaseCommand_GetMessage_def CommandMessage_GetConsumerId_def)

definition demo_conn_client :: "Conn Client" where
  "demo_conn_client =
     (new_Client (new_Conn \<lparr>rd_data = wires demo_message_proto [demo_message, demo_message], rd_err = EOF\<rparr> new_buffer None)
       None \<lparr>AuthConfig_AuthMethod = '''', AuthConfig_AuthData = None\<rparr>)
     \<lparr>st_Consumers := [newConsumer ''t'' 0 0], st_Queues := [make_chan 2],
      ps_Subscriptions := NewSubscriptions\<lparr>Subscriptions_Consumers := [0 \<mapsto> 0]\<rparr>\<rparr>"

theorem messages_in_order_witness:
  "chan_history (Consumer_Messages 0 (Client_read demo_message_proto demo_conn_client)) =
     map (Consumer_message (newConsumer ''t'' 0 0)) [demo_message, demo_message]"
  using messages_in_order [of "[demo_message, demo_message]" 0 demo_message_proto demo_conn_client 0]
    demo_message_for demo_message_encodable
  by (simp add: demo_conn_client_def new_Client_def new_Conn_def Consumer_Messages_def newConsumer_def
      make_chan_def chan_inv_def chan_history_def)

end
