(* ===== verification/Server.thy ===== *)
theory Server
  imports Client "HOL-Library.AList"
begin

text \<open>
  The Pulsar server of \<^verbatim>\<open>core/srv/server.go\<close> that the client's tests run against: the answers it
  gives, its connections, and the loop that serves one of them. Reading a field of a nil message is
  a panic. The map of connections is an association list, in the order in which a range over it
  visits them. Listening and accepting are the network's part: \<open>Server_Accept\<close> is what the server
  does with a connection it is given.
\<close>

section \<open>State\<close>

record topicLookupResp =
  topicLookupResp_respType :: CommandLookupTopicResponse_LookupType
  topicLookupResp_proxyThroughServiceURL :: bool
  topicLookupResp_brokerServiceURL :: string

record Server =
  Server_Addr :: string
  Server_Received :: "Frame chan"
  Server_topicLookupResps :: "string \<rightharpoonup> topicLookupResp"
  Server_ignoreConnects :: bool
  Server_ignorePings :: bool
  Server_totalConns :: nat
  Server_conns :: "(string \<times> Conn) list"

definition NewServer :: "string \<Rightarrow> Server" where
  "NewServer listenAddr =
     \<lparr>Server_Addr = ''pulsar://'' @ listenAddr, Server_Received = make_chan 128,
      Server_topicLookupResps = Map.empty, Server_ignoreConnects = False, Server_ignorePings = False,
      Server_totalConns = 0, Server_conns = []\<rparr>"

definition Server_Accept :: "string \<Rightarrow> Conn \<Rightarrow> Server \<Rightarrow> Server" where
  "Server_Accept remoteAddr c srv =
     srv\<lparr>Server_totalConns := Server_totalConns srv + 1,
         Server_conns := AList.update remoteAddr c (Server_conns srv)\<rparr>"

definition Server_SetIgnorePings :: "bool \<Rightarrow> Server \<Rightarrow> Server" where
  "Server_SetIgnorePings ignore m = m\<lparr>Server_ignorePings := ignore\<rparr>"

definition Server_SetIgnoreConnects :: "bool \<Rightarrow> Server \<Rightarrow> Server" where
  "Server_SetIgnoreConnects ignore m = m\<lparr>Server_ignoreConnects := ignore\<rparr>"

definition Server_SetTopicLookupResp ::
    "string \<Rightarrow> string \<Rightarrow> CommandLookupTopicResponse_LookupType \<Rightarrow> bool \<Rightarrow> Server \<Rightarrow> Server" where
  "Server_SetTopicLookupResp topic serviceURL respType proxyThroughServiceURL m =
     m\<lparr>Server_topicLookupResps := (Server_topicLookupResps m)(topic \<mapsto>
         \<lparr>topicLookupResp_respType = respType,
          topicLookupResp_proxyThroughServiceURL = proxyThroughServiceURL,
          topicLookupResp_brokerServiceURL = serviceURL\<rparr>)\<rparr>"

definition Server_TotalNumConns :: "Server \<Rightarrow> nat" where
  "Server_TotalNumConns m = Server_totalConns m"

section \<open>Answers\<close>

definition nil_panic :: go_error where
  "nil_panic = ErrPanic ''nil pointer dereference''"

definition Server_lookup_resp :: "Server \<Rightarrow> CommandLookupTopic option \<Rightarrow> topicLookupResp" where
  "Server_lookup_resp m lookup =
     (case Server_topicLookupResps m (CommandLookupTopic_GetTopic lookup) of
        Some topicResp \<Rightarrow> topicResp
      | None \<Rightarrow> \<lparr>topicLookupResp_respType = CommandLookupTopicResponse_Connect,
                 topicLookupResp_proxyThroughServiceURL = False,
                 topicLookupResp_brokerServiceURL = Server_Addr m\<rparr>)"

definition Server_lookup_frame :: "topicLookupResp \<Rightarrow> u64 option \<Rightarrow> Frame" where
  "Server_lookup_frame resp requestId =
     simple_frame (new_BaseCommand\<lparr>BaseCommand_Type := Some BaseCommand_LOOKUP_RESPONSE,
       BaseCommand_LookupTopicResponse := Some (new_CommandLookupTopicResponse
         \<lparr>CommandLookupTopicResponse_Response := Some (topicLookupResp_respType resp),
          CommandLookupTopicResponse_RequestId := requestId,
          CommandLookupTopicResponse_Authoritative := Some True,
          CommandLookupTopicResponse_BrokerServiceUrl := Some (topicLookupResp_brokerServiceURL resp),
          CommandLookupTopicResponse_ProxyThroughServiceUrl := Some (topicLookupResp_proxyThroughServiceURL resp),
          CommandLookupTopicResponse_Error :=
            (if topicLookupResp_respType resp \<noteq> CommandLookupTopicResponse_Failed then None
             else Some ServerError_TopicNotFound)\<rparr>)\<rparr>)"

definition Server_handleFrame :: "Server \<Rightarrow> Frame \<Rightarrow> go_error + Frame option" where
  "Server_handleFrame m f =
     (let cmd = Frame_BaseCmd f in
      case BaseCommand_GetType cmd of
        BaseCommand_CONNECT \<Rightarrow>
          Inr (if Server_ignoreConnects m then None
               else Some (simple_frame (new_BaseCommand\<lparr>BaseCommand_Type := Some BaseCommand_CONNECTED,
                      BaseCommand_Connected := Some (new_CommandConnected
                        \<lparr>CommandConnected_ProtocolVersion := Some 10,
                         CommandConnected_ServerVersion := Some ''mock''\<rparr>)\<rparr>)))
      | BaseCommand_PING \<Rightarrow>
          Inr (if Server_ignorePings m then None
               else Some (simple_frame (new_BaseCommand\<lparr>BaseCommand_Type := Some BaseCommand_PONG,
                      BaseCommand_Pong := Some CommandPong\<rparr>)))
      | BaseCommand_LOOKUP \<Rightarrow>
          (case BaseCommand_GetLookupTopic cmd of
             None \<Rightarrow> Inl nil_panic
           | Some lookup \<Rightarrow>
               Inr (Some (Server_lookup_frame (Server_lookup_resp m (Some lookup)) (CommandLookupTopic_RequestId lookup))))
      | BaseCommand_PRODUCER \<Rightarrow>
          (case BaseCommand_GetProducer cmd of
             None \<Rightarrow> Inl nil_panic
           | Some pr \<Rightarrow>
               Inr (Some (simple_frame (new_BaseCommand\<lparr>BaseCommand_Type := Some BaseCommand_PRODUCER_SUCCESS,
                 BaseCommand_ProducerSuccess := Some (new_CommandProducerSuccess
                   \<lparr>CommandProducerSuccess_RequestId := CommandProducer_RequestId pr,
                    CommandProducerSuccess_ProducerName := Some ''test''\<rparr>)\<rparr>))))
      | BaseCommand_SUBSCRIBE \<Rightarrow>
          (case BaseCommand_GetSubscribe cmd of
             None \<Rightarrow> Inl nil_panic
           | Some sb \<Rightarrow>
               Inr (Some (simple_frame (new_BaseCommand\<lparr>BaseCommand_Type := Some BaseCommand_SUCCESS,
                 BaseCommand_Success := Some (new_CommandSuccess
                   \<lparr>CommandSuccess_RequestId := CommandSubscribe_RequestId sb\<rparr>)\<rparr>))))
      | BaseCommand_SEND \<Rightarrow>
          (case BaseCommand_GetSend cmd of
             None \<Rightarrow> Inl nil_panic
           | Some sd \<Rightarrow>
               Inr (Some (simple_frame (new_BaseCommand\<lparr>BaseCommand_Type := Some BaseCommand_SEND_RECEIPT,
                 BaseCommand_SendReceipt := Some (new_CommandSendReceipt
                   \<lparr>CommandSendReceipt_ProducerId := CommandSend_ProducerId sd,
                    CommandSendReceipt_SequenceId := CommandSend_SequenceId sd\<rparr>)\<rparr>))))
      | _ \<Rightarrow> Inr None)"

section \<open>Serving a connection\<close>

text \<open>
  The loop over the frames of a connection, from its reader to its writer; the first component of the
  result is a panic, which ends the process.
\<close>

function Server_serve ::
    "proto \<Rightarrow> Server \<Rightarrow> reader \<Rightarrow> writer \<Rightarrow> go_error option \<times> Server \<times> writer" where
  "Server_serve pc srv r w =
     (case Frame_Decode pc new_Frame r of
        (Some _, _, _) \<Rightarrow> (None, srv, w)
      | (None, f, r') \<Rightarrow>
          (case Server_handleFrame srv f of
             Inl panic \<Rightarrow> (Some panic, srv, w)
           | Inr resp \<Rightarrow>
               (case (case resp of None \<Rightarrow> (None, w) | Some rf \<Rightarrow> Frame_Encode pc rf w) of
                  (Some _, w') \<Rightarrow> (None, srv, w')
                | (None, w') \<Rightarrow>
                    (case try_send f (Server_Received srv) of
                       None \<Rightarrow> (Some (ErrPanic ''unable to send frame to received chan''), srv, w')
                     | Some ch \<Rightarrow> Server_serve pc (srv\<lparr>Server_Received := ch\<rparr>) r' w'))))"
  by pat_completeness auto
termination
  by (relation "measure (\<lambda>(pc, srv, r, w). length (rd_data r))") (auto dest!: Frame_Decode_shorter [OF sym])

declare Server_serve.simps [simp del]

text \<open>The deferred cleanup of a served connection.\<close>

definition Server_cleanup :: "string \<Rightarrow> Server \<Rightarrow> Server" where
  "Server_cleanup remoteAddr srv = srv\<lparr>Server_conns := AList.delete remoteAddr (Server_conns srv)\<rparr>"

section \<open>Test support\<close>

text \<open>\<open>ctxErr\<close> is the error of the context that ends a wait for a frame which is not there.\<close>

fun Server_AssertReceived :: "ctx_error \<Rightarrow> BaseCommand_Type list \<Rightarrow> Server \<Rightarrow> go_error option \<times> Server" where
  "Server_AssertReceived ctxErr [] m = (None, m)"
| "Server_AssertReceived ctxErr (expected # rest) m =
     (case try_recv (Server_Received m) of
        None \<Rightarrow> (Some (ErrCtx ctxErr), m)
      | Some (f, ch) \<Rightarrow>
          let m1 = m\<lparr>Server_Received := ch\<rparr>; got = BaseCommand_GetType (Frame_BaseCmd f) in
          if got \<noteq> expected then (Some (ErrFrameType got expected), m1)
          else Server_AssertReceived ctxErr rest m1)"

fun broadcast_loop :: "bytes \<Rightarrow> (string \<times> Conn) list \<Rightarrow> go_error option \<times> (string \<times> Conn) list" where
  "broadcast_loop data [] = (None, [])"
| "broadcast_loop data ((a, c) # cs) =
     (case Write data (Conn_W c) of
        (Some err, w') \<Rightarrow> (Some err, (a, c\<lparr>Conn_W := w'\<rparr>) # cs)
      | (None, w') \<Rightarrow>
          (case broadcast_loop data cs of (e, cs') \<Rightarrow> (e, (a, c\<lparr>Conn_W := w'\<rparr>) # cs')))"

definition Server_Broadcast :: "proto \<Rightarrow> Frame \<Rightarrow> Server \<Rightarrow> go_error option \<times> Server" where
  "Server_Broadcast pc f m =
     (case Frame_Encode pc f new_buffer of
        (Some err, _) \<Rightarrow> (Some err, m)
      | (None, b) \<Rightarrow>
          (case broadcast_loop (wr_out b) (Server_conns m) of (e, cs) \<Rightarrow> (e, m\<lparr>Server_conns := cs\<rparr>)))"

text \<open>Close every connection, removing each from the map, up to the first error.\<close>

fun closeall_loop :: "(string \<times> Conn) list \<Rightarrow> go_error option \<times> (string \<times> Conn) list" where
  "closeall_loop [] = (None, [])"
| "closeall_loop ((a, c) # cs) =
     (case conn_close_err c of Some err \<Rightarrow> (Some err, (a, c) # cs) | None \<Rightarrow> closeall_loop cs)"

definition Server_CloseAll :: "Server \<Rightarrow> go_error option \<times> Server" where
  "Server_CloseAll m = (case closeall_loop (Server_conns m) of (e, cs) \<Rightarrow> (e, m\<lparr>Server_conns := cs\<rparr>))"

section \<open>Properties\<close>

text \<open>The server's answer to a lookup made by the client.\<close>

lemma Server_handle_lookup:
  "Server_handleFrame m (simple_frame (Discoverer_lookup_cmd rid topic auth)) =
     Inr (Some (Server_lookup_frame (Server_lookup_resp m (Some (new_CommandLookupTopic
       \<lparr>CommandLookupTopic_RequestId := Some rid, CommandLookupTopic_Topic := Some topic,
        CommandLookupTopic_Authoritative := Some auth\<rparr>))) (Some rid)))"
  by (simp add: Server_handleFrame_def simple_frame_def Discoverer_lookup_cmd_def BaseCommand_GetType_def
      BaseCommand_GetLookupTopic_def new_CommandLookupTopic_def)

lemma broadcast_loop_ok:
  assumes "broadcast_loop data cs = (None, cs')"
  shows "map fst cs' = map fst cs \<and>
    map (\<lambda>(_, c). wr_out (Conn_W c)) cs' = map (\<lambda>(_, c). wr_out (Conn_W c) @ data) cs"
  using assms
proof (induction cs arbitrary: cs')
  case (Cons ac cs)
  obtain a c where ac: "ac = (a, c)" by fastforce
  with Cons.prems obtain w' cs2 where "Write data (Conn_W c) = (None, w')" "broadcast_loop data cs = (None, cs2)"
    "cs' = (a, c\<lparr>Conn_W := w'\<rparr>) # cs2"
    by (auto split: prod.splits option.splits)
  with Cons.IH ac show ?case by (auto elim: Write_cases)
qed simp

text \<open>
  A broadcast that returns no error has written the complete encoding of the frame, once, to
  every connected client, and changed nothing else.
\<close>

theorem broadcast_reaches_all:
  assumes "Server_Broadcast pc f m = (None, m')"
  shows "map fst (Server_conns m') = map fst (Server_conns m) \<and>
    map (\<lambda>(_, c). wr_out (Conn_W c)) (Server_conns m') =
      map (\<lambda>(_, c). wr_out (Conn_W c) @ frame_wire pc f) (Server_conns m) \<and>
    m' = m\<lparr>Server_conns := Server_conns m'\<rparr>"
proof -
  obtain b cs where b: "Frame_Encode pc f new_buffer = (None, b)"
    and cs: "broadcast_loop (wr_out b) (Server_conns m) = (None, cs)" "m' = m\<lparr>Server_conns := cs\<rparr>"
    using assms by (auto simp: Server_Broadcast_def split: prod.splits option.splits)
  with broadcast_loop_ok [OF cs(1)] show ?thesis by (simp add: frame_wire_def)
qed

theorem broadcast_reaches_all_witness:
  "map (\<lambda>(_, c). wr_out (Conn_W c))
     (Server_conns (snd (Server_Broadcast demo_proto (demo_frame [1]) ((NewServer ''a'')
       \<lparr>Server_conns := [(''x'', demo_conn\<lparr>Conn_W := new_buffer\<rparr>)]\<rparr>)))) =
   [frame_wire demo_proto (demo_frame [1])]"
proof -
  let ?m = "(NewServer ''a'')\<lparr>Server_conns := [(''x'', demo_conn\<lparr>Conn_W := new_buffer\<rparr>)]\<rparr>"
  obtain b where b: "Frame_Encode demo_proto (demo_frame [1]) new_buffer = (None, b)"
    using demo_frame_encodes [of "[1]"] by simp
  then have "Server_Broadcast demo_proto (demo_frame [1]) ?m =
      (None, snd (Server_Broadcast demo_proto (demo_frame [1]) ?m))"
    by (simp add: Server_Broadcast_def Write_def new_buffer_def)
  from broadcast_reaches_all [OF this] show ?thesis by (simp add: new_buffer_def)
qed

end
