(* ===== verification/Exchange.thy ===== *)
theory Exchange
  imports Server
begin

text \<open>
  Requests and answers across the components: a client that waits for the answer to a request while
  its read loop receives frames and the goroutines started for them run, in any order. Shows that
  the answer a request returns is the frame the broker sent for it, and not another's, and that a
  topic lookup against the server of \<^verbatim>\<open>core/srv/server.go\<close> returns what that server is
  configured to answer.
\<close>

section \<open>Frames that answer requests\<close>

text \<open>The key under which \<open>handleFrame\<close> notifies the dispatcher of a frame, if it does.\<close>

definition frame_key :: "Frame \<Rightarrow> corr_key option" where
  "frame_key f =
     (let cmd = Frame_BaseCmd f in
      case BaseCommand_GetType cmd of
        BaseCommand_CONNECTED \<Rightarrow> Some KGlobal
      | BaseCommand_PONG \<Rightarrow> Some KGlobal
      | BaseCommand_SUCCESS \<Rightarrow> Some (KReq (CommandSuccess_GetRequestId (BaseCommand_GetSuccess cmd)))
      | BaseCommand_ERROR \<Rightarrow> Some (KReq (CommandError_GetRequestId (BaseCommand_GetError cmd)))
      | BaseCommand_LOOKUP_RESPONSE \<Rightarrow>
          Some (KReq (CommandLookupTopicResponse_GetRequestId (BaseCommand_GetLookupTopicResponse cmd)))
      | BaseCommand_PARTITIONED_METADATA_RESPONSE \<Rightarrow>
          Some (KReq (CommandPartitionedTopicMetadataResponse_GetRequestId
            (BaseCommand_GetPartitionMetadataResponse cmd)))
      | BaseCommand_PRODUCER_SUCCESS \<Rightarrow>
          Some (KReq (CommandProducerSuccess_GetRequestId (BaseCommand_GetProducerSuccess cmd)))
      | BaseCommand_SEND_RECEIPT \<Rightarrow>
          Some (KProdSeq (CommandSendReceipt_GetProducerId (BaseCommand_GetSendReceipt cmd))
            (CommandSendReceipt_GetSequenceId (BaseCommand_GetSendReceipt cmd)))
      | BaseCommand_SEND_ERROR \<Rightarrow>
          Some (KProdSeq (CommandSendError_GetProducerId (BaseCommand_GetSendError cmd))
            (CommandSendError_GetSequenceId (BaseCommand_GetSendError cmd)))
      | _ \<Rightarrow> None)"

lemma Client_route_key:
  "frame_key f = Some k \<Longrightarrow> Client_route pc S f w = ep_notify k f w"
  "frame_key f = None \<Longrightarrow> ep_Dispatcher (snd (Client_route pc S f w)) = ep_Dispatcher w"
  by (cases "BaseCommand_GetType (Frame_BaseCmd f)"; simp add: frame_key_def Client_route_def Let_def)+

lemma frame_key_message:
  "BaseCommand_GetType (Frame_BaseCmd f) = BaseCommand_MESSAGE \<Longrightarrow> frame_key f = None"
  by (simp add: frame_key_def Let_def)

text \<open>What handling a frame does to the dispatcher.\<close>

definition d_handle :: "Frame \<Rightarrow> Dispatcher \<Rightarrow> Dispatcher" where
  "d_handle f d =
     (case frame_key f of
        None \<Rightarrow> d
      | Some k \<Rightarrow> (case disp_notify k f d of Some (_, d') \<Rightarrow> d' | None \<Rightarrow> snd (disp_take k d)))"

lemma ep_Dispatcher_handleFrame:
  "ep_Dispatcher (snd (Client_handleFrame pc S f w)) = d_handle f (ep_Dispatcher w)"
proof -
  have "ep_Dispatcher (snd (Client_handleFrame pc S f w)) = ep_Dispatcher (snd (Client_route pc S f w))"
    by (simp add: Client_handleFrame_def split: prod.split option.split)
  then show ?thesis
    by (cases "frame_key f")
      (simp_all add: Client_route_key d_handle_def ep_notify_def split: option.split prod.split)
qed

section \<open>A request that waits\<close>

text \<open>Request \<open>h\<close> waits for a frame under key \<open>k\<close> that no notifier has taken; or its entry is gone.\<close>

definition pending :: "corr_key \<Rightarrow> nat \<Rightarrow> Dispatcher \<Rightarrow> bool" where
  "pending k h d \<longleftrightarrow>
     disp_lookup k d = Some \<lparr>AsyncResp_Resp = h, AsyncResp_Done = h\<rparr> \<and> h \<in> set (disp_waiting d) \<and>
     h \<notin> fst ` set (disp_got d) \<and>
     (\<forall>k' a. k' \<noteq> k \<longrightarrow> disp_lookup k' d = Some a \<longrightarrow> AsyncResp_Resp a \<noteq> h)"

definition entry_gone :: "nat \<Rightarrow> Dispatcher \<Rightarrow> bool" where
  "entry_gone h d \<longleftrightarrow> (\<forall>k a. disp_lookup k d = Some a \<longrightarrow> AsyncResp_Resp a \<noteq> h)"

lemma d_handle_look:
  "frame_key f = Some k \<Longrightarrow> disp_lookup k' (d_handle f d) = (if k' = k then None else disp_lookup k' d)"
  by (auto simp: d_handle_def disp.fetch_look disp.notify_frees split: option.split)

text \<open>A frame changes what has been received only by giving itself to the registration it is for.\<close>

lemma d_handle_got:
  assumes "frame_key f = Some k"
  shows "(disp_got (d_handle f d) = disp_got d \<and> disp_waiting (d_handle f d) = disp_waiting d \<and>
      (\<forall>a. disp_lookup k d = Some a \<longrightarrow> AsyncResp_Resp a \<notin> set (disp_waiting d))) \<or>
    (\<exists>a. disp_lookup k d = Some a \<and> AsyncResp_Resp a \<in> set (disp_waiting d) \<and>
      disp_got (d_handle f d) = (AsyncResp_Resp a, f) # disp_got d \<and>
      disp_waiting (d_handle f d) = remove1 (AsyncResp_Resp a) (disp_waiting d))"
proof (cases "disp_lookup k d")
  case None
  then show ?thesis using assms by (simp add: d_handle_def disp.notify_None disp.chans_simps)
next
  case (Some a)
  show ?thesis
    using assms Some
    by (simp add: d_handle_def disp.notify_Some resp_select_def disp.chans_simps resp_deliver_def)
qed

lemma pending_other:
  assumes "pending k h d" "frame_key f \<noteq> Some k"
  shows "pending k h (d_handle f d)"
proof (cases "frame_key f")
  case None
  then show ?thesis using assms(1) by (simp add: d_handle_def)
next
  case (Some k')
  then have ne: "k' \<noteq> k" using assms(2) by simp
  from d_handle_got [OF Some, of d] show ?thesis
  proof (elim disjE exE conjE)
    fix a
    assume a: "disp_lookup k' d = Some a" "disp_got (d_handle f d) = (AsyncResp_Resp a, f) # disp_got d"
      "disp_waiting (d_handle f d) = remove1 (AsyncResp_Resp a) (disp_waiting d)"
    with assms(1) ne have "AsyncResp_Resp a \<noteq> h" by (auto simp: pending_def)
    with a assms(1) ne show ?thesis by (auto simp: pending_def d_handle_look [OF Some])
  qed (use assms(1) ne in \<open>simp add: pending_def d_handle_look [OF Some]\<close>)
qed

lemma pending_hit:
  assumes "pending k h d" "frame_key f = Some k"
  shows "entry_gone h (d_handle f d) \<and> map_of (disp_got (d_handle f d)) h = Some f"
  using d_handle_got [OF assms(2), of d] assms
  by (auto simp: pending_def entry_gone_def d_handle_look)

lemma entry_gone_step:
  assumes "entry_gone h d"
  shows "entry_gone h (d_handle f d) \<and> map_of (disp_got (d_handle f d)) h = map_of (disp_got d) h"
proof (cases "frame_key f")
  case None
  then show ?thesis using assms by (simp add: d_handle_def)
next
  case (Some k)
  have "AsyncResp_Resp a \<noteq> h" if "disp_lookup k' d = Some a" for k' a
    using assms that by (simp add: entry_gone_def)
  with d_handle_got [OF Some, of d] show ?thesis
    by (fastforce simp: entry_gone_def d_handle_look [OF Some])
qed

lemma entry_gone_fold: "entry_gone h d \<Longrightarrow> map_of (disp_got (fold d_handle fs d)) h = map_of (disp_got d) h"
  by (induction fs arbitrary: d) (simp_all add: entry_gone_step)

text \<open>The frame a waiting request gets is the first one notified under its key.\<close>

lemma pending_fold:
  assumes "pending k h d"
  shows "map_of (disp_got (fold d_handle fs d)) h = find (\<lambda>f. frame_key f = Some k) fs"
  using assms
proof (induction fs arbitrary: d)
  case Nil
  then show ?case by (simp add: pending_def map_of_eq_None_iff)
next
  case (Cons f fs)
  show ?case
  proof (cases "frame_key f = Some k")
    case True
    with pending_hit [OF Cons.prems True] show ?thesis by (simp add: entry_gone_fold)
  next
    case False
    with Cons.IH [OF pending_other [OF Cons.prems False]] show ?thesis by simp
  qed
qed

lemma resp_await_chans:
  "disp_waiting (resp_await h d) = h # disp_waiting d" "disp_got (resp_await h d) = disp_got d"
  by (simp_all add: resp_await_def)

lemma pending_registered:
  assumes "dreach s" "disp_lookup k (ds_d s) = None"
  shows "pending k (disp_next (ds_d s)) (resp_await (disp_next (ds_d s)) (snd (disp_register k (ds_d s))))"
proof -
  let ?h = "disp_next (ds_d s)"
  have inv: "dinv s" by (rule dreach_inv [OF assms(1)])
  note fresh = regs_inv_fresh [OF inv]
  have "AsyncResp_Resp a \<noteq> ?h" if "disp_lookup k' (ds_d s) = Some a" for k' a
    using fresh_released [OF assms(1)] that by (auto simp: released_def)
  moreover have "?h \<notin> fst ` set (disp_got (ds_d s))"
    using inv fresh(1) by (fastforce simp: dinv_def got_inv_def image_iff)
  ultimately show ?thesis
    using disp.reg_look [OF assms(2)]
    by (simp add: pending_def disp.look_await resp_await_chans disp.chans_simps)
qed


section \<open>A client that reads while a request waits\<close>

text \<open>
  While a request waits, the read loop receives the frames \<open>fs\<close>, and then the goroutines that have
  been started run, in the order \<open>perm\<close> puts them. The request's handle is the newest receiver; \<open>mk\<close>
  makes the outcome of the wait from the frame it got, if any.
\<close>

definition client_env ::
    "proto \<Rightarrow> 's CmdSender \<Rightarrow> Frame list \<Rightarrow> (Frame list \<Rightarrow> Frame list) \<Rightarrow> (Frame option \<Rightarrow> 'k) \<Rightarrow>
     ('s, 'z) Client_scheme \<Rightarrow> ('s, 'z) Client_scheme \<times> 'k" where
  "client_env pc S fs perm mk w =
     (let h = hd (disp_waiting (ep_Dispatcher w));
          w1 = fold (Client_handler pc S) fs w;
          w2 = fold (\<lambda>f w. snd (Client_run_spawned pc S f w)) (perm (cl_spawned w1)) w1
      in (w2, mk (map_of (disp_got (ep_Dispatcher w2)) h)))"

lemma cl_handleFrame_message [simp]:
  assumes "BaseCommand_GetType (Frame_BaseCmd f) = BaseCommand_MESSAGE"
  shows "cl_spawned (snd (Client_handleFrame pc S f w)) = cl_spawned w"
  using assms
  by (simp add: Client_handleFrame_def Client_route_def Subscriptions_HandleMessage_def
      Consumer_HandleMessage_def upd_Consumer_def Client_async_err_def Let_def split: option.split prod.splits)

lemma ep_Dispatcher_handler [simp]: "ep_Dispatcher (Client_handler pc S f w) = ep_Dispatcher w"
proof -
  have "ep_Dispatcher (snd (Client_handleFrame pc S f w)) = ep_Dispatcher w"
    if "BaseCommand_GetType (Frame_BaseCmd f) = BaseCommand_MESSAGE"
    using frame_key_message [OF that] by (simp add: ep_Dispatcher_handleFrame d_handle_def)
  then show ?thesis by (simp add: Client_handler_def case_prod_beta)
qed

lemma ep_Dispatcher_handler_fold [simp]:
  "ep_Dispatcher (fold (Client_handler pc S) fs w) = ep_Dispatcher w"
  by (induction fs arbitrary: w) simp_all

lemma handler_stuck: "cl_stuck w \<Longrightarrow> cl_stuck (Client_handler pc S f w)"
  by (simp add: Client_handler_def)

lemma handler_stuck_fold: "cl_stuck w \<Longrightarrow> cl_stuck (fold (Client_handler pc S) fs w)"
  by (induction fs arbitrary: w) (simp_all add: handler_stuck)

lemma handler_spawned:
  "\<not> cl_stuck w \<Longrightarrow> cl_spawned (Client_handler pc S f w) =
     cl_spawned w @ filter (\<lambda>f. BaseCommand_GetType (Frame_BaseCmd f) \<noteq> BaseCommand_MESSAGE) [f]"
  by (simp add: Client_handler_def case_prod_beta)

text \<open>Unless a message blocks the reader, every frame that is not a message gets its goroutine.\<close>

lemma handler_fold_spawned:
  "\<not> cl_stuck (fold (Client_handler pc S) fs w) \<Longrightarrow>
   cl_spawned (fold (Client_handler pc S) fs w) =
     cl_spawned w @ filter (\<lambda>f. BaseCommand_GetType (Frame_BaseCmd f) \<noteq> BaseCommand_MESSAGE) fs"
proof (induction fs arbitrary: w)
  case (Cons f fs)
  then have "\<not> cl_stuck w" "\<not> cl_stuck (Client_handler pc S f w)"
    using handler_stuck_fold [of _ pc S fs] handler_stuck [of w pc S f] by auto
  with Cons handler_spawned [of w pc S f] show ?case by simp
qed simp

lemma ep_Dispatcher_run_fold:
  "ep_Dispatcher (fold (\<lambda>f w. snd (Client_run_spawned pc S f w)) fs w) = fold d_handle fs (ep_Dispatcher w)"
  by (induction fs arbitrary: w) (simp_all add: Client_run_spawned_def ep_Dispatcher_handleFrame)

text \<open>In whatever order the goroutines run, a frame that is alone with its key is the one found.\<close>

lemma find_eq_filter: "find P xs = (case filter P xs of [] \<Rightarrow> None | x # _ \<Rightarrow> Some x)"
  by (induction xs) simp_all

lemma mset_short_eq: "mset ys = mset xs \<Longrightarrow> length xs \<le> 1 \<Longrightarrow> ys = xs"
  by (cases xs) auto

lemma find_perm:
  assumes "mset ys = mset xs" "length (filter P xs) \<le> 1"
  shows "find P ys = (case filter P xs of [] \<Rightarrow> None | x # _ \<Rightarrow> Some x)"
proof -
  have "filter P ys = filter P xs" by (rule mset_short_eq) (use assms in simp_all)
  then show ?thesis by (simp only: find_eq_filter)
qed


text \<open>Handling frames does not make the reader block or unblock.\<close>

lemma cl_stuck_handleFrame [simp]: "cl_stuck (snd (Client_handleFrame pc S f w)) = cl_stuck w"
proof -
  have "cl_stuck (snd (Client_route pc S f w)) = cl_stuck w"
    by (cases "BaseCommand_GetType (Frame_BaseCmd f)")
      (simp_all add: Client_route_def ep_notify_def Let_def Subscriptions_HandleMessage_def
        Subscriptions_HandleActiveConsumerChange_def Subscriptions_HandleReachedEndOfTopic_def
        Subscriptions_HandleCloseConsumer_def Subscriptions_HandleCloseProducer_def
        Consumer_HandleCloseConsumer_def Consumer_set_closed_def Consumer_HandleReachedEndOfTopic_def
        Producer_HandleCloseProducer_def Producer_set_closed_def Pinger_HandlePing_def
        Consumer_HandleMessage_def upd_Consumer_def upd_Producer_def upd_consumers_def upd_producers_def ep_send_def
        Subscriptions_DelConsumer_def Subscriptions_DelProducer_def
        split: option.split prod.splits sum.splits)
  then show ?thesis
    by (cases "Client_route pc S f w") (auto simp: Client_handleFrame_def Client_async_err_def split: option.split)
qed

lemma cl_stuck_run_fold [simp]:
  "cl_stuck (fold (\<lambda>f w. snd (Client_run_spawned pc S f w)) fs w) = cl_stuck w"
  by (induction fs arbitrary: w) (simp_all add: Client_run_spawned_def)

text \<open>How a wait in such an environment ends.\<close>

lemma client_env_wake:
  assumes "pending k (hd (disp_waiting (ep_Dispatcher w))) (ep_Dispatcher w)"
    and "\<And>xs. mset (perm xs) = mset xs"
    and "length (filter (\<lambda>f. frame_key f = Some k) (cl_spawned w @ fs)) \<le> 1"
    and "\<not> cl_stuck (fst (client_env pc S fs perm mk w))"
  shows "snd (client_env pc S fs perm mk w) =
    mk (find (\<lambda>f. frame_key f = Some k) (cl_spawned w @ fs))"
proof -
  let ?w1 = "fold (Client_handler pc S) fs w" and ?P = "\<lambda>f. frame_key f = Some k"
  have "\<not> cl_stuck ?w1" using assms(4) by (simp add: client_env_def Let_def)
  then have sp: "filter ?P (cl_spawned ?w1) = filter ?P (cl_spawned w @ fs)"
    by (auto simp: handler_fold_spawned frame_key_message intro: filter_cong)
  have "find ?P (perm (cl_spawned ?w1)) = find ?P (cl_spawned w @ fs)"
    using find_perm [OF assms(2), of ?P "cl_spawned ?w1"] assms(3) unfolding sp
    by (simp only: find_eq_filter [of ?P "cl_spawned w @ fs"])
  then show ?thesis
    using pending_fold [OF assms(1), of "perm (cl_spawned ?w1)"]
    by (simp add: client_env_def Let_def ep_Dispatcher_run_fold)
qed


definition no_messages :: "Frame list \<Rightarrow> bool" where
  "no_messages fs \<longleftrightarrow> list_all (\<lambda>f. BaseCommand_GetType (Frame_BaseCmd f) \<noteq> BaseCommand_MESSAGE) fs"

lemma client_env_not_stuck:
  assumes "no_messages fs" "\<not> cl_stuck w"
  shows "\<not> cl_stuck (fst (client_env pc S fs perm mk w))"
proof -
  have "\<not> cl_stuck (fold (Client_handler pc S) fs w)"
    using assms by (induction fs arbitrary: w) (simp_all add: no_messages_def Client_handler_def)
  then show ?thesis by (simp add: client_env_def Let_def)
qed

lemma request_not_stuck_env:
  fixes w :: "('s, 'z) Client_scheme"
  assumes "\<And>v. \<not> cl_stuck v \<Longrightarrow> \<not> cl_stuck (fst (env v))" "\<not> cl_stuck w" "\<And>v. cl_stuck (snd (send v)) = cl_stuck v"
    and "\<And>wk v. cl_stuck (snd (handle wk v)) = cl_stuck v"
  shows "\<not> cl_stuck (snd (request k send env handle w))"
proof -
  have s: "\<not> cl_stuck (snd (send (w\<lparr>ep_Dispatcher := d\<rparr>)))" for d using assms(2,3) by simp
  have "\<not> cl_stuck (snd (handle wk (ep_disp g (fst (env v)))))" if "\<not> cl_stuck v" for wk g v
    using assms(1) [OF that] assms(4) by (simp add: ep_disp_def)
  with s show ?thesis
    using assms(2) by (simp add: request_def case_prod_beta ep_disp_def split: sum.split option.split)
qed

lemmas request_not_stuck = request_not_stuck_env [where env = "client_env pc S fs perm mk" for pc S fs perm mk, OF client_env_not_stuck]

text \<open>A request whose send succeeds comes to wait for its answer.\<close>

lemma request_waits:
  fixes w :: "('s, 'z) Client_scheme"
  assumes "dreach s" "ds_d s = ep_Dispatcher w" "disp_lookup k (ep_Dispatcher w) = None"
    and "\<And>d. fst (send (w\<lparr>ep_Dispatcher := d\<rparr>)) = None" "\<And>v. ep_Dispatcher (snd (send v)) = ep_Dispatcher v"
    and "request k send env handle w = (r, w')"
  obtains h d w1 w2 wk w3 where "send (w\<lparr>ep_Dispatcher := d\<rparr>) = (None, w1)"
    "env (ep_disp (resp_await h) w1) = (w2, wk)" "handle wk (ep_disp (resp_leave h) w2) = (r, w3)"
    "w' = ep_disp (disp_cancel k h) w3"
    "pending k (hd (disp_waiting (ep_Dispatcher (ep_disp (resp_await h) w1)))) (ep_Dispatcher (ep_disp (resp_await h) w1))"
proof -
  let ?h = "disp_next (ep_Dispatcher w)"
  obtain d where reg: "disp_register k (ep_Dispatcher w) = (Inr ?h, d)"
    using disp.reg_free [OF assms(3)] by (metis prod.collapse)
  obtain w1 where snt: "send (w\<lparr>ep_Dispatcher := d\<rparr>) = (None, w1)" using assms(4) by (metis prod.collapse)
  obtain w2 wk where e: "env (ep_disp (resp_await ?h) w1) = (w2, wk)" by fastforce
  obtain x w3 where h: "handle wk (ep_disp (resp_leave ?h) w2) = (x, w3)" by fastforce
  have v: "ep_Dispatcher (ep_disp (resp_await ?h) w1) = resp_await ?h d"
    using assms(5) [of "w\<lparr>ep_Dispatcher := d\<rparr>"] snt by (simp add: ep_disp_def)
  have "pending k ?h (resp_await ?h d)" using pending_registered [of s k] assms(1-3) reg by simp
  then show thesis
    by (intro that [OF snt e]) (use assms(6) reg snt e h v in \<open>auto simp: request_def resp_await_chans\<close>)
qed

text \<open>
  A request of a client whose send succeeds returns what \<open>handle\<close> makes of the one frame that was
  sent for its key.
\<close>

lemma request_answer:
  fixes w :: "('s, 'z) Client_scheme"
  assumes "dreach s" "ds_d s = ep_Dispatcher w" "disp_lookup k (ep_Dispatcher w) = None"
    and "\<And>d. fst (send (w\<lparr>ep_Dispatcher := d\<rparr>)) = None" "\<And>v. ep_Dispatcher (snd (send v)) = ep_Dispatcher v"
    and "\<And>v. cl_spawned (snd (send v)) = cl_spawned v" "\<And>v. cl_stuck (snd (send v)) = cl_stuck v"
    and "\<And>xs. mset (perm xs) = mset xs"
    and "length (filter (\<lambda>f. frame_key f = Some k) (cl_spawned w @ fs)) \<le> 1"
    and "\<And>wk v. cl_stuck (snd (handle wk v)) = cl_stuck v" "\<And>wk v. fst (handle wk v) = result wk"
    and "\<And>d h. env (ep_disp (resp_await h) (snd (send (w\<lparr>ep_Dispatcher := d\<rparr>)))) =
      client_env pc S fs perm mk (ep_disp (resp_await h) (snd (send (w\<lparr>ep_Dispatcher := d\<rparr>))))"
    and "request k send env handle w = (r, w')" "\<not> cl_stuck w' \<or> (\<not> cl_stuck w \<and> no_messages fs)"
  shows "r = result (mk (find (\<lambda>f. frame_key f = Some k) (cl_spawned w @ fs)))"
proof -
  let ?find = "find (\<lambda>f. frame_key f = Some k) (cl_spawned w @ fs)"
  obtain h d w1 w2 wk w3 where q: "send (w\<lparr>ep_Dispatcher := d\<rparr>) = (None, w1)"
    "env (ep_disp (resp_await h) w1) = (w2, wk)" "handle wk (ep_disp (resp_leave h) w2) = (r, w3)"
    "w' = ep_disp (disp_cancel k h) w3"
    "pending k (hd (disp_waiting (ep_Dispatcher (ep_disp (resp_await h) w1)))) (ep_Dispatcher (ep_disp (resp_await h) w1))"
    by (rule request_waits [OF assms(1-5,13)], rule that)
  let ?v = "ep_disp (resp_await h) w1"
  have v: "cl_spawned ?v = cl_spawned w" "cl_stuck ?v = cl_stuck w"
    using assms(6,7) [of "w\<lparr>ep_Dispatcher := d\<rparr>"] q(1) by (simp_all add: ep_disp_def)
  have e: "client_env pc S fs perm mk ?v = (w2, wk)" using assms(12) [where d = d and h = h] q(1,2) by simp
  have "cl_stuck w3 = cl_stuck w2"
    using assms(10) [of wk "ep_disp (resp_leave h) w2"] q(3) by (simp add: ep_disp_def)
  then have "\<not> cl_stuck (fst (client_env pc S fs perm mk ?v))"
    using assms(14) q(4) e client_env_not_stuck [of fs ?v pc S perm mk] v(2) by (auto simp: ep_disp_def)
  from client_env_wake [OF q(5) assms(8) _ this] assms(9) have "wk = mk ?find" unfolding v e by simp
  moreover have "r = result wk" using assms(11) [of wk "ep_disp (resp_leave h) w2"] q(3) by simp
  ultimately show ?thesis by simp
qed

definition lookup_wake :: "ctx_error \<Rightarrow> Frame option \<Rightarrow> wake" where
  "lookup_wake e r = (case r of Some f \<Rightarrow> WakeResp f | None \<Rightarrow> WakeCtx e)"

definition lookup_result :: "ctx_error \<Rightarrow> Frame option \<Rightarrow> go_error + CommandLookupTopicResponse option" where
  "lookup_result e r =
     (case r of
        Some f \<Rightarrow> Inr (BaseCommand_GetLookupTopicResponse (Frame_BaseCmd f))
      | None \<Rightarrow> Inl (ErrCtx e))"

lemma Client_LookupTopic_answer:
  fixes w :: "('s, 'z) Client_scheme"
  assumes "dreach s" "ds_d s = ep_Dispatcher w" "requestID = MonotonicID_ID (ep_ReqID w)"
    and "Dispatcher_ReqIDs (ep_Dispatcher w) requestID = None"
    and snt: "SendSimpleCmd S (Discoverer_lookup_cmd requestID topic authoritative) (ep_S w) = (None, c)"
    and "\<And>xs. mset (perm xs) = mset xs"
    and "length (filter (\<lambda>f. frame_key f = Some (KReq requestID)) (cl_spawned w @ fs)) \<le> 1"
    and env: "\<And>v :: ('s, 'z) Client_scheme. ep_S v = c \<Longrightarrow> env v = client_env pc S fs perm (lookup_wake e) v"
    and "Client_LookupTopic S env topic authoritative w = (r, w')"
    and "\<not> cl_stuck w' \<or> (\<not> cl_stuck w \<and> no_messages fs)"
  shows "r = lookup_result e (find (\<lambda>f. frame_key f = Some (KReq requestID)) (cl_spawned w @ fs))"
proof -
  let ?w0 = "snd (ep_Next w)" and ?cmd = "Discoverer_lookup_cmd requestID topic authoritative"
  let ?res = "\<lambda>wk. case wk of WakeCtx e \<Rightarrow> Inl (ErrCtx e)
      | WakeResp f \<Rightarrow> Inr (BaseCommand_GetLookupTopicResponse (Frame_BaseCmd f))"
  have req: "request (KReq requestID) (ep_send S ?cmd) env (\<lambda>wk v. (?res wk, v)) ?w0 = (r, w')"
    using assms(3,9) by (simp add: Client_LookupTopic_def Discoverer_LookupTopic_def)
  have e: "env (ep_disp (resp_await h) (snd (ep_send S ?cmd (?w0\<lparr>ep_Dispatcher := d\<rparr>)))) =
      client_env pc S fs perm (lookup_wake e) (ep_disp (resp_await h) (snd (ep_send S ?cmd (?w0\<lparr>ep_Dispatcher := d\<rparr>))))"
    for d h
    by (rule env) (use snt in \<open>simp add: ep_send_def\<close>)
  have "r = ?res (lookup_wake e (find (\<lambda>f. frame_key f = Some (KReq requestID)) (cl_spawned ?w0 @ fs)))"
    by (rule request_answer [OF assms(1) _ _ _ _ _ _ assms(6) _ _ _ e req])
      (use assms(2-7,10) in \<open>simp_all add: ep_send_def case_prod_beta\<close>)
  then show ?thesis by (simp add: lookup_wake_def lookup_result_def split: option.split)
qed

section \<open>Properties\<close>

text \<open>
  C11. A lookup returns its own answer. While \<open>LookupTopic\<close> waits, the client receives any frames,
  among them at most one with this request's id, and the goroutines that handle them run in any
  order. Then the result is the response of that one frame, whatever the other frames are; without
  such a frame it is the error of the context. The reader is assumed not to be blocked by a full
  queue when the lookup returns.
\<close>

theorem lookup_gets_its_answer:
  fixes w :: "('s, 'z) Client_scheme"
  assumes "dreach s" "ds_d s = ep_Dispatcher w" "requestID = MonotonicID_ID (ep_ReqID w)"
    and "Dispatcher_ReqIDs (ep_Dispatcher w) requestID = None"
    and "SendSimpleCmd S (Discoverer_lookup_cmd requestID topic authoritative) (ep_S w) = (None, c)"
    and "\<And>xs. mset (perm xs) = mset xs"
    and "length (filter (\<lambda>f. frame_key f = Some (KReq requestID)) (cl_spawned w @ fs)) \<le> 1"
    and "Client_LookupTopic S (client_env pc S fs perm (lookup_wake e)) topic authoritative w = (r, w')"
    and "\<not> cl_stuck w'"
  shows "r = (case find (\<lambda>f. frame_key f = Some (KReq requestID)) (cl_spawned w @ fs) of
      Some f \<Rightarrow> Inr (BaseCommand_GetLookupTopicResponse (Frame_BaseCmd f))
    | None \<Rightarrow> Inl (ErrCtx e))"
  unfolding lookup_result_def [symmetric]
  by (rule Client_LookupTopic_answer [OF assms(1-7) refl assms(8) disjI1 [OF assms(9)]])


definition demo_lookup_answer :: Frame where
  "demo_lookup_answer = Server_lookup_frame \<lparr>topicLookupResp_respType = CommandLookupTopicResponse_Connect,
     topicLookupResp_proxyThroughServiceURL = False, topicLookupResp_brokerServiceURL = ''pulsar://b''\<rparr> (Some 0)"

lemma frame_key_lookup [simp]: "frame_key (Server_lookup_frame resp (Some rid)) = Some (KReq rid)"
  by (simp add: frame_key_def Server_lookup_frame_def simple_frame_def BaseCommand_GetType_def
      BaseCommand_GetLookupTopicResponse_def CommandLookupTopicResponse_GetRequestId_def)

lemma frame_key_success [simp]: "frame_key (success_frame rid) = Some (KReq rid)"
  by (simp add: frame_key_def success_frame_def simple_frame_def BaseCommand_GetType_def
      BaseCommand_GetSuccess_def CommandSuccess_GetRequestId_def)

lemma lookup_frame_type [simp]:
  "BaseCommand_GetType (Frame_BaseCmd (Server_lookup_frame resp rid)) = BaseCommand_LOOKUP_RESPONSE"
  by (simp add: Server_lookup_frame_def simple_frame_def BaseCommand_GetType_def)

abbreviation demo_lookup_run :: "(go_error + CommandLookupTopicResponse option) \<times> MockSender Client" where
  "demo_lookup_run \<equiv> Client_LookupTopic mock_sender
     (client_env demo_proto mock_sender [success_frame 7, demo_lookup_answer] rev (lookup_wake Canceled)) ''t'' False demo_client"

theorem lookup_gets_its_answer_witness:
  "fst demo_lookup_run = Inr (BaseCommand_GetLookupTopicResponse (Frame_BaseCmd demo_lookup_answer))"
proof -
  let ?c = "snd (SendSimpleCmd mock_sender (Discoverer_lookup_cmd 0 ''t'' False) (ep_S demo_client))"
  have "\<not> cl_stuck (snd demo_lookup_run)"
    unfolding Client_LookupTopic_def Discoverer_LookupTopic_def ep_Next_simp prod.case
    by (rule request_not_stuck) (simp_all add: no_messages_def demo_lookup_answer_def demo_client_def new_Client_def
        ep_send_def case_prod_beta)
  then show ?thesis
    using lookup_gets_its_answer [OF dreach.init, of demo_client 0 mock_sender "''t''" False ?c rev
        "[success_frame 7, demo_lookup_answer]" demo_proto Canceled "fst demo_lookup_run" "snd demo_lookup_run"]
    by (simp add: demo_client_def new_Client_def dstate_init_def NewFrameDispatcher_def mock_sender_def
        MockSender_SendSimpleCmd_def demo_lookup_answer_def)
qed

definition send_wake_of :: "ctx_error \<Rightarrow> Frame option \<Rightarrow> send_wake" where
  "send_wake_of e r = (case r of Some f \<Rightarrow> SendResp f | None \<Rightarrow> SendCtx e)"

lemma Producer_Send_answer:
  fixes w :: "('s, 'z) Client_scheme"
  assumes "dreach s" "ds_d s = ep_Dispatcher w" "x = the_Producer p w" "p < length (st_Producers w)"
    and "\<not> Producer_IsClosed x" "Producer_traceHook x = None" "sq = MonotonicID_ID (Producer_SeqID x)"
    and "k = KProdSeq (Producer_ProducerID x) sq" "disp_lookup k (ep_Dispatcher w) = None"
    and snt: "SendPayloadCmd S (Producer_send_cmd (Producer_ProducerID x) sq)
      (Producer_metadata t (Producer_ProducerName x) sq) payload (ep_S w) = (None, c)"
    and "\<And>xs. mset (perm xs) = mset xs"
    and "length (filter (\<lambda>f. frame_key f = Some k) (cl_spawned w @ fs)) \<le> 1"
    and env: "\<And>v :: ('s, 'z) Client_scheme. ep_S v = c \<Longrightarrow> env v = client_env pc S fs perm (send_wake_of e) v"
    and "Producer_Send S t env p payload w = (r, w')"
    and "\<not> cl_stuck w' \<or> (\<not> cl_stuck w \<and> no_messages fs)"
  shows "r = Producer_send_result (Producer_ProducerID x) sq
    (send_wake_of e (find (\<lambda>f. frame_key f = Some k) (cl_spawned w @ fs)))"
proof -
  let ?w0 = "upd_Producer p (\<lambda>x. x\<lparr>Producer_SeqID := \<lparr>MonotonicID_ID = sq + 1\<rparr>\<rparr>) w"
  let ?x = "the_Producer p ?w0"
  let ?send = "Producer_send_frame S t ?x sq payload"
  let ?res = "Producer_send_result (Producer_ProducerID x) sq"
  have seq: "MonotonicID_Next (Producer_SeqID x) = (sq, \<lparr>MonotonicID_ID = sq + 1\<rparr>)"
    using assms(7) by (cases "Producer_SeqID x") simp
  have x: "?x = x\<lparr>Producer_SeqID := \<lparr>MonotonicID_ID = sq + 1\<rparr>\<rparr>" using assms(3,4) by simp
  have req: "request k ?send env (\<lambda>wk v. (?res wk, v)) ?w0 = (r, w')"
    using assms(14) unfolding Producer_Send_def Let_def assms(3) [symmetric] if_not_P [OF assms(5)] seq prod.case assms(8)
    by (simp add: x)
  have e: "env (ep_disp (resp_await h) (snd (?send (?w0\<lparr>ep_Dispatcher := d\<rparr>)))) =
      client_env pc S fs perm (send_wake_of e) (ep_disp (resp_await h) (snd (?send (?w0\<lparr>ep_Dispatcher := d\<rparr>))))" for d h
    by (rule env) (use assms(3,4,6) snt in \<open>simp add: Producer_send_frame_def upd_Producer_def Let_def\<close>)
  have "r = ?res (send_wake_of e (find (\<lambda>f. frame_key f = Some k) (cl_spawned ?w0 @ fs)))"
    by (rule request_answer [OF assms(1) _ _ _ _ _ _ assms(11) _ _ _ e req])
      (use assms in \<open>simp_all add: Producer_send_frame_def x case_prod_beta upd_Producer_def Let_def\<close>)
  then show ?thesis by (simp add: upd_Producer_def)
qed

definition receipt_frame :: "u64 \<Rightarrow> u64 \<Rightarrow> Frame" where
  "receipt_frame pid sq = simple_frame (new_BaseCommand\<lparr>BaseCommand_Type := Some BaseCommand_SEND_RECEIPT,
     BaseCommand_SendReceipt := Some (new_CommandSendReceipt
       \<lparr>CommandSendReceipt_ProducerId := Some pid, CommandSendReceipt_SequenceId := Some sq\<rparr>)\<rparr>)"

lemma frame_key_receipt [simp]: "frame_key (receipt_frame pid sq) = Some (KProdSeq pid sq)"
  by (simp add: frame_key_def receipt_frame_def simple_frame_def BaseCommand_GetType_def
      BaseCommand_GetSendReceipt_def CommandSendReceipt_GetProducerId_def CommandSendReceipt_GetSequenceId_def)

lemma receipt_type [simp]: "BaseCommand_GetType (Frame_BaseCmd (receipt_frame pid sq)) = BaseCommand_SEND_RECEIPT"
  by (simp add: receipt_frame_def simple_frame_def BaseCommand_GetType_def)

lemma receipt_result [simp]:
  "Producer_send_result pid sq (SendResp (receipt_frame a b)) =
     Inr (BaseCommand_GetSendReceipt (Frame_BaseCmd (receipt_frame a b)))"
  by (simp add: Producer_send_result_def)

section \<open>A send that waits\<close>

text \<open>The producer a frame asks to close.\<close>

definition close_producer_id :: "Frame \<Rightarrow> u64 option" where
  "close_producer_id f =
     (if BaseCommand_GetType (Frame_BaseCmd f) = BaseCommand_CLOSE_PRODUCER
      then Some (CommandCloseProducer_GetProducerId (BaseCommand_GetCloseProducer (Frame_BaseCmd f)))
      else None)"

lemma handleFrame_producers:
  assumes "close_producer_id f = None"
  shows "st_Producers (snd (Client_handleFrame pc S f w)) = st_Producers w"
    "sub_producers (snd (Client_handleFrame pc S f w)) = sub_producers w"
proof -
  have "st_Producers (snd (Client_route pc S f w)) = st_Producers w \<and>
    sub_producers (snd (Client_route pc S f w)) = sub_producers w"
    using assms
    by (cases "BaseCommand_GetType (Frame_BaseCmd f)")
      (simp_all add: close_producer_id_def Client_route_def ep_notify_def Let_def Subscriptions_HandleMessage_def
        Subscriptions_HandleActiveConsumerChange_def Subscriptions_HandleReachedEndOfTopic_def
        Subscriptions_HandleCloseConsumer_def Consumer_HandleCloseConsumer_def Consumer_set_closed_def
        Consumer_HandleReachedEndOfTopic_def Pinger_HandlePing_def Consumer_HandleMessage_def upd_Consumer_def
        upd_consumers_def ep_send_def split: option.split prod.splits sum.splits)
  then show "st_Producers (snd (Client_handleFrame pc S f w)) = st_Producers w"
    "sub_producers (snd (Client_handleFrame pc S f w)) = sub_producers w"
    by (cases "Client_route pc S f w"; auto simp: Client_handleFrame_def Client_async_err_def split: option.split)+
qed

text \<open>The producers are changed by the frames that close them only, each its own.\<close>

definition closes :: "u64 \<Rightarrow> Frame \<Rightarrow> bool" where
  "closes pid f \<longleftrightarrow> close_producer_id f = Some pid"

lemma handleFrame_closes:
  assumes "subs_inv w" "p < length (st_Producers w)" "Producer_ProducerID (the_Producer p w) = pid"
    and "v = snd (Client_handleFrame pc S f w)"
  shows "Producer_Closed p v \<longleftrightarrow> Producer_Closed p w \<or> (sub_producers w pid = Some p \<and> closes pid f)"
    "sub_producers v pid = Some p \<longleftrightarrow> sub_producers w pid = Some p \<and> \<not> closes pid f"
    "p < length (st_Producers v) \<and> Producer_ProducerID (the_Producer p v) = pid \<and> subs_inv v"
proof -
  have inv: "subs_inv v" using Client_handleFrame_subs_inv [OF assms(1)] assms(4) by simp
  have "(Producer_Closed p v \<longleftrightarrow> Producer_Closed p w \<or> (sub_producers w pid = Some p \<and> closes pid f)) \<and>
    (sub_producers v pid = Some p \<longleftrightarrow> sub_producers w pid = Some p \<and> \<not> closes pid f) \<and>
    p < length (st_Producers v) \<and> Producer_ProducerID (the_Producer p v) = pid"
  proof (cases "close_producer_id f")
    case None
    with handleFrame_producers [OF None, of pc S w] assms(2-4) show ?thesis by (simp add: closes_def Producer_Closed_def)
  next
    case (Some i)
    then have r: "Client_route pc S f w = now (Subscriptions_HandleCloseProducer i f w)"
      by (auto simp: close_producer_id_def Client_route_def Let_def split: if_splits)
    show ?thesis
    proof (cases "sub_producers w i")
      case None
      then have "st_Producers v = st_Producers w \<and> sub_producers v = sub_producers w"
        by (simp add: assms(4) Client_handleFrame_def r Subscriptions_HandleCloseProducer_def now_def Client_async_err_def)
      with Some None assms(2,3) show ?thesis by (auto simp: closes_def Producer_Closed_def)
    next
      case q: (Some q)
      have "v = upd_Producer q (\<lambda>x. x\<lparr>Producer_IsClosed := True, Producer_Closedc := True\<rparr>)
          (upd_producers (\<lambda>m. m(i := None)) w)"
        by (simp add: assms(4) Client_handleFrame_def r now_def Subscriptions_HandleCloseProducer_eq [OF assms(1) q])
      moreover have "q = p \<Longrightarrow> i = pid" using subs_invD(5) [OF assms(1) q] assms(3) by simp
      ultimately show ?thesis
        using Some q assms(2,3) by (cases "q = p") (auto simp: closes_def Producer_Closed_def)
    qed
  qed
  with inv show "Producer_Closed p v \<longleftrightarrow> Producer_Closed p w \<or> (sub_producers w pid = Some p \<and> closes pid f)"
    "sub_producers v pid = Some p \<longleftrightarrow> sub_producers w pid = Some p \<and> \<not> closes pid f"
    "p < length (st_Producers v) \<and> Producer_ProducerID (the_Producer p v) = pid \<and> subs_inv v"
    by blast+
qed

lemma run_spawned_closes:
  assumes "subs_inv w" "p < length (st_Producers w)" "Producer_ProducerID (the_Producer p w) = pid"
  shows "Producer_Closed p (fold (\<lambda>f w. snd (Client_run_spawned pc S f w)) fs w) \<longleftrightarrow>
    Producer_Closed p w \<or> (sub_producers w pid = Some p \<and> list_ex (closes pid) fs)"
  using assms
proof (induction fs arbitrary: w)
  case (Cons f fs)
  let ?u = "w\<lparr>cl_spawned := remove1 f (cl_spawned w)\<rparr>"
  have u: "subs_inv ?u" "p < length (st_Producers ?u)" "Producer_ProducerID (the_Producer p ?u) = pid"
    using Cons.prems by (simp_all add: subs_inv_def)
  note s = handleFrame_closes [OF u refl, of pc S f]
  show ?case
    using Cons.IH [of "snd (Client_run_spawned pc S f w)"] s
    by (auto simp: Client_run_spawned_def Producer_Closed_def)
qed simp

lemma handler_producers:
  "subs_inv w \<Longrightarrow> st_Producers (Client_handler pc S f w) = st_Producers w \<and>
   sub_producers (Client_handler pc S f w) = sub_producers w \<and> subs_inv (Client_handler pc S f w)"
  using handleFrame_producers [of f pc S w] Client_handleFrame_subs_inv [of w pc S f]
  by (auto simp: Client_handler_def close_producer_id_def subs_inv_def split: prod.split)

lemma handler_fold_producers:
  "subs_inv w \<Longrightarrow> st_Producers (fold (Client_handler pc S) fs w) = st_Producers w \<and>
   sub_producers (fold (Client_handler pc S) fs w) = sub_producers w \<and> subs_inv (fold (Client_handler pc S) fs w)"
  by (induction fs arbitrary: w) (simp_all add: handler_producers)

text \<open>
  The select of \<open>Send\<close>: its ready cases when it is scheduled are the context, if that is done, the
  channel of the closed producer, if that is closed, and the response channel, if a frame came; \<open>i\<close>
  chooses among them. With none ready it goes on to wait until the context ends.
\<close>

definition send_select :: "nat \<Rightarrow> bool \<Rightarrow> ctx_error \<Rightarrow> bool \<Rightarrow> Frame option \<Rightarrow> send_wake" where
  "send_select i ctx_done e closed r =
     (let ready = (if ctx_done then [SendCtx e] else []) @ (if closed then [SendClosed] else []) @
            (case r of Some f \<Rightarrow> [SendResp f] | None \<Rightarrow> [])
      in if ready = [] then SendCtx e else ready ! (i mod length ready))"

definition send_env ::
    "proto \<Rightarrow> 's CmdSender \<Rightarrow> Frame list \<Rightarrow> (Frame list \<Rightarrow> Frame list) \<Rightarrow> nat \<Rightarrow> bool \<Rightarrow> ctx_error \<Rightarrow> nat \<Rightarrow>
     ('s, 'z) Client_scheme \<Rightarrow> ('s, 'z) Client_scheme \<times> send_wake" where
  "send_env pc S fs perm i ctx_done e p w =
     (case client_env pc S fs perm id w of
        (w1, r) \<Rightarrow> (w1, send_select i ctx_done e (Producer_Closed p w1) r))"

lemma send_env_wake:
  assumes "pending k (hd (disp_waiting (ep_Dispatcher w))) (ep_Dispatcher w)" "\<And>xs. mset (perm xs) = mset xs"
    and "length (filter (\<lambda>f. frame_key f = Some k) (cl_spawned w @ fs)) \<le> 1"
    and "\<not> cl_stuck (fst (send_env pc S fs perm i ctx_done e p w))"
    and "subs_inv w" "p < length (st_Producers w)" "Producer_ProducerID (the_Producer p w) = pid"
  shows "snd (send_env pc S fs perm i ctx_done e p w) = send_select i ctx_done e
    (Producer_Closed p w \<or> (sub_producers w pid = Some p \<and> list_ex (closes pid) (cl_spawned w @ fs)))
    (find (\<lambda>f. frame_key f = Some k) (cl_spawned w @ fs))"
proof -
  let ?w1 = "fold (Client_handler pc S) fs w"
  have w2: "fst (client_env pc S fs perm id w) = fold (\<lambda>f w. snd (Client_run_spawned pc S f w)) (perm (cl_spawned ?w1)) ?w1"
    by (simp add: client_env_def Let_def)
  have ns: "\<not> cl_stuck (fst (client_env pc S fs perm id w))"
    using assms(4) by (simp add: send_env_def case_prod_beta)
  then have "\<not> cl_stuck ?w1" by (simp add: w2)
  from handler_fold_spawned [OF this] mset_eq_setD [OF assms(2)]
  have sp: "list_ex (closes pid) (perm (cl_spawned ?w1)) = list_ex (closes pid) (cl_spawned w @ fs)"
    by (auto simp: list_ex_iff closes_def close_producer_id_def split: if_splits)
  have "Producer_Closed p (fst (client_env pc S fs perm id w)) \<longleftrightarrow>
      Producer_Closed p w \<or> (sub_producers w pid = Some p \<and> list_ex (closes pid) (cl_spawned w @ fs))"
    using handler_fold_producers [OF assms(5), of pc S fs] run_spawned_closes [of ?w1 p pid pc S] assms(6,7)
    unfolding w2 sp [symmetric] by (simp add: Producer_Closed_def)
  then show ?thesis
    using client_env_wake [OF assms(1,2,3) ns] by (simp add: send_env_def case_prod_beta)
qed

lemma send_select_ready:
  "send_select i ctx_done e closed r \<in> set ((if ctx_done then [SendCtx e] else []) @ (if closed then [SendClosed] else []) @
     (case r of Some f \<Rightarrow> [SendResp f] | None \<Rightarrow> [])) \<or> (\<not> closed \<and> r = None \<and> send_select i ctx_done e closed r = SendCtx e)"
  (is "_ \<in> set ?ready \<or> _")
proof (cases "?ready = []")
  case True
  then show ?thesis by (auto simp: send_select_def split: if_splits option.splits)
next
  case False
  then have "i mod length ?ready < length ?ready" by simp
  then have "?ready ! (i mod length ?ready) \<in> set ?ready" by (rule nth_mem)
  with False show ?thesis unfolding send_select_def Let_def by (simp only: if_False) blast
qed

text \<open>
  C10. A send returns its own receipt. While \<open>Send\<close> waits, the client receives any frames, among them
  at most one for this producer id and sequence id, and the goroutines that handle them run in any
  order; a CLOSE_PRODUCER frame among them for an id that the subscriptions hold closes that producer;
  the context may be done or not, and the select chooses any ready case. Then the result is decided
  by that one frame (its receipt if it is a SEND_RECEIPT, the broker's error if it is a SEND_ERROR),
  or it is \<open>ErrClosedProducer\<close> and one of the frames closed this very producer, or it is the error
  of the context, which is then done or nothing else ended the wait. In particular, while the
  producer is open and the context not done, \<open>Send\<close> returns what its own frame says.
\<close>

theorem send_gets_its_receipt:
  fixes w :: "('s, 'z) Client_scheme"
  assumes "dreach s" "ds_d s = ep_Dispatcher w" "subs_inv w" "x = the_Producer p w" "p < length (st_Producers w)"
    and "\<not> Producer_IsClosed x" "producer_inv x" "Producer_traceHook x = None" "sq = MonotonicID_ID (Producer_SeqID x)"
    and "k = KProdSeq (Producer_ProducerID x) sq" "disp_lookup k (ep_Dispatcher w) = None"
    and "SendPayloadCmd S (Producer_send_cmd (Producer_ProducerID x) sq)
      (Producer_metadata t (Producer_ProducerName x) sq) payload (ep_S w) = (None, c)"
    and "\<And>xs. mset (perm xs) = mset xs"
    and "length (filter (\<lambda>f. frame_key f = Some k) (cl_spawned w @ fs)) \<le> 1"
    and "Producer_Send S t (send_env pc S fs perm i ctx_done e p) p payload w = (r, w')"
    and "\<not> cl_stuck w'"
    and "closed \<longleftrightarrow> sub_producers w (Producer_ProducerID x) = Some p \<and>
      (\<exists>f \<in> set (cl_spawned w @ fs). close_producer_id f = Some (Producer_ProducerID x))"
  shows "(\<exists>f. find (\<lambda>f. frame_key f = Some k) (cl_spawned w @ fs) = Some f \<and>
        r = Producer_send_result (Producer_ProducerID x) sq (SendResp f)) \<or>
    (closed \<and> r = Inl ErrClosedProducer) \<or>
    ((ctx_done \<or> (\<not> closed \<and> find (\<lambda>f. frame_key f = Some k) (cl_spawned w @ fs) = None)) \<and> r = Inl (ErrCtx e))"
proof -
  let ?pid = "Producer_ProducerID x" and ?find = "find (\<lambda>f. frame_key f = Some k) (cl_spawned w @ fs)"
  let ?w0 = "upd_Producer p (\<lambda>x. x\<lparr>Producer_SeqID := \<lparr>MonotonicID_ID = sq + 1\<rparr>\<rparr>) w"
  let ?send = "Producer_send_frame S t (the_Producer p ?w0) sq payload"
  let ?res = "Producer_send_result ?pid sq"
  have x0: "the_Producer p ?w0 = x\<lparr>Producer_SeqID := \<lparr>MonotonicID_ID = sq + 1\<rparr>\<rparr>" using assms(4,5) by simp
  have seq: "MonotonicID_Next (Producer_SeqID x) = (sq, \<lparr>MonotonicID_ID = sq + 1\<rparr>)"
    using assms(9) by (cases "Producer_SeqID x") simp
  have req: "request k ?send (send_env pc S fs perm i ctx_done e p) (\<lambda>wk v. (?res wk, v)) ?w0 = (r, w')"
    using assms(15) unfolding Producer_Send_def Let_def assms(4) [symmetric] if_not_P [OF assms(6)] seq prod.case assms(10)
    by (simp add: x0)
  have snt: "?send v = (None, v\<lparr>ep_S := c\<rparr>)" if "ep_S v = ep_S w" for v :: "('s, 'z) Client_scheme"
    using that assms(8,12) by (simp add: Producer_send_frame_def x0)
  have kd: "ep_Dispatcher (snd (?send v)) = ep_Dispatcher v" for v :: "('s, 'z) Client_scheme"
    by (simp add: Producer_send_frame_def Let_def split: prod.split)
  obtain h d w1 w2 wk w3 where q: "?send (?w0\<lparr>ep_Dispatcher := d\<rparr>) = (None, w1)"
    "send_env pc S fs perm i ctx_done e p (ep_disp (resp_await h) w1) = (w2, wk)"
    "(?res wk, ep_disp (resp_leave h) w2) = (r, w3)" "w' = ep_disp (disp_cancel k h) w3"
    "pending k (hd (disp_waiting (ep_Dispatcher (ep_disp (resp_await h) w1)))) (ep_Dispatcher (ep_disp (resp_await h) w1))"
    by (rule request_waits [OF assms(1) _ _ _ kd req]) (use assms(2,11) snt that in simp_all)
  let ?v = "ep_disp (resp_await h) w1"
  have w1: "w1 = ?w0\<lparr>ep_Dispatcher := d, ep_S := c\<rparr>" using q(1) snt [of "?w0\<lparr>ep_Dispatcher := d\<rparr>"] by simp
  have v: "cl_spawned ?v = cl_spawned w" "sub_producers ?v = sub_producers w" "the_Producer p ?v = the_Producer p ?w0"
    "length (st_Producers ?v) = length (st_Producers w)"
    by (simp_all add: w1 ep_disp_def) (simp add: upd_Producer_def)
  have "subs_inv ?w0" by (rule subs_inv_upd_Producer [OF assms(3)]) (simp_all add: producer_inv_def)
  then have inv: "subs_inv ?v" by (simp add: w1)
  have st: "\<not> cl_stuck w2" using assms(16) q(3,4) by (auto simp: ep_disp_def)
  have op: "\<not> Producer_Closed p ?v" using assms(6,7) v(3) x0 by (simp add: Producer_Closed_def producer_inv_def)
  have "snd (send_env pc S fs perm i ctx_done e p ?v) = send_select i ctx_done e
      (Producer_Closed p ?v \<or> (sub_producers ?v ?pid = Some p \<and> list_ex (closes ?pid) (cl_spawned ?v @ fs)))
      (find (\<lambda>f. frame_key f = Some k) (cl_spawned ?v @ fs))"
    by (rule send_env_wake [OF q(5) assms(13)])
      (use assms(5,14) q(2) st inv v x0 in \<open>simp_all add: upd_Producer_def\<close>)
  then have "wk = send_select i ctx_done e closed ?find"
    using op q(2) unfolding v assms(17) by (auto simp: list_ex_iff closes_def Bex_def)
  then have "wk \<in> set ((if ctx_done then [SendCtx e] else []) @ (if closed then [SendClosed] else []) @
      (case ?find of Some f \<Rightarrow> [SendResp f] | None \<Rightarrow> [])) \<or> (\<not> closed \<and> ?find = None \<and> wk = SendCtx e)"
    by (rule ssubst) (rule send_select_ready)
  then have "(\<exists>f. ?find = Some f \<and> wk = SendResp f) \<or> (closed \<and> wk = SendClosed) \<or>
      ((ctx_done \<or> (\<not> closed \<and> ?find = None)) \<and> wk = SendCtx e)"
    by (auto split: if_splits option.splits)
  moreover have "r = ?res wk" using q(3) by simp
  moreover have "?res SendClosed = Inl ErrClosedProducer" "?res (SendCtx e) = Inl (ErrCtx e)"
    by (simp_all add: Producer_send_result_def)
  ultimately show ?thesis by auto
qed

abbreviation demo_send_run :: "(go_error + CommandSendReceipt option) \<times> MockSender Client" where
  "demo_send_run \<equiv> Producer_Send mock_sender 0
     (send_env demo_proto mock_sender [receipt_frame 1 0, receipt_frame 0 0, receipt_frame 0 1] rev 0 False Canceled 0)
     0 [9] (demo_client\<lparr>st_Producers := [NewProducer 0]\<rparr>)"

lemma close_producer_receipt [simp]: "close_producer_id (receipt_frame pid sq) = None"
  by (simp add: close_producer_id_def)

theorem send_gets_its_receipt_witness:
  "fst demo_send_run = Inr (BaseCommand_GetSendReceipt (Frame_BaseCmd (receipt_frame 0 0)))"
proof -
  let ?w = "demo_client\<lparr>st_Producers := [NewProducer 0]\<rparr>"
  let ?fs = "[receipt_frame 1 0, receipt_frame 0 0, receipt_frame 0 1]"
  let ?c = "snd (SendPayloadCmd mock_sender (Producer_send_cmd 0 0) (Producer_metadata 0 [] 0) [9] (ep_S ?w))"
  have w: "cl_spawned demo_client = []" "ep_Dispatcher demo_client = NewFrameDispatcher" "subs_inv ?w"
    "Dispatcher_ProdSeqIDs NewFrameDispatcher y = None" "ds_d dstate_init = NewFrameDispatcher" for y
    by (simp_all add: demo_client_def new_Client_def subs_inv_new NewFrameDispatcher_def dstate_init_def)
  have x: "Producer_ProducerID (NewProducer 0) = 0" "\<not> Producer_IsClosed (NewProducer 0)" "producer_inv (NewProducer 0)"
    "Producer_traceHook (NewProducer 0) = None" "Producer_SeqID (NewProducer 0) = \<lparr>MonotonicID_ID = 0\<rparr>"
    "Producer_ProducerName (NewProducer 0) = []"
    by (simp_all add: NewProducer_def producer_inv_def)
  have "\<not> cl_stuck (snd demo_send_run)"
    unfolding Producer_Send_def MonotonicID_Next_simp prod.case Let_def
    by (simp add: NewProducer_def, rule request_not_stuck_env)
      (simp_all add: send_env_def client_env_not_stuck no_messages_def demo_client_def new_Client_def Producer_send_frame_def case_prod_beta upd_Producer_def Let_def)
  moreover have "SendPayloadCmd mock_sender (Producer_send_cmd 0 0) (Producer_metadata 0 [] 0) [9] (ep_S ?w) = (None, ?c)"
    by (simp add: mock_sender_def MockSender_SendPayloadCmd_def)
  ultimately show ?thesis
    using send_gets_its_receipt [OF dreach.init, of ?w "NewProducer 0" 0 0 "KProdSeq 0 0" mock_sender 0 "[9]" ?c rev
        ?fs demo_proto 0 False Canceled "fst demo_send_run" "snd demo_send_run" False]
    by (simp add: w x)
qed


section \<open>A client and the server\<close>

text \<open>The server serves one frame that it answers with \<open>g\<close>.\<close>

lemma Server_serve_one:
  assumes "encodable pc f" "Server_handleFrame srv f = Inr (Some g)" "encodable pc g"
    and "try_send f (Server_Received srv) = Some ch"
  shows "Server_serve pc srv \<lparr>rd_data = frame_wire pc f, rd_err = e\<rparr> new_buffer =
    (None, srv\<lparr>Server_Received := ch\<rparr>, snd (Frame_Encode pc g new_buffer))"
proof -
  obtain w where enc: "Frame_Encode pc g new_buffer = (None, w)"
    using assms(3) by (metis encodable_def prod.collapse)
  have "Frame_Decode pc new_Frame \<lparr>rd_data = frame_wire pc f, rd_err = e\<rparr> = (None, f, \<lparr>rd_data = [], rd_err = e\<rparr>)"
    using encodable_decode [OF assms(1), of "[]" e] by simp
  then show ?thesis
    by (subst Server_serve.simps)
      (simp add: assms(2,4) enc Server_serve.simps [of _ _ "\<lparr>rd_data = [], rd_err = e\<rparr>"] Frame_Decode_Nil)
qed

text \<open>
  The frames the client reads while it waits are those the server has written in answer to the bytes
  the client has written since the first \<open>n\<close>.
\<close>

definition server_frames :: "proto \<Rightarrow> Server \<Rightarrow> bytes \<Rightarrow> Frame list" where
  "server_frames pc srv bs =
     (case Server_serve pc srv \<lparr>rd_data = bs, rd_err = EOF\<rparr> new_buffer of
        (_, _, out) \<Rightarrow> snd (snd (read_loop pc (\<lambda>f fs. fs @ [f]) \<lparr>rd_data = wr_out out, rd_err = EOF\<rparr> [])))"

definition server_env ::
    "proto \<Rightarrow> Server \<Rightarrow> nat \<Rightarrow> (Frame option \<Rightarrow> 'k) \<Rightarrow> (Conn, 'z) Client_scheme \<Rightarrow> (Conn, 'z) Client_scheme \<times> 'k" where
  "server_env pc srv n mk w =
     client_env pc (conn_sender pc) (server_frames pc srv (drop n (wr_out (Conn_W (ep_S w))))) id mk w"

lemma server_frames_one:
  assumes "encodable pc f" "Server_handleFrame srv f = Inr (Some g)" "encodable pc g"
    and "length (ch_buf (Server_Received srv)) < ch_cap (Server_Received srv)"
  shows "server_frames pc srv (frame_wire pc f) = [g]"
proof -
  obtain ch where "try_send f (Server_Received srv) = Some ch"
    using assms(4) by (cases "try_send f (Server_Received srv)") (simp_all add: try_send_def split: if_splits)
  from Server_serve_one [OF assms(1-3) this] show ?thesis
    using read_loop_wires_all [of "[g]" pc "\<lambda>f fs. fs @ [f]" EOF "[]"] assms(3)
    by (simp add: server_frames_def frame_wire_def)
qed

lemma Conn_SendSimpleCmd_wire:
  assumes "Conn_SendSimpleCmd pc cmd c = (None, c')" "frame_valid pc (simple_frame cmd)"
  shows "encodable pc (simple_frame cmd)" "wr_out (Conn_W c') = wr_out (Conn_W c) @ frame_wire pc (simple_frame cmd)"
proof -
  obtain b where "writeFrame_buf pc (simple_frame cmd) new_buffer c = (None, b, c')"
    using assms(1) by (auto simp: Conn_SendSimpleCmd_def split: prod.splits)
  from this assms(2) show "encodable pc (simple_frame cmd)" "wr_out (Conn_W c') = wr_out (Conn_W c) @ frame_wire pc (simple_frame cmd)"
    by (cases rule: writeFrame_buf_wire; simp)+
qed

text \<open>
  C7. Client and server together: \<open>LookupTopic\<close> of a client whose connection leads to the server of
  \<^verbatim>\<open>core/srv/server.go\<close> returns the response type, the broker address and the proxy flag that
  server is configured with for the topic (its own address unless \<open>SetTopicLookupResp\<close> was called),
  through the encoded bytes in both directions, both read loops and the dispatcher.
\<close>

theorem lookup_end_to_end:
  fixes w :: "(Conn, 'z) Client_scheme"
  assumes "dreach s" "ds_d s = ep_Dispatcher w" "cl_spawned w = []" "requestID = MonotonicID_ID (ep_ReqID w)"
    and "Dispatcher_ReqIDs (ep_Dispatcher w) requestID = None"
    and "frame_valid pc (simple_frame (Discoverer_lookup_cmd requestID topic authoritative))"
    and "resp = (case Server_topicLookupResps srv topic of Some r \<Rightarrow> r
      | None \<Rightarrow> \<lparr>topicLookupResp_respType = CommandLookupTopicResponse_Connect,
          topicLookupResp_proxyThroughServiceURL = False, topicLookupResp_brokerServiceURL = Server_Addr srv\<rparr>)"
    and "encodable pc (Server_lookup_frame resp (Some requestID))"
    and "length (ch_buf (Server_Received srv)) < ch_cap (Server_Received srv)"
    and "Conn_SendSimpleCmd pc (Discoverer_lookup_cmd requestID topic authoritative) (ep_S w) = (None, c)"
    and "Client_LookupTopic (conn_sender pc) (server_env pc srv (length (wr_out (Conn_W (ep_S w)))) (lookup_wake e))
      topic authoritative w = (r, w')" "\<not> cl_stuck w"
  shows "\<exists>m. r = Inr (Some m) \<and>
    CommandLookupTopicResponse_Response m = Some (topicLookupResp_respType resp) \<and>
    CommandLookupTopicResponse_BrokerServiceUrl m = Some (topicLookupResp_brokerServiceURL resp) \<and>
    CommandLookupTopicResponse_ProxyThroughServiceUrl m = Some (topicLookupResp_proxyThroughServiceURL resp)"
proof -
  let ?f = "simple_frame (Discoverer_lookup_cmd requestID topic authoritative)"
  let ?g = "Server_lookup_frame resp (Some requestID)"
  let ?n = "length (wr_out (Conn_W (ep_S w)))"
  note c = Conn_SendSimpleCmd_wire [OF assms(10,6)]
  have "Server_handleFrame srv ?f = Inr (Some ?g)"
    unfolding Server_handle_lookup assms(7)
    by (simp add: Server_lookup_resp_def CommandLookupTopic_GetTopic_def)
  from server_frames_one [OF c(1) this assms(8,9)] have fs: "server_frames pc srv (drop ?n (wr_out (Conn_W c))) = [?g]"
    by (simp add: c(2))
  have env: "server_env pc srv ?n (lookup_wake e) v = client_env pc (conn_sender pc) [?g] id (lookup_wake e) v"
    if "ep_S v = c" for v :: "(Conn, 'z) Client_scheme"
    unfolding server_env_def that fs ..
  have "r = lookup_result e (find (\<lambda>f. frame_key f = Some (KReq requestID)) (cl_spawned w @ [?g]))"
    by (rule Client_LookupTopic_answer [OF assms(1,2,4,5) _ _ _ env assms(11)])
      (use assms(3,10,12) in \<open>simp_all add: conn_sender_def no_messages_def\<close>)
  then have "r = Inr (BaseCommand_GetLookupTopicResponse (Frame_BaseCmd ?g))"
    using assms(3) by (simp add: lookup_result_def)
  then show ?thesis by (simp add: Server_lookup_frame_def simple_frame_def BaseCommand_GetLookupTopicResponse_def)
qed


text \<open>A codec for the two commands of the exchange.\<close>

definition demo_pair_proto :: proto where
  "demo_pair_proto =
     (let q = Discoverer_lookup_cmd 0 ''t'' False; a = the (Frame_BaseCmd demo_lookup_answer) in
      demo_proto\<lparr>
        Marshal_BaseCommand := (\<lambda>c. if c = Some q then Inr [1] else if c = Some a then Inr [2] else Inl (ErrProto ''unsupported'')),
        Unmarshal_BaseCommand := (\<lambda>b. if b = [1] then (q, None) else if b = [2] then (a, None)
          else (new_BaseCommand, Some (ErrProto ''unsupported'')))\<rparr>)"

definition demo_pair_client :: "Conn Client" where
  "demo_pair_client = new_Client (demo_conn\<lparr>Conn_W := new_buffer\<rparr>) None
     \<lparr>AuthConfig_AuthMethod = '''', AuthConfig_AuthData = None\<rparr>"

abbreviation demo_pair_run :: "(go_error + CommandLookupTopicResponse option) \<times> Conn Client" where
  "demo_pair_run \<equiv> Client_LookupTopic (conn_sender demo_pair_proto)
     (server_env demo_pair_proto (NewServer ''b'') 0 (lookup_wake Canceled)) ''t'' False demo_pair_client"

lemma demo_pair_encodable:
  "encodable demo_pair_proto (simple_frame (Discoverer_lookup_cmd 0 ''t'' False))"
  "encodable demo_pair_proto demo_lookup_answer"
  unfolding demo_lookup_answer_def Server_lookup_frame_def simple_frame_def Discoverer_lookup_cmd_def
  by (simp_all add: encodable_def frame_valid_def demo_pair_proto_def demo_lookup_answer_def Server_lookup_frame_def
      simple_frame_def Discoverer_lookup_cmd_def Let_def proto_cmd_ok_def encoded_size_def Frame_Encode_def
      Frame_totalSize_def MaxFrameSize_def new_buffer_def)

theorem lookup_end_to_end_witness:
  "\<exists>m. fst demo_pair_run = Inr (Some m) \<and> CommandLookupTopicResponse_BrokerServiceUrl m = Some ''pulsar://b''"
proof -
  let ?w = demo_pair_client and ?cmd = "Discoverer_lookup_cmd 0 ''t'' False"
  have w: "cl_spawned ?w = []" "MonotonicID_ID (ep_ReqID ?w) = 0" "ep_Dispatcher ?w = NewFrameDispatcher"
    "wr_out (Conn_W (ep_S ?w)) = []"
    by (simp_all add: demo_pair_client_def new_Client_def new_buffer_def)
  have snt: "Conn_SendSimpleCmd demo_pair_proto ?cmd (ep_S ?w) = (None, snd (Conn_SendSimpleCmd demo_pair_proto ?cmd (ep_S ?w)))"
    using demo_pair_encodable(1)
    by (auto simp: Conn_SendSimpleCmd_def writeFrame_buf_def encodable_def demo_pair_client_def new_Client_def
        Write_def new_buffer_def split: prod.splits option.splits)
  have "\<not> cl_stuck ?w" by (simp add: demo_pair_client_def new_Client_def)
  with lookup_end_to_end [OF dreach.init, of ?w 0 demo_pair_proto "''t''" False
      "\<lparr>topicLookupResp_respType = CommandLookupTopicResponse_Connect,
        topicLookupResp_proxyThroughServiceURL = False, topicLookupResp_brokerServiceURL = ''pulsar://b''\<rparr>"
      "NewServer ''b''" "snd (Conn_SendSimpleCmd demo_pair_proto ?cmd (ep_S ?w))" Canceled
      "fst demo_pair_run" "snd demo_pair_run"]
  show ?thesis
    using snt demo_pair_encodable unfolding w demo_lookup_answer_def
    by (auto simp: encodable_def NewServer_def make_chan_def dstate_init_def)
qed

end
