(* ===== verification/Managed.thy ===== *)
theory Managed
  imports Exchange
begin

text \<open>
  What the managed client, producer and consumer of \<^verbatim>\<open>core/manage\<close> have in common. Each keeps an
  object that a background goroutine sets and unsets, next to a channel on which the other
  goroutines wait while there is none; each recreates its object with delays that double up to a
  maximum. The locale \<open>wait_slot\<close> states what setting and unsetting promise and proves that no
  waiting goroutine is forgotten; \<open>backoff\<close> is the delay.
\<close>

section \<open>Channels that are only closed\<close>

text \<open>
  The wait channels of one object are numbered in the order they are made; the object keeps the
  number of the current one, if it has one, the number of the next, and those that are closed.
\<close>

definition close_chan :: "nat \<Rightarrow> nat list \<Rightarrow> go_error + nat list" where
  "close_chan ch closed =
     (if ch \<in> set closed then Inl (ErrPanic ''close of closed channel'') else Inr (ch # closed))"

section \<open>A slot with waiters\<close>

datatype 'c slot_op = SlotSet 'c | SlotUnset

fun slot_run ::
    "('c \<Rightarrow> 'm \<Rightarrow> go_error option \<times> 'm) \<Rightarrow> ('m \<Rightarrow> 'm) \<Rightarrow> 'c slot_op list \<Rightarrow> 'm \<Rightarrow> go_error option \<times> 'm" where
  "slot_run st us [] m = (None, m)"
| "slot_run st us (SlotSet c # ops) m =
     (case st c m of (Some p, m') \<Rightarrow> (Some p, m') | (None, m') \<Rightarrow> slot_run st us ops m')"
| "slot_run st us (SlotUnset # ops) m = slot_run st us ops (us m)"

text \<open>
  Exactly one of the object and the wait channel is there, the wait channel is open, and every other
  channel that was ever handed to a waiter is closed.
\<close>

definition slot_ok :: "'c option \<Rightarrow> nat option \<Rightarrow> nat \<Rightarrow> nat list \<Rightarrow> bool" where
  "slot_ok obj waitc next closed \<longleftrightarrow>
     (obj = None \<longleftrightarrow> waitc \<noteq> None) \<and>
     (\<forall>ch. waitc = Some ch \<longrightarrow> ch < next \<and> ch \<notin> set closed) \<and>
     (\<forall>ch < next. waitc = Some ch \<or> ch \<in> set closed) \<and> (\<forall>ch \<in> set closed. ch < next)"

locale wait_slot =
  fixes obj :: "'m \<Rightarrow> 'c option"
    and waitc :: "'m \<Rightarrow> nat option"
    and nxt :: "'m \<Rightarrow> nat"
    and closed :: "'m \<Rightarrow> nat list"
    and set_obj :: "'c \<Rightarrow> 'm \<Rightarrow> go_error option \<times> 'm"
    and unset :: "'m \<Rightarrow> 'm"
  assumes set_open: "(\<And>ch. waitc m = Some ch \<Longrightarrow> ch \<notin> set (closed m)) \<Longrightarrow>
      \<exists>m'. set_obj c m = (None, m') \<and> obj m' = Some c \<and> waitc m' = None \<and> nxt m' = nxt m \<and>
        closed m' = (case waitc m of None \<Rightarrow> closed m | Some ch \<Rightarrow> ch # closed m)"
    and unset_obj: "obj (unset m) = None" "closed (unset m) = closed m"
    and unset_waitc: "waitc (unset m) = (case waitc m of None \<Rightarrow> Some (nxt m) | Some ch \<Rightarrow> Some ch)"
      "nxt (unset m) = (case waitc m of None \<Rightarrow> Suc (nxt m) | Some _ \<Rightarrow> nxt m)"
begin

abbreviation inv :: "'m \<Rightarrow> bool" where
  "inv m \<equiv> slot_ok (obj m) (waitc m) (nxt m) (closed m)"

lemma set_inv:
  assumes "inv m"
  obtains m' where "set_obj c m = (None, m')" "inv m'" "obj m' = Some c"
    "set (closed m') = set (closed m) \<union> set_option (waitc m)"
proof -
  from assms have "\<And>ch. waitc m = Some ch \<Longrightarrow> ch \<notin> set (closed m)" by (simp add: slot_ok_def)
  from set_open [OF this, of c] obtain m' where m': "set_obj c m = (None, m')" "obj m' = Some c" "waitc m' = None"
    "nxt m' = nxt m" "closed m' = (case waitc m of None \<Rightarrow> closed m | Some ch \<Rightarrow> ch # closed m)" by auto
  with assms show thesis
    by (intro that [of m']) (auto simp: slot_ok_def split: option.splits)
qed

lemma unset_inv: "inv m \<Longrightarrow> inv (unset m)"
  by (auto simp: slot_ok_def unset_obj unset_waitc less_Suc_eq split: option.splits)

text \<open>No sequence of settings and unsettings closes a channel twice.\<close>

lemma run_inv:
  assumes "inv m"
  shows "\<exists>m'. slot_run set_obj unset ops m = (None, m') \<and> inv m' \<and> set (closed m) \<subseteq> set (closed m')"
  using assms
proof (induction ops arbitrary: m)
  case (Cons op ops)
  show ?case
  proof (cases op)
    case (SlotSet c)
    obtain m1 where m1: "set_obj c m = (None, m1)" "inv m1" "set (closed m1) = set (closed m) \<union> set_option (waitc m)"
      using set_inv [OF Cons.prems] by metis
    from Cons.IH [OF m1(2)] m1(1,3) SlotSet show ?thesis by auto
  next
    case SlotUnset
    from Cons.IH [OF unset_inv [OF Cons.prems]] SlotUnset show ?thesis by (simp add: unset_obj)
  qed
qed simp

text \<open>
  No wake-up is lost: a goroutine that found no object and waits on the channel it saw then is woken,
  or that channel is still the current one and there still has been no object since.
\<close>

lemma no_lost_wakeup:
  assumes "inv m" "obj m = None" "waitc m = Some ch" "slot_run set_obj unset ops m = (None, m')"
  shows "ch \<in> set (closed m') \<or> (obj m' = None \<and> waitc m' = Some ch \<and> (\<forall>c. SlotSet c \<notin> set ops))"
  using assms
proof (induction ops arbitrary: m)
  case (Cons op ops)
  show ?case
  proof (cases op)
    case (SlotSet c)
    obtain m1 where m1: "set_obj c m = (None, m1)" "inv m1" "set (closed m1) = set (closed m) \<union> set_option (waitc m)"
      using set_inv [OF Cons.prems(1)] by metis
    with run_inv [OF m1(2), of ops] Cons.prems SlotSet show ?thesis by auto
  next
    case SlotUnset
    have "obj (unset m) = None" "waitc (unset m) = Some ch" using Cons.prems(3) by (simp_all add: unset_obj unset_waitc)
    with Cons.IH [OF unset_inv [OF Cons.prems(1)]] Cons.prems(4) SlotUnset show ?thesis by simp
  qed
qed simp

end

section \<open>Waiting for the object\<close>

text \<open>
  The loop in which a goroutine gets the object: read the object and the channel; return the object
  if there is one, else wait. Each element of the list is one wait: what the others do to the state
  until it ends, and how it ends. \<open>None\<close> says that the goroutine still waits when the list ends.
\<close>

datatype acq_wake = AcqReady | AcqCtx ctx_error | AcqDone

fun acquire :: "('w \<Rightarrow> 'c option) \<Rightarrow> ('w \<Rightarrow> 'w \<times> acq_wake) list \<Rightarrow> 'w \<Rightarrow> (go_error + 'c) option \<times> 'w" where
  "acquire obj envs w =
     (case obj w of
        Some c \<Rightarrow> (Some (Inr c), w)
      | None \<Rightarrow>
          (case envs of
             [] \<Rightarrow> (None, w)
           | env # envs' \<Rightarrow>
               (case env w of
                  (w', AcqReady) \<Rightarrow> acquire obj envs' w'
                | (w', AcqCtx e) \<Rightarrow> (Some (Inl (ErrCtx e)), w')
                | (w', AcqDone) \<Rightarrow> (Some (Inl ErrStopped), w'))))"

declare acquire.simps [simp del]

lemma acquire_obj: "obj w = Some c \<Longrightarrow> acquire obj envs w = (Some (Inr c), w)"
  by (simp add: acquire.simps)

text \<open>What is returned is the object of the state in which the loop ended.\<close>

lemma acquire_Inr: "acquire obj envs w = (Some (Inr c), w') \<Longrightarrow> obj w' = Some c"
proof (induction obj envs w rule: acquire.induct)
  case (1 obj envs w)
  then show ?case
    by (subst (asm) (2) acquire.simps) (auto split: option.splits list.splits prod.splits acq_wake.splits)
qed

lemma acquire_inv:
  assumes "\<And>env v. env \<in> set envs \<Longrightarrow> P v \<Longrightarrow> P (fst (env v))" "P w"
  shows "P (snd (acquire obj envs w))"
  using assms
proof (induction obj envs w rule: acquire.induct)
  case (1 obj envs w)
  show ?case
  proof (cases "obj w")
    case None
    show ?thesis
    proof (cases envs)
      case (Cons env envs')
      obtain w' k where e: "env w = (w', k)" by fastforce
      with 1(2) [of env w] 1(3) Cons have P: "P w'" by simp
      show ?thesis
      proof (cases k)
        case AcqReady
        with 1(1) [OF None Cons e [symmetric] AcqReady _ P] 1(2) Cons None e show ?thesis
          by (subst acquire.simps) simp
      qed (use P Cons None e in \<open>simp_all add: acquire.simps\<close>)
    qed (use 1(3) None in \<open>simp add: acquire.simps\<close>)
  qed (use 1(3) in \<open>simp add: acquire.simps\<close>)
qed

text \<open>A wait that is bounded by a context ends: the loop returns.\<close>

definition wait_ends :: "('w \<Rightarrow> 'w \<times> acq_wake) list \<Rightarrow> bool" where
  "wait_ends envs \<longleftrightarrow> (\<exists>env \<in> set envs. \<forall>w. snd (env w) \<noteq> AcqReady)"

lemma acquire_returns: "wait_ends envs \<Longrightarrow> \<exists>r w'. acquire obj envs w = (Some r, w')"
proof (induction envs arbitrary: w)
  case (Cons env envs)
  obtain w1 k where e: "env w = (w1, k)" by fastforce
  show ?case
  proof (cases "obj w = None \<and> k = AcqReady")
    case True
    with e have "\<not> (\<forall>w. snd (env w) \<noteq> AcqReady)" by (metis snd_conv)
    with Cons.prems have "wait_ends envs" by (simp add: wait_ends_def)
    from Cons.IH [OF this, of w1] True e show ?thesis by (subst acquire.simps) simp
  next
    case False
    with e show ?thesis by (subst acquire.simps) (auto split: option.splits acq_wake.splits)
  qed
qed (simp add: wait_ends_def)

section \<open>Delays\<close>

text \<open>
  A \<^verbatim>\<open>time.Duration\<close> is a signed 64-bit number of nanoseconds; doubling one wraps around.
\<close>

definition second :: int where
  "second = 1000000000"

definition minute :: int where
  "minute = 60 * second"

definition backoff :: "int \<Rightarrow> int \<Rightarrow> int" where
  "backoff maxDelay retryDelay =
     (if retryDelay < maxDelay
      then (let d = signed_take_bit 63 (retryDelay * 2) in if d > maxDelay then maxDelay else d)
      else retryDelay)"

lemma backoff_min:
  assumes "0 < d" "maxDelay < 2 ^ 62" "d \<le> maxDelay"
  shows "backoff maxDelay d = min maxDelay (2 * d)"
proof -
  have "signed_take_bit 63 (d * 2) = d * 2"
    using assms by (intro signed_take_bit_int_eq_self) simp_all
  with assms show ?thesis by (simp add: backoff_def Let_def)
qed

lemma backoff_pow:
  assumes "0 < d" "maxDelay < 2 ^ 62" "d \<le> maxDelay"
  shows "(backoff maxDelay ^^ n) d = min maxDelay (2 ^ n * d)"
proof (induction n)
  case (Suc n)
  have "0 < min maxDelay (2 ^ n * d)" using assms by simp
  then have "backoff maxDelay (min maxDelay (2 ^ n * d)) = min maxDelay (2 * min maxDelay (2 ^ n * d))"
    using assms by (intro backoff_min) simp_all
  also have "\<dots> = min maxDelay (2 ^ Suc n * d)" using assms by (simp add: min_def)
  finally show ?case using Suc.IH by simp
qed (use assms in simp)

text \<open>An initial delay above the maximum is never lowered: the doubling is taken only up to the maximum.\<close>

lemma backoff_above: "maxDelay \<le> d \<Longrightarrow> backoff maxDelay d = d"
  by (simp add: backoff_def)

lemma backoff_pow_max:
  assumes "0 < d" "maxDelay < 2 ^ 62"
  shows "(backoff maxDelay ^^ n) d = max d (min maxDelay (2 ^ n * d))"
proof (cases "d \<le> maxDelay")
  case True
  have "d \<le> 2 ^ n * d" using assms(1) by simp
  with True show ?thesis using backoff_pow [OF assms(1,2) True, of n] by (simp add: min_def max_def)
next
  case False
  then have "(backoff maxDelay ^^ n) d = d"
    by (induction n) (simp_all add: backoff_above assms)
  with False show ?thesis by (simp add: min_def max_def)
qed

end
