(* ===== verification/ManagedClient.thy ===== *)
theory ManagedClient
  imports Managed
begin

text \<open>
  The managed client of \<^verbatim>\<open>core/manage/managed_client.go\<close> and the constructor \<open>NewClient\<close> of
  \<^verbatim>\<open>core/manage/client.go\<close>: the configuration and its defaults, stopping, getting the client,
  connecting and reconnecting, and the goroutine that watches the client. The clients that have been
  created are in \<open>wd_clients\<close> and are referred to by their position. Each object has its own view of
  the channel its errors are reported on; a report never blocks.
\<close>

section \<open>Configuration\<close>

type_synonym tls_config = nat

record ClientConfig =
  cfg_Addr :: string
  cfg_phyAddr :: string
  cfg_DialTimeout :: int
  cfg_TLSConfig :: "tls_config option"
  cfg_Errs :: AsyncErrors
  cfg_PingFrequency :: int
  cfg_PingTimeout :: int
  cfg_ConnectTimeout :: int
  cfg_InitialReconnectDelay :: int
  cfg_MaxReconnectDelay :: int
  cfg_AuthMethod :: string
  cfg_AuthData :: "bytes option"

definition ClientConfig_ConnAddr :: "ClientConfig \<Rightarrow> string" where
  "ClientConfig_ConnAddr c = (if cfg_phyAddr c \<noteq> '''' then cfg_phyAddr c else cfg_Addr c)"

definition ClientConfig_SetDefaults :: "ClientConfig \<Rightarrow> ClientConfig" where
  "ClientConfig_SetDefaults c =
     (if cfg_DialTimeout c \<le> 0 then c\<lparr>cfg_DialTimeout := 5 * second\<rparr> else c)"

text \<open>\<open>div\<close> is Go's division here: the divided frequency is positive.\<close>

definition ClientConfig_setDefaults :: "ClientConfig \<Rightarrow> ClientConfig" where
  "ClientConfig_setDefaults m =
     (let m1 = (if cfg_PingFrequency m \<le> 0 then m\<lparr>cfg_PingFrequency := 30 * second\<rparr> else m);
          m2 = (if cfg_PingTimeout m1 \<le> 0 then m1\<lparr>cfg_PingTimeout := cfg_PingFrequency m1 div 2\<rparr> else m1);
          m3 = (if cfg_ConnectTimeout m2 \<le> 0 then m2\<lparr>cfg_ConnectTimeout := 5 * second\<rparr> else m2);
          m4 = (if cfg_InitialReconnectDelay m3 \<le> 0 then m3\<lparr>cfg_InitialReconnectDelay := 1 * second\<rparr> else m3)
      in if cfg_MaxReconnectDelay m4 \<le> 0 then m4\<lparr>cfg_MaxReconnectDelay := 2 * minute\<rparr> else m4)"

section \<open>Creating a client\<close>

record dialer =
  dial_tcp :: "string \<Rightarrow> int \<Rightarrow> go_error + reader \<times> writer \<times> go_error option"
  dial_tls :: "tls_config \<Rightarrow> string \<Rightarrow> int \<Rightarrow> go_error + reader \<times> writer \<times> go_error option"

definition NewClient :: "dialer \<Rightarrow> ClientConfig \<Rightarrow> go_error + Conn Client" where
  "NewClient dl cfg0 =
     (let cfg = ClientConfig_SetDefaults cfg0 in
      case (case cfg_TLSConfig cfg of
              Some tls \<Rightarrow> NewTLSConn (dial_tls dl) (ClientConfig_ConnAddr cfg) tls (cfg_DialTimeout cfg)
            | None \<Rightarrow> NewTCPConn (dial_tcp dl) (ClientConfig_ConnAddr cfg) (cfg_DialTimeout cfg)) of
        Inl err \<Rightarrow> Inl err
      | Inr cnx \<Rightarrow>
          Inr (new_Client cnx (cfg_Errs cfg)
            \<lparr>AuthConfig_AuthMethod = cfg_AuthMethod cfg, AuthConfig_AuthData = cfg_AuthData cfg\<rparr>))"

section \<open>State\<close>

text \<open>
  \<open>mc_next\<close> and \<open>mc_closed\<close> number the wait channels; \<open>wd_queues\<close> are the message channels made by
  the managed consumers, which a client sees while one of its operations runs.
\<close>

record ManagedClient =
  mc_cfg :: ClientConfig
  mc_asyncErrs :: AsyncErrors
  mc_isDone :: bool
  mc_donec :: bool
  mc_client :: "nat option"
  mc_waitc :: "nat option"
  mc_next :: nat
  mc_closed :: "nat list"

record world =
  wd_clients :: "Conn Client list"
  wd_queues :: "Message chan list"

definition NewManagedClient :: "ClientConfig \<Rightarrow> ManagedClient" where
  "NewManagedClient cfg0 =
     (let cfg = ClientConfig_setDefaults cfg0 in
      \<lparr>mc_cfg = cfg, mc_asyncErrs = cfg_Errs cfg, mc_isDone = False, mc_donec = False, mc_client = None,
       mc_waitc = Some 0, mc_next = 1, mc_closed = []\<rparr>)"

definition ManagedClient_async_err :: "go_error \<Rightarrow> ManagedClient \<Rightarrow> ManagedClient" where
  "ManagedClient_async_err err m = m\<lparr>mc_asyncErrs := AsyncErrors_Send err (mc_asyncErrs m)\<rparr>"

text \<open>
  \<open>Stop\<close> holds only the read lock, which other readers may hold too: its test and its update are two
  steps.
\<close>

definition Stop_test :: "ManagedClient \<Rightarrow> bool" where
  "Stop_test m = (\<not> mc_isDone m)"

definition Stop_update :: "ManagedClient \<Rightarrow> go_error option \<times> ManagedClient" where
  "Stop_update m =
     (let m1 = m\<lparr>mc_isDone := True\<rparr> in
      case close_signal (mc_donec m1) of Inl p \<Rightarrow> (Some p, m1) | Inr cl \<Rightarrow> (None, m1\<lparr>mc_donec := cl\<rparr>))"

definition ManagedClient_Stop :: "ManagedClient \<Rightarrow> go_error option \<times> ManagedClient" where
  "ManagedClient_Stop m = (if Stop_test m then Stop_update m else (None, m))"

definition ManagedClient_Done :: "ManagedClient \<Rightarrow> bool" where
  "ManagedClient_Done m = mc_donec m"

definition ManagedClient_Get ::
    "(ManagedClient \<Rightarrow> ManagedClient \<times> acq_wake) list \<Rightarrow> ManagedClient \<Rightarrow> (go_error + nat) option \<times> ManagedClient" where
  "ManagedClient_Get envs m = acquire mc_client envs m"

definition ManagedClient_set :: "nat \<Rightarrow> ManagedClient \<Rightarrow> go_error option \<times> ManagedClient" where
  "ManagedClient_set c m =
     (let m1 = m\<lparr>mc_client := Some c\<rparr> in
      case mc_waitc m1 of
        None \<Rightarrow> (None, m1)
      | Some ch \<Rightarrow>
          (case close_chan ch (mc_closed m1) of
             Inl p \<Rightarrow> (Some p, m1)
           | Inr cls \<Rightarrow> (None, m1\<lparr>mc_closed := cls, mc_waitc := None\<rparr>)))"

definition ManagedClient_unset :: "ManagedClient \<Rightarrow> ManagedClient" where
  "ManagedClient_unset m =
     (let m1 = (if mc_waitc m = None then m\<lparr>mc_waitc := Some (mc_next m), mc_next := mc_next m + 1\<rparr> else m)
      in m1\<lparr>mc_client := None\<rparr>)"

interpretation client_slot: wait_slot mc_client mc_waitc mc_next mc_closed ManagedClient_set ManagedClient_unset
  by unfold_locales
    (auto simp: ManagedClient_set_def ManagedClient_unset_def close_chan_def Let_def split: option.splits)

section \<open>Connecting\<close>

text \<open>
  An attempt to connect: the dialler, how the exchange of the CONNECT command goes, whether \<open>Stop\<close> is
  called before it, and whether the timer is chosen where it and \<open>donec\<close> are both ready.
\<close>

record attempt =
  at_dialer :: dialer
  at_env :: "Conn Client \<Rightarrow> Conn Client \<times> connect_wake"
  at_Stop :: bool
  at_timer :: bool

definition ManagedClient_newClient ::
    "proto \<Rightarrow> attempt \<Rightarrow> ManagedClient \<Rightarrow> world \<Rightarrow> (go_error + nat) \<times> world" where
  "ManagedClient_newClient pc a m w =
     (case NewClient (at_dialer a) (mc_cfg m) of
        Inl err \<Rightarrow> (Inl err, w)
      | Inr client \<Rightarrow>
          (let cfg = mc_cfg m;
               proxyBrokerURL =
                 (if cfg_phyAddr cfg \<noteq> '''' \<and> cfg_phyAddr cfg \<noteq> cfg_Addr cfg then cfg_Addr cfg else '''')
           in case (if cfg_TLSConfig cfg \<noteq> None
                    then Client_ConnectTLS (conn_sender pc) (at_env a) proxyBrokerURL client
                    else Client_Connect (conn_sender pc) (at_env a) proxyBrokerURL client) of
                (Inl err, client1) \<Rightarrow> (Inl err, w\<lparr>wd_clients := wd_clients w @ [snd (Client_Close client1)]\<rparr>)
              | (Inr _, client1) \<Rightarrow> (Inr (length (wd_clients w)), w\<lparr>wd_clients := wd_clients w @ [client1]\<rparr>)))"

text \<open>
  The reconnect loop, from a delay on. Its result also lists the delays it waited for in full;
  \<open>Trying\<close> says that the attempts given did not suffice.
\<close>

datatype 'c reconnected = Reconnected 'c | Stopped | Trying

fun reconnect_loop ::
    "proto \<Rightarrow> attempt list \<Rightarrow> bool \<Rightarrow> int \<Rightarrow> ManagedClient \<Rightarrow> world \<Rightarrow>
     nat reconnected \<times> int list \<times> ManagedClient \<times> world" where
  "reconnect_loop pc [] initial retryDelay m w = (Trying, [], m, w)"
| "reconnect_loop pc (a # as) initial retryDelay m w =
     (let m1 = (if at_Stop a then snd (ManagedClient_Stop m) else m) in
      if mc_donec m1 \<and> (initial \<or> \<not> at_timer a) then (Stopped, [], m1, w)
      else
        (let waited = (if initial then [] else [retryDelay]);
             retryDelay1 = backoff (cfg_MaxReconnectDelay (mc_cfg m1)) retryDelay
         in case ManagedClient_newClient pc a m1 w of
              (Inl err, w1) \<Rightarrow>
                (case reconnect_loop pc as False retryDelay1 (ManagedClient_async_err err m1) w1 of
                   (r, ds, rest) \<Rightarrow> (r, waited @ ds, rest))
            | (Inr c, w1) \<Rightarrow> (Reconnected c, waited, m1, w1)))"

definition ManagedClient_reconnect ::
    "proto \<Rightarrow> attempt list \<Rightarrow> bool \<Rightarrow> ManagedClient \<Rightarrow> world \<Rightarrow>
     nat reconnected \<times> int list \<times> ManagedClient \<times> world" where
  "ManagedClient_reconnect pc as initial m w =
     reconnect_loop pc as initial (cfg_InitialReconnectDelay (mc_cfg m)) m w"

section \<open>Watching the client\<close>

text \<open>
  What happens next, seen from the goroutine that watches the client: one of the cases of its
  \<open>select\<close> is chosen, if it is ready, with what is needed to reconnect; or meanwhile \<open>Stop\<close> is
  called or the client is used by others.
\<close>

datatype manage_event =
    MgDone
  | MgClosed "attempt list"
  | MgPing "Conn Client \<Rightarrow> Conn Client \<times> wake" "attempt list"
  | MgCallStop
  | MgUse "Conn Client \<Rightarrow> Conn Client"

datatype manage_state = MgWatching nat | MgReconnecting | MgReturned | MgPanic go_error

definition upd_client :: "nat \<Rightarrow> Conn Client \<Rightarrow> world \<Rightarrow> world" where
  "upd_client c cl w = w\<lparr>wd_clients := (wd_clients w)[c := cl]\<rparr>"

definition close_client :: "nat \<Rightarrow> ManagedClient \<Rightarrow> world \<Rightarrow> ManagedClient \<times> world" where
  "close_client c m w =
     (case Client_Close (wd_clients w ! c) of
        (None, cl) \<Rightarrow> (m, upd_client c cl w)
      | (Some err, cl) \<Rightarrow> (ManagedClient_async_err err m, upd_client c cl w))"

text \<open>A new client is made, by \<open>reconnect\<close>, and set; the deferred \<open>unset\<close> runs if it is not.\<close>

definition make_client ::
    "proto \<Rightarrow> attempt list \<Rightarrow> bool \<Rightarrow> ManagedClient \<Rightarrow> world \<Rightarrow> manage_state \<times> ManagedClient \<times> world" where
  "make_client pc as initial m w =
     (case ManagedClient_reconnect pc as initial m w of
        (Trying, _, m1, w1) \<Rightarrow> (MgReconnecting, m1, w1)
      | (Stopped, _, m1, w1) \<Rightarrow> (MgReturned, ManagedClient_unset m1, w1)
      | (Reconnected c, _, m1, w1) \<Rightarrow>
          (case ManagedClient_set c m1 of
             (Some p, m2) \<Rightarrow> (MgPanic p, m2, w1)
           | (None, m2) \<Rightarrow> (MgWatching c, m2, w1)))"

definition manage_step ::
    "proto \<Rightarrow> manage_event \<Rightarrow> nat \<Rightarrow> ManagedClient \<Rightarrow> world \<Rightarrow> manage_state \<times> ManagedClient \<times> world" where
  "manage_step pc ev c m w =
     (case ev of
        MgDone \<Rightarrow>
          if mc_donec m
          then (case close_client c m w of (m1, w1) \<Rightarrow> (MgReturned, ManagedClient_unset m1, w1))
          else (MgWatching c, m, w)
      | MgClosed as \<Rightarrow>
          if Client_Closed (wd_clients w ! c) then make_client pc as False (ManagedClient_unset m) w
          else (MgWatching c, m, w)
      | MgPing env as \<Rightarrow>
          (case Client_Ping (conn_sender pc) env (wd_clients w ! c) of
             (Inr _, cl) \<Rightarrow> (MgWatching c, m, upd_client c cl w)
           | (Inl err, cl) \<Rightarrow>
               (case close_client c (ManagedClient_async_err err m) (upd_client c cl w) of
                  (m1, w1) \<Rightarrow> make_client pc as False (ManagedClient_unset m1) w1))
      | MgCallStop \<Rightarrow> (MgWatching c, snd (ManagedClient_Stop m), w)
      | MgUse f \<Rightarrow> (MgWatching c, m, upd_client c (f (wd_clients w ! c)) w))"

fun manage_loop ::
    "proto \<Rightarrow> manage_event list \<Rightarrow> nat \<Rightarrow> ManagedClient \<Rightarrow> world \<Rightarrow> manage_state \<times> ManagedClient \<times> world" where
  "manage_loop pc [] c m w = (MgWatching c, m, w)"
| "manage_loop pc (ev # evs) c m w =
     (case manage_step pc ev c m w of
        (MgWatching c', m', w') \<Rightarrow> manage_loop pc evs c' m' w'
      | r \<Rightarrow> r)"

definition ManagedClient_manage ::
    "proto \<Rightarrow> attempt list \<Rightarrow> manage_event list \<Rightarrow> ManagedClient \<Rightarrow> world \<Rightarrow> manage_state \<times> ManagedClient \<times> world" where
  "ManagedClient_manage pc as evs m w =
     (case make_client pc as True m w of
        (MgWatching c, m1, w1) \<Rightarrow> manage_loop pc evs c m1 w1
      | r \<Rightarrow> r)"


section \<open>Lemmas\<close>

lemma ManagedClient_unset_simps [simp]:
  "mc_client (ManagedClient_unset m) = None" "mc_cfg (ManagedClient_unset m) = mc_cfg m"
  "mc_donec (ManagedClient_unset m) = mc_donec m" "mc_isDone (ManagedClient_unset m) = mc_isDone m"
  by (simp_all add: ManagedClient_unset_def Let_def)

lemma ManagedClient_async_err_simps [simp]:
  "mc_cfg (ManagedClient_async_err e m) = mc_cfg m" "mc_donec (ManagedClient_async_err e m) = mc_donec m"
  "mc_isDone (ManagedClient_async_err e m) = mc_isDone m" "mc_client (ManagedClient_async_err e m) = mc_client m"
  "mc_waitc (ManagedClient_async_err e m) = mc_waitc m" "mc_next (ManagedClient_async_err e m) = mc_next m"
  "mc_closed (ManagedClient_async_err e m) = mc_closed m"
  by (simp_all add: ManagedClient_async_err_def)

text \<open>\<open>Stop\<close> only sets the two flags, and only once.\<close>

lemma ManagedClient_Stop_simps [simp]:
  "mc_cfg (snd (ManagedClient_Stop m)) = mc_cfg m" "mc_client (snd (ManagedClient_Stop m)) = mc_client m"
  "mc_waitc (snd (ManagedClient_Stop m)) = mc_waitc m" "mc_next (snd (ManagedClient_Stop m)) = mc_next m"
  "mc_closed (snd (ManagedClient_Stop m)) = mc_closed m" "mc_isDone (snd (ManagedClient_Stop m))"
  by (simp_all add: ManagedClient_Stop_def Stop_test_def Stop_update_def Let_def split: sum.split)

lemma ManagedClient_Stop_ok:
  "mc_isDone m = mc_donec m \<Longrightarrow> fst (ManagedClient_Stop m) = None \<and> mc_donec (snd (ManagedClient_Stop m))"
  by (simp add: ManagedClient_Stop_def Stop_test_def Stop_update_def close_signal_def Let_def)

lemma ManagedClient_set_simps [simp]:
  "mc_cfg (snd (ManagedClient_set c m)) = mc_cfg m" "mc_donec (snd (ManagedClient_set c m)) = mc_donec m"
  "mc_isDone (snd (ManagedClient_set c m)) = mc_isDone m"
  by (simp_all add: ManagedClient_set_def Let_def split: option.split sum.split)

lemma newClient_index:
  assumes "ManagedClient_newClient pc a m w = (r, w')"
  shows "length (wd_clients w) \<le> length (wd_clients w') \<and>
    (\<forall>c. r = Inr c \<longrightarrow> c = length (wd_clients w) \<and> c < length (wd_clients w'))"
  using assms by (auto simp: ManagedClient_newClient_def Let_def split: sum.splits prod.splits)

text \<open>Two goroutines that call \<open>Stop\<close> at the same time: both pass the test, and the second one panics.\<close>

lemma concurrent_stops_panic:
  assumes "\<not> mc_isDone m" "\<not> mc_donec m"
  shows "Stop_test m \<and> (\<exists>p. fst (Stop_update (snd (Stop_update m))) = Some (ErrPanic p))"
  using assms by (simp add: Stop_test_def Stop_update_def close_signal_def Let_def)

section \<open>Reconnecting\<close>

lemma reconnect_loop_delays:
  assumes "reconnect_loop pc as initial d m w = (r, ds, m', w')"
  shows "ds = map (\<lambda>i. (backoff (cfg_MaxReconnectDelay (mc_cfg m)) ^^ (i + (if initial then 1 else 0))) d) [0..<length ds]"
  using assms
proof (induction as arbitrary: initial d m w r ds m' w')
  case (Cons a as)
  let ?mx = "cfg_MaxReconnectDelay (mc_cfg m)"
  let ?m1 = "if at_Stop a then snd (ManagedClient_Stop m) else m"
  have cfg: "mc_cfg ?m1 = mc_cfg m" by simp
  show ?case
  proof (cases "mc_donec ?m1 \<and> (initial \<or> \<not> at_timer a)")
    case True
    with Cons.prems show ?thesis by (simp add: Let_def)
  next
    case False
    obtain x w1 where nc: "ManagedClient_newClient pc a ?m1 w = (x, w1)" by fastforce
    show ?thesis
    proof (cases x)
      case (Inl err)
      obtain ds1 where rl: "reconnect_loop pc as False (backoff ?mx d) (ManagedClient_async_err err ?m1) w1 = (r, ds1, m', w')"
        and ds: "ds = (if initial then [] else [d]) @ ds1"
        using Cons.prems False nc Inl cfg by (auto simp: Let_def split: prod.splits)
      have "ds1 = map (\<lambda>i. (backoff ?mx ^^ i) (backoff ?mx d)) [0..<length ds1]"
        using Cons.IH [OF rl] cfg by simp
      then have ds1: "ds1 = map (\<lambda>i. (backoff ?mx ^^ Suc i) d) [0..<length ds1]"
        by (simp add: funpow_swap1)
      then show ?thesis
        unfolding ds by (cases initial) (simp_all add: upt_conv_Cons map_Suc_upt [symmetric] comp_def del: upt_Suc funpow.simps)
    next
      case (Inr c)
      with Cons.prems False nc show ?thesis by (auto simp: Let_def)
    qed
  qed
qed simp

lemma reconnect_loop_result:
  assumes "reconnect_loop pc as initial d m w = (r, ds, m', w')" "mc_isDone m = mc_donec m"
  shows "mc_isDone m' = mc_donec m' \<and> mc_cfg m' = mc_cfg m \<and> mc_client m' = mc_client m \<and> mc_waitc m' = mc_waitc m \<and>
    mc_next m' = mc_next m \<and> mc_closed m' = mc_closed m \<and> length (wd_clients w) \<le> length (wd_clients w') \<and>
    (mc_donec m \<longrightarrow> mc_donec m') \<and> (mc_donec m' \<longrightarrow> mc_donec m \<or> list_ex at_Stop as) \<and> (r = Stopped \<longrightarrow> mc_donec m') \<and>
    (\<forall>c. r = Reconnected c \<longrightarrow> length (wd_clients w) \<le> c \<and> c < length (wd_clients w'))"
  using assms
proof (induction as arbitrary: initial d m w r ds m' w')
  case (Cons a as)
  let ?m1 = "if at_Stop a then snd (ManagedClient_Stop m) else m"
  have fl: "mc_isDone ?m1 = mc_donec ?m1" "mc_donec m \<longrightarrow> mc_donec ?m1" "mc_donec ?m1 \<longrightarrow> mc_donec m \<or> at_Stop a"
    using ManagedClient_Stop_ok [OF Cons.prems(2)] Cons.prems(2) by auto
  show ?case
  proof (cases "mc_donec ?m1 \<and> (initial \<or> \<not> at_timer a)")
    case True
    with Cons.prems(1) fl show ?thesis by (auto simp: Let_def)
  next
    case False
    obtain x w1 where nc: "ManagedClient_newClient pc a ?m1 w = (x, w1)" by fastforce
    note idx = newClient_index [OF nc]
    show ?thesis
    proof (cases x)
      case (Inl err)
      obtain ds1 d1 where rl: "reconnect_loop pc as False d1 (ManagedClient_async_err err ?m1) w1 = (r, ds1, m', w')"
        using Cons.prems(1) False nc Inl by (auto simp: Let_def split: prod.splits)
      from Cons.IH [OF rl] fl idx show ?thesis by auto
    next
      case (Inr c)
      with Cons.prems(1) False nc have "r = Reconnected c" "m' = ?m1" "w' = w1" by (simp_all add: Let_def)
      with fl idx Inr show ?thesis by auto
    qed
  qed
qed simp


section \<open>Watching\<close>

text \<open>
  While the goroutine watches a client, that client is set, and exists; otherwise none is set. There
  is no panic.
\<close>

definition manage_inv :: "manage_state \<Rightarrow> ManagedClient \<Rightarrow> world \<Rightarrow> bool" where
  "manage_inv st m w \<longleftrightarrow>
     slot_ok (mc_client m) (mc_waitc m) (mc_next m) (mc_closed m) \<and> mc_isDone m = mc_donec m \<and>
     (case st of
        MgWatching c \<Rightarrow> mc_client m = Some c \<and> c < length (wd_clients w)
      | MgPanic _ \<Rightarrow> False
      | _ \<Rightarrow> mc_client m = None)"

lemma make_client_inv:
  assumes "slot_ok (mc_client m) (mc_waitc m) (mc_next m) (mc_closed m)" "mc_isDone m = mc_donec m" "mc_client m = None"
    and "make_client pc as initial m w = (st, m', w')"
  shows "manage_inv st m' w'"
proof -
  obtain r ds m1 w1 where rc: "ManagedClient_reconnect pc as initial m w = (r, ds, m1, w1)" by (metis prod_cases4)
  note res = reconnect_loop_result [OF rc [unfolded ManagedClient_reconnect_def] assms(2)]
  have inv: "slot_ok (mc_client m1) (mc_waitc m1) (mc_next m1) (mc_closed m1)" using res assms(1) by simp
  show ?thesis
  proof (cases r)
    case (Reconnected c)
    obtain m2 where m2: "ManagedClient_set c m1 = (None, m2)"
      "slot_ok (mc_client m2) (mc_waitc m2) (mc_next m2) (mc_closed m2)" "mc_client m2 = Some c"
      using client_slot.set_inv [OF inv] by metis
    have "mc_isDone m2 = mc_donec m2" using ManagedClient_set_simps [of c m1] m2(1) res by simp
    with m2 assms(4) rc Reconnected res show ?thesis by (auto simp: make_client_def manage_inv_def)
  next
    case Stopped
    with assms(4) rc res client_slot.unset_inv [OF inv] show ?thesis by (auto simp: make_client_def manage_inv_def)
  next
    case Trying
    with assms(3,4) rc res inv show ?thesis by (auto simp: make_client_def manage_inv_def)
  qed
qed

lemma close_client_simps:
  assumes "close_client c m w = (m1, w1)"
  shows "mc_client m1 = mc_client m" "mc_waitc m1 = mc_waitc m" "mc_next m1 = mc_next m" "mc_closed m1 = mc_closed m"
    "mc_isDone m1 = mc_isDone m" "mc_donec m1 = mc_donec m"
  using assms by (auto simp: close_client_def split: prod.splits option.splits)

lemma manage_step_inv:
  assumes "manage_inv (MgWatching c) m w" "manage_step pc ev c m w = (st, m', w')"
  shows "manage_inv st m' w'"
proof -
  have inv: "slot_ok (mc_client m) (mc_waitc m) (mc_next m) (mc_closed m)" "mc_isDone m = mc_donec m"
    "mc_client m = Some c" "c < length (wd_clients w)"
    using assms(1) by (auto simp: manage_inv_def)
  note un = client_slot.unset_inv [OF inv(1)]
  show ?thesis
  proof (cases ev)
    case MgDone
    obtain m1 w1 where cc: "close_client c m w = (m1, w1)" by fastforce
    note s = close_client_simps [OF cc]
    have "slot_ok (mc_client m1) (mc_waitc m1) (mc_next m1) (mc_closed m1)" using inv(1) s by simp
    from client_slot.unset_inv [OF this] s inv assms MgDone cc show ?thesis
      by (auto simp: manage_step_def manage_inv_def split: if_splits)
  next
    case (MgClosed as)
    show ?thesis
    proof (cases "Client_Closed (wd_clients w ! c)")
      case True
      with make_client_inv [OF un, of pc as False w] inv(2) assms(2) MgClosed show ?thesis by (simp add: manage_step_def)
    qed (use assms MgClosed in \<open>simp add: manage_step_def\<close>)
  next
    case (MgPing env as)
    obtain r cl where ping: "Client_Ping (conn_sender pc) env (wd_clients w ! c) = (r, cl)" by fastforce
    show ?thesis
    proof (cases r)
      case (Inl err)
      obtain m1 w1 where cc: "close_client c (ManagedClient_async_err err m) (upd_client c cl w) = (m1, w1)" by fastforce
      note s = close_client_simps [OF cc]
      have "slot_ok (mc_client m1) (mc_waitc m1) (mc_next m1) (mc_closed m1)" using inv(1) s by simp
      from make_client_inv [OF client_slot.unset_inv [OF this]] s inv(2) assms(2) MgPing ping Inl cc
      show ?thesis by (simp add: manage_step_def)
    next
      case (Inr u)
      with assms(2) MgPing ping inv show ?thesis by (auto simp: manage_step_def manage_inv_def upd_client_def)
    qed
  next
    case MgCallStop
    with assms(2) inv ManagedClient_Stop_ok [OF inv(2)] show ?thesis by (auto simp: manage_step_def manage_inv_def)
  next
    case (MgUse f)
    with assms(2) inv show ?thesis by (auto simp: manage_step_def manage_inv_def upd_client_def)
  qed
qed

lemma manage_loop_inv:
  "manage_inv (MgWatching c) m w \<Longrightarrow> manage_loop pc evs c m w = (st, m', w') \<Longrightarrow> manage_inv st m' w'"
proof (induction evs arbitrary: c m w)
  case (Cons ev evs)
  obtain s1 m1 w1 where st: "manage_step pc ev c m w = (s1, m1, w1)" by (metis prod_cases3)
  from manage_step_inv [OF Cons.prems(1) st] Cons st show ?case by (cases s1) auto
qed simp

lemma NewManagedClient_inv:
  "slot_ok (mc_client (NewManagedClient cfg)) (mc_waitc (NewManagedClient cfg)) (mc_next (NewManagedClient cfg))
     (mc_closed (NewManagedClient cfg))"
  "mc_isDone (NewManagedClient cfg) = mc_donec (NewManagedClient cfg)" "mc_client (NewManagedClient cfg) = None"
  by (simp_all add: NewManagedClient_def slot_ok_def Let_def)

section \<open>Properties\<close>

text \<open>
  C21. The goroutine that manages a client, through any sequence of failed and successful connection
  attempts, pings, closed connections and calls of \<open>Stop\<close>: it never panics, exactly one of the client
  and the wait channel is set, and a client is set exactly while that client is being watched. So
  nobody gets a client that has been given up, and no wait channel is closed twice.
\<close>

theorem managed_client_manage:
  "case ManagedClient_manage pc as evs (NewManagedClient cfg) w of
     (st, m, w') \<Rightarrow> slot_ok (mc_client m) (mc_waitc m) (mc_next m) (mc_closed m) \<and>
       (case st of
          MgWatching c \<Rightarrow> mc_client m = Some c \<and> c < length (wd_clients w')
        | MgPanic p \<Rightarrow> False
        | _ \<Rightarrow> mc_client m = None)"
proof -
  obtain s1 m1 w1 where mk: "make_client pc as True (NewManagedClient cfg) w = (s1, m1, w1)" by (metis prod_cases3)
  note inv = make_client_inv [OF NewManagedClient_inv mk]
  obtain st m w' where r: "ManagedClient_manage pc as evs (NewManagedClient cfg) w = (st, m, w')" by (metis prod_cases3)
  have "manage_inv st m w'"
  proof (cases s1)
    case (MgWatching c)
    with r mk have "manage_loop pc evs c m1 w1 = (st, m, w')" by (simp add: ManagedClient_manage_def)
    with manage_loop_inv inv MgWatching show ?thesis by blast
  qed (use r mk inv in \<open>simp_all add: ManagedClient_manage_def\<close>)
  with r show ?thesis by (simp add: manage_inv_def)
qed

text \<open>
  C22. No wake-up is lost: a goroutine that waits in \<open>Get\<close> on the channel it saw while there was no
  client is woken by the next client that is set, whatever is set and unset in between and after;
  until then the channel is still the current one.
\<close>

theorem managed_client_no_lost_wakeup:
  assumes "slot_run ManagedClient_set ManagedClient_unset ops (NewManagedClient cfg) = (None, m)"
    and "mc_client m = None" "mc_waitc m = Some ch"
    and "slot_run ManagedClient_set ManagedClient_unset ops' m = (None, m')"
  shows "ch \<in> set (mc_closed m') \<or>
    (mc_client m' = None \<and> mc_waitc m' = Some ch \<and> (\<forall>c. SlotSet c \<notin> set ops'))"
proof -
  have "slot_ok (mc_client m) (mc_waitc m) (mc_next m) (mc_closed m)"
    using client_slot.run_inv [OF NewManagedClient_inv(1), of ops cfg] assms(1) by auto
  from client_slot.no_lost_wakeup [OF this assms(2-4)] show ?thesis .
qed


definition demo_cfg :: ClientConfig where
  "demo_cfg = \<lparr>cfg_Addr = ''pulsar://b'', cfg_phyAddr = '''', cfg_DialTimeout = 0, cfg_TLSConfig = None, cfg_Errs = None,
     cfg_PingFrequency = 0, cfg_PingTimeout = 0, cfg_ConnectTimeout = 0, cfg_InitialReconnectDelay = second,
     cfg_MaxReconnectDelay = 3 * second, cfg_AuthMethod = '''', cfg_AuthData = None\<rparr>"

theorem managed_client_no_lost_wakeup_witness:
  "0 \<in> set (mc_closed (snd (slot_run ManagedClient_set ManagedClient_unset [SlotSet 4, SlotUnset] (NewManagedClient demo_cfg))))"
proof -
  let ?m = "NewManagedClient demo_cfg" and ?ops = "[SlotSet 4, SlotUnset]"
  have "slot_run ManagedClient_set ManagedClient_unset ?ops ?m =
      (None, snd (slot_run ManagedClient_set ManagedClient_unset ?ops ?m))"
    by (simp add: ManagedClient_set_def NewManagedClient_def close_chan_def Let_def)
  from managed_client_no_lost_wakeup [OF slot_run.simps(1) _ _ this, where ch = 0] show ?thesis
    by (simp add: NewManagedClient_def Let_def)
qed

text \<open>
  C34. The delays of the reconnect loop, for any configuration with a positive initial delay (which
  \<open>setDefaults\<close> sees to) and any attempts: they start at the configured initial delay, or, when the
  first attempt is made at once (\<open>initial\<close>), at twice that, and double up to the configured maximum.
  The maximum limits the doubling only: a configured initial delay above it is used as it is, for
  every attempt.
\<close>

theorem reconnect_delays:
  assumes "0 < cfg_InitialReconnectDelay (mc_cfg m)"
    and "cfg_MaxReconnectDelay (mc_cfg m) < 2 ^ 62"
    and "ManagedClient_reconnect pc as initial m w = (r, ds, m', w')"
  shows "ds = map (\<lambda>i. max (cfg_InitialReconnectDelay (mc_cfg m)) (min (cfg_MaxReconnectDelay (mc_cfg m))
      (2 ^ (i + (if initial then 1 else 0)) * cfg_InitialReconnectDelay (mc_cfg m)))) [0..<length ds]"
  using reconnect_loop_delays [OF assms(3) [unfolded ManagedClient_reconnect_def]]
  unfolding backoff_pow_max [OF assms(1,2)] .

text \<open>A network that refuses every connection.\<close>

definition demo_attempt :: attempt where
  "demo_attempt = \<lparr>at_dialer = \<lparr>dial_tcp = (\<lambda>_ _. Inl (ErrNet ''refused'')), dial_tls = (\<lambda>_ _ _. Inl (ErrNet ''refused''))\<rparr>,
     at_env = (\<lambda>c. (c, ConnectCtx DeadlineExceeded)), at_Stop = False, at_timer = False\<rparr>"

definition demo_world :: world where
  "demo_world = \<lparr>wd_clients = [], wd_queues = []\<rparr>"

abbreviation demo_reconnect :: "nat reconnected \<times> int list \<times> ManagedClient \<times> world" where
  "demo_reconnect \<equiv> ManagedClient_reconnect demo_proto (replicate 4 demo_attempt) True (NewManagedClient demo_cfg) demo_world"

lemma demo_newClient:
  "ManagedClient_newClient pc demo_attempt (NewManagedClient demo_cfg) w = (Inl (ErrNet ''refused''), w)"
  "mc_asyncErrs (NewManagedClient demo_cfg) = None" "\<not> mc_donec (NewManagedClient demo_cfg)"
  "cfg_InitialReconnectDelay (mc_cfg (NewManagedClient demo_cfg)) = second"
  "cfg_MaxReconnectDelay (mc_cfg (NewManagedClient demo_cfg)) = 3 * second"
  by (simp_all add: ManagedClient_newClient_def NewClient_def demo_attempt_def NewManagedClient_def demo_cfg_def
      ClientConfig_setDefaults_def ClientConfig_SetDefaults_def NewTCPConn_def Let_def second_def)

lemma demo_async_err: "ManagedClient_async_err e (NewManagedClient demo_cfg) = NewManagedClient demo_cfg"
  using demo_newClient(2) by (cases "NewManagedClient demo_cfg") (simp add: ManagedClient_async_err_def)

theorem reconnect_delays_witness:
  "fst (snd demo_reconnect) = [2 * second, 3 * second, 3 * second]"
proof -
  have "length (fst (snd demo_reconnect)) = 3"
    using demo_newClient demo_async_err
    by (simp add: ManagedClient_reconnect_def demo_attempt_def numeral_eq_Suc Let_def)
  then show ?thesis
    using reconnect_delays [of "NewManagedClient demo_cfg" demo_proto "replicate 4 demo_attempt" True demo_world
        "fst demo_reconnect" "fst (snd demo_reconnect)" "fst (snd (snd demo_reconnect))" "snd (snd (snd demo_reconnect))"]
    unfolding demo_newClient(4,5) by (simp add: second_def eval_nat_numeral)
qed

text \<open>
  \<open>reconnect\<close> gives up exactly for \<open>Stop\<close>: it returns nil only if \<open>Stop\<close> was called before it or
  during it; once \<open>Stop\<close> has been called it returns nil at its next select, without connecting,
  unless its timer fires first; and if it returns a client, that client is a new one.
\<close>

theorem reconnect_stopped:
  assumes "mc_isDone m = mc_donec m" "ManagedClient_reconnect pc as initial m w = (r, ds, m', w')"
  shows "(r = Stopped \<longrightarrow> mc_donec m \<or> list_ex at_Stop as) \<and>
    (mc_donec m \<or> (as \<noteq> [] \<and> at_Stop (hd as)) \<longrightarrow> as \<noteq> [] \<longrightarrow> initial \<or> \<not> at_timer (hd as) \<longrightarrow>
       r = Stopped \<and> w' = w) \<and>
    (\<forall>c. r = Reconnected c \<longrightarrow> length (wd_clients w) \<le> c \<and> c < length (wd_clients w'))"
proof -
  have rl: "reconnect_loop pc as initial (cfg_InitialReconnectDelay (mc_cfg m)) m w = (r, ds, m', w')"
    using assms(2) by (simp add: ManagedClient_reconnect_def)
  have "r = Stopped \<and> w' = w"
    if "mc_donec m \<or> at_Stop (hd as)" "as \<noteq> []" "initial \<or> \<not> at_timer (hd as)"
    using that rl ManagedClient_Stop_ok [OF assms(1)] by (cases as) (auto simp: Let_def split: if_splits)
  with reconnect_loop_result [OF rl assms(1)] show ?thesis by blast
qed

theorem reconnect_stopped_witness:
  "fst (ManagedClient_reconnect demo_proto [demo_attempt, demo_attempt\<lparr>at_Stop := True\<rparr>] False
     (snd (ManagedClient_Stop (NewManagedClient demo_cfg))) demo_world) = Stopped"
proof -
  let ?m = "snd (ManagedClient_Stop (NewManagedClient demo_cfg))"
  let ?r = "ManagedClient_reconnect demo_proto [demo_attempt, demo_attempt\<lparr>at_Stop := True\<rparr>] False ?m demo_world"
  have "mc_isDone ?m = mc_donec ?m \<and> mc_donec ?m" using ManagedClient_Stop_ok NewManagedClient_inv(2) by simp
  then show ?thesis
    using reconnect_stopped [of ?m demo_proto "[demo_attempt, demo_attempt\<lparr>at_Stop := True\<rparr>]" False demo_world
        "fst ?r" "fst (snd ?r)" "fst (snd (snd ?r))" "snd (snd (snd ?r))"]
    by (simp add: demo_attempt_def)
qed

end
