(* ===== verification/ClientPool.thy ===== *)
theory ClientPool
  imports ManagedClient
begin

text \<open>
  The client pool of \<^verbatim>\<open>core/manage/managed_client_pool.go\<close>: a map from the attributes of a
  configuration to managed clients, and topic lookup, which follows redirections from broker to
  broker. The managed clients that have been created are in \<open>wp_managed\<close> and are referred to by their
  position; \<open>wp_removers\<close> are the goroutines that wait for one of them to be stopped.
\<close>

section \<open>State\<close>

record clientPoolKey =
  key_logicalAddr :: string
  key_phyAddr :: string
  key_dialTimeout :: int
  key_tls :: bool
  key_pingFrequency :: int
  key_pingTimeout :: int
  key_connectTimeout :: int
  key_initialReconnectDelay :: int
  key_maxReconnectDelay :: int

record ClientPool = world +
  wp_managed :: "ManagedClient list"
  wp_pool :: "clientPoolKey \<rightharpoonup> nat"
  wp_removers :: "(clientPoolKey \<times> nat) list"

definition NewClientPool :: ClientPool where
  "NewClientPool = \<lparr>wd_clients = [], wd_queues = [], wp_managed = [], wp_pool = Map.empty, wp_removers = []\<rparr>"

text \<open>The key \<open>Get\<close> makes of a configuration; it leaves the physical address blank.\<close>

definition ClientPool_key :: "ClientConfig \<Rightarrow> clientPoolKey" where
  "ClientPool_key cfg =
     \<lparr>key_logicalAddr = TrimPrefix (cfg_Addr cfg) ''pulsar://'', key_phyAddr = '''',
      key_dialTimeout = cfg_DialTimeout cfg, key_tls = (cfg_TLSConfig cfg \<noteq> None),
      key_pingFrequency = cfg_PingFrequency cfg, key_pingTimeout = cfg_PingTimeout cfg,
      key_connectTimeout = cfg_ConnectTimeout cfg, key_initialReconnectDelay = cfg_InitialReconnectDelay cfg,
      key_maxReconnectDelay = cfg_MaxReconnectDelay cfg\<rparr>"

section \<open>Get\<close>

text \<open>
  The map is first read under the read lock; \<open>between\<close> is what others do before the write lock is
  taken and the map is read again.
\<close>

definition ClientPool_Get :: "(ClientPool \<Rightarrow> ClientPool) \<Rightarrow> ClientConfig \<Rightarrow> ClientPool \<Rightarrow> nat \<times> ClientPool" where
  "ClientPool_Get between cfg w =
     (let key = ClientPool_key cfg in
      case wp_pool w key of
        Some mc \<Rightarrow> (mc, w)
      | None \<Rightarrow>
          (let w1 = between w in
           case wp_pool w1 key of
             Some mc \<Rightarrow> (mc, w1)
           | None \<Rightarrow>
               (let mc = length (wp_managed w1) in
                (mc, w1\<lparr>wp_managed := wp_managed w1 @ [NewManagedClient cfg],
                         wp_pool := (wp_pool w1)(key \<mapsto> mc), wp_removers := (key, mc) # wp_removers w1\<rparr>))))"

text \<open>The goroutine that removes a managed client once it is stopped.\<close>

definition ClientPool_remove :: "clientPoolKey \<Rightarrow> nat \<Rightarrow> ClientPool \<Rightarrow> ClientPool" where
  "ClientPool_remove key mc w =
     (if (key, mc) \<in> set (wp_removers w) \<and> ManagedClient_Done (wp_managed w ! mc)
      then w\<lparr>wp_pool := (wp_pool w)(key := None), wp_removers := removeAll (key, mc) (wp_removers w)\<rparr>
      else w)"

section \<open>Using a client\<close>

text \<open>
  An operation of a client runs on that client and on the message channels, which the client sees as
  its own while it runs.
\<close>

definition with_client ::
    "nat \<Rightarrow> (Conn Client \<Rightarrow> 'r \<times> Conn Client) \<Rightarrow> 'z world_scheme \<Rightarrow> 'r \<times> 'z world_scheme" where
  "with_client c f w =
     (case f ((wd_clients w ! c)\<lparr>st_Queues := wd_queues w\<rparr>) of
        (r, cl) \<Rightarrow> (r, w\<lparr>wd_clients := (wd_clients w)[c := cl], wd_queues := st_Queues cl\<rparr>))"

text \<open>\<open>ManagedClient.Get\<close> of the managed client \<open>mc\<close>, in the pool it lives in.\<close>

definition pool_client ::
    "nat \<Rightarrow> (ClientPool \<Rightarrow> ClientPool \<times> acq_wake) list \<Rightarrow> ClientPool \<Rightarrow> (go_error + nat) option \<times> ClientPool" where
  "pool_client mc envs w = acquire (\<lambda>w. mc_client (wp_managed w ! mc)) envs w"

section \<open>Topic lookup\<close>

definition maxTopicLookupRedirects :: nat where
  "maxTopicLookupRedirects = 8"

text \<open>What the others do during one round of the lookup loop.\<close>

record lookup_round =
  lk_between :: "ClientPool \<Rightarrow> ClientPool"
  lk_get :: "(ClientPool \<Rightarrow> ClientPool \<times> acq_wake) list"
  lk_env :: "Conn Client \<Rightarrow> Conn Client \<times> wake"

text \<open>Get the client for the configuration and ask it; \<open>None\<close> while no client is available.\<close>

definition lookup_once ::
    "proto \<Rightarrow> lookup_round \<Rightarrow> ClientConfig \<Rightarrow> string \<Rightarrow> bool \<Rightarrow> ClientPool \<Rightarrow>
     (go_error + CommandLookupTopicResponse option) option \<times> ClientPool" where
  "lookup_once pc rd cfg topic authoritative w =
     (case ClientPool_Get (lk_between rd) cfg w of
        (mc, w1) \<Rightarrow>
          (case pool_client mc (lk_get rd) w1 of
             (None, w2) \<Rightarrow> (None, w2)
           | (Some (Inl err), w2) \<Rightarrow> (Some (Inl err), w2)
           | (Some (Inr c), w2) \<Rightarrow>
               (case with_client c (Client_LookupTopic (conn_sender pc) (lk_env rd) topic authoritative) w2 of
                  (r, w3) \<Rightarrow> (Some r, w3))))"

definition broker_url :: "ClientConfig \<Rightarrow> CommandLookupTopicResponse option \<Rightarrow> string" where
  "broker_url cfg lookupResp =
     (if cfg_TLSConfig cfg \<noteq> None then CommandLookupTopicResponse_GetBrokerServiceUrlTls lookupResp
      else CommandLookupTopicResponse_GetBrokerServiceUrl lookupResp)"

text \<open>
  The loop, with the number of rounds that are left. The result also lists the lookups made: the
  address asked, the flag sent and the outcome.
\<close>

type_synonym lookup_trace = "(string \<times> bool \<times> (go_error + CommandLookupTopicResponse option)) list"

fun ForTopic_loop ::
    "proto \<Rightarrow> (nat \<Rightarrow> lookup_round) \<Rightarrow> string \<Rightarrow> string \<Rightarrow> nat \<Rightarrow> bool \<Rightarrow> ClientConfig \<Rightarrow> ClientPool \<Rightarrow>
     (go_error + nat) option \<times> lookup_trace \<times> ClientPool" where
  "ForTopic_loop pc rds serviceAddr topic 0 authoritative cfg w =
     (Some (Inl (ErrMaxRedirects maxTopicLookupRedirects topic)), [], w)"
| "ForTopic_loop pc rds serviceAddr topic (Suc left) authoritative cfg w =
     (let rd = rds left in
      case lookup_once pc rd cfg topic authoritative w of
        (None, w1) \<Rightarrow> (None, [], w1)
      | (Some (Inl err), w1) \<Rightarrow> (Some (Inl err), [(cfg_Addr cfg, authoritative, Inl err)], w1)
      | (Some (Inr lookupResp), w1) \<Rightarrow>
          (let here = (cfg_Addr cfg, authoritative, Inr lookupResp);
               lookupType = CommandLookupTopicResponse_GetResponse lookupResp;
               authoritative1 = CommandLookupTopicResponse_GetAuthoritative lookupResp
           in if lookupType = CommandLookupTopicResponse_Failed
              then (Some (Inl (ErrLookup (CommandLookupTopicResponse_GetError lookupResp)
                      (CommandLookupTopicResponse_GetMessage lookupResp))), [here], w1)
              else
                (let cfg1 = cfg\<lparr>cfg_Addr := broker_url cfg lookupResp\<rparr> in
                 if lookupType = CommandLookupTopicResponse_Connect
                 then
                   (let cfg2 = (if CommandLookupTopicResponse_GetProxyThroughServiceUrl lookupResp
                                then cfg1\<lparr>cfg_phyAddr := serviceAddr\<rparr> else cfg1)
                    in case ClientPool_Get (lk_between rd) cfg2 w1 of (mc, w2) \<Rightarrow> (Some (Inr mc), [here], w2))
                 else
                   (case ForTopic_loop pc rds serviceAddr topic left authoritative1 cfg1 w1 of
                      (r, tr, w2) \<Rightarrow> (r, here # tr, w2)))))"

definition ClientPool_ForTopic ::
    "proto \<Rightarrow> (nat \<Rightarrow> lookup_round) \<Rightarrow> ClientConfig \<Rightarrow> string \<Rightarrow> ClientPool \<Rightarrow>
     (go_error + nat) option \<times> lookup_trace \<times> ClientPool" where
  "ClientPool_ForTopic pc rds cfg topic w =
     ForTopic_loop pc rds (cfg_Addr cfg) topic maxTopicLookupRedirects False cfg w"

definition ClientPool_Partitions ::
    "proto \<Rightarrow> lookup_round \<Rightarrow> ClientConfig \<Rightarrow> string \<Rightarrow> ClientPool \<Rightarrow>
     (go_error + CommandPartitionedTopicMetadataResponse option) option \<times> ClientPool" where
  "ClientPool_Partitions pc rd cfg topic w =
     (case ClientPool_Get (lk_between rd) cfg w of
        (mc, w1) \<Rightarrow>
          (case pool_client mc (lk_get rd) w1 of
             (None, w2) \<Rightarrow> (None, w2)
           | (Some (Inl err), w2) \<Rightarrow> (Some (Inl err), w2)
           | (Some (Inr c), w2) \<Rightarrow>
               (case with_client c (Discoverer_PartitionedMetadata (conn_sender pc) (lk_env rd) topic) w2 of
                  (r, w3) \<Rightarrow> (Some r, w3))))"

section \<open>The pool\<close>

text \<open>
  Every entry of the map is a managed client made for a configuration with that key, and the goroutine
  that will remove it is waiting; no two of these goroutines wait for the same managed client.
\<close>

definition pool_inv :: "ClientPool \<Rightarrow> bool" where
  "pool_inv w \<longleftrightarrow>
     (\<forall>k mc. wp_pool w k = Some mc \<longrightarrow> (k, mc) \<in> set (wp_removers w)) \<and>
     (\<forall>(k, mc) \<in> set (wp_removers w). wp_pool w k = Some mc \<and> mc < length (wp_managed w) \<and>
        (\<exists>cfg. ClientPool_key cfg = k \<and> mc_cfg (wp_managed w ! mc) = ClientConfig_setDefaults cfg)) \<and>
     distinct (map snd (wp_removers w))"

lemma pool_inv_new: "pool_inv NewClientPool"
  by (simp add: pool_inv_def NewClientPool_def)

lemma NewManagedClient_cfg: "mc_cfg (NewManagedClient cfg) = ClientConfig_setDefaults cfg"
  by (simp add: NewManagedClient_def Let_def)

lemma pool_inv_remover:
  assumes "pool_inv w" "(k, mc) \<in> set (wp_removers w)"
  shows "wp_pool w k = Some mc" "mc < length (wp_managed w)"
    "\<exists>cfg. ClientPool_key cfg = k \<and> mc_cfg (wp_managed w ! mc) = ClientConfig_setDefaults cfg"
  using assms by (auto simp: pool_inv_def)

lemma pool_inv_entry: "pool_inv w \<Longrightarrow> wp_pool w k = Some mc \<Longrightarrow> (k, mc) \<in> set (wp_removers w)"
  by (simp add: pool_inv_def)

lemma pool_inv_distinct: "pool_inv w \<Longrightarrow> distinct (map snd (wp_removers w))"
  by (simp add: pool_inv_def)

lemma pool_invI:
  assumes "\<And>k mc. wp_pool w k = Some mc \<Longrightarrow> (k, mc) \<in> set (wp_removers w)"
    and "\<And>k mc. (k, mc) \<in> set (wp_removers w) \<Longrightarrow> wp_pool w k = Some mc"
    and "\<And>k mc. (k, mc) \<in> set (wp_removers w) \<Longrightarrow> mc < length (wp_managed w)"
    and "\<And>k mc. (k, mc) \<in> set (wp_removers w) \<Longrightarrow>
      \<exists>cfg. ClientPool_key cfg = k \<and> mc_cfg (wp_managed w ! mc) = ClientConfig_setDefaults cfg"
    and "distinct (map snd (wp_removers w))"
  shows "pool_inv w"
  unfolding pool_inv_def using assms by blast

lemma pool_inv_insert:
  assumes inv: "pool_inv w" and new: "wp_pool w (ClientPool_key cfg) = None"
  shows "pool_inv (w\<lparr>wp_managed := wp_managed w @ [NewManagedClient cfg],
    wp_pool := (wp_pool w)(ClientPool_key cfg \<mapsto> length (wp_managed w)),
    wp_removers := (ClientPool_key cfg, length (wp_managed w)) # wp_removers w\<rparr>)" (is "pool_inv ?w")
proof (rule pool_invI)
  fix k mc
  show "wp_pool ?w k = Some mc \<Longrightarrow> (k, mc) \<in> set (wp_removers ?w)"
    using pool_inv_entry [OF inv, of k mc] by (simp split: if_splits)
  assume "(k, mc) \<in> set (wp_removers ?w)"
  then consider (fresh) "k = ClientPool_key cfg" "mc = length (wp_managed w)" | (old) "(k, mc) \<in> set (wp_removers w)"
    by auto
  note both = this
  show "wp_pool ?w k = Some mc"
    using both by cases (use pool_inv_remover(1) [OF inv, of k mc] new in auto)
  show "mc < length (wp_managed ?w)"
    using both by cases (use pool_inv_remover(2) [OF inv, of k mc] in auto)
  show "\<exists>c. ClientPool_key c = k \<and> mc_cfg (wp_managed ?w ! mc) = ClientConfig_setDefaults c"
    using both
  proof cases
    case fresh
    then show ?thesis using NewManagedClient_cfg [of cfg] by (intro exI [of _ cfg]) simp
  next
    case old
    then show ?thesis using pool_inv_remover(2,3) [OF inv old] by (simp add: nth_append)
  qed
next
  have "length (wp_managed w) \<notin> set (map snd (wp_removers w))"
    using pool_inv_remover(2) [OF inv] by force
  then show "distinct (map snd (wp_removers ?w))" using pool_inv_distinct [OF inv] by simp
qed

lemma ClientPool_Get_cases:
  assumes "ClientPool_Get between cfg w = (mc, w')"
  obtains (cached) "wp_pool w (ClientPool_key cfg) = Some mc" "w' = w"
  | (raced) "wp_pool w (ClientPool_key cfg) = None" "wp_pool (between w) (ClientPool_key cfg) = Some mc" "w' = between w"
  | (made) "wp_pool w (ClientPool_key cfg) = None" "wp_pool (between w) (ClientPool_key cfg) = None"
      "mc = length (wp_managed (between w))"
      "w' = (between w)\<lparr>wp_managed := wp_managed (between w) @ [NewManagedClient cfg],
        wp_pool := (wp_pool (between w))(ClientPool_key cfg \<mapsto> mc),
        wp_removers := (ClientPool_key cfg, mc) # wp_removers (between w)\<rparr>"
  using assms unfolding ClientPool_Get_def Let_def by (auto split: option.splits)

lemma pool_inv_Get:
  assumes "pool_inv w" "pool_inv (between w)" "ClientPool_Get between cfg w = (mc, w')"
  shows "pool_inv w'"
  using assms(3)
proof (cases rule: ClientPool_Get_cases)
  case made
  with pool_inv_insert [OF assms(2), of cfg] show ?thesis by simp
qed (use assms(1,2) in simp_all)

lemma ClientPool_Get_entry:
  assumes "ClientPool_Get between cfg w = (mc, w')"
  shows "wp_pool w' (ClientPool_key cfg) = Some mc"
  using assms by (cases rule: ClientPool_Get_cases) simp_all

lemma pool_inv_remove:
  assumes inv: "pool_inv w"
  shows "pool_inv (ClientPool_remove key mc w)"
proof (cases "(key, mc) \<in> set (wp_removers w) \<and> ManagedClient_Done (wp_managed w ! mc)")
  case True
  let ?w = "ClientPool_remove key mc w"
  have eq: "wp_pool ?w = (wp_pool w)(key := None)" "wp_removers ?w = removeAll (key, mc) (wp_removers w)"
    "wp_managed ?w = wp_managed w"
    using True by (simp_all add: ClientPool_remove_def)
  have here: "wp_pool w key = Some mc" using True pool_inv_remover(1) [OF inv] by simp
  show ?thesis
  proof (rule pool_invI)
    fix k m
    show "wp_pool ?w k = Some m \<Longrightarrow> (k, m) \<in> set (wp_removers ?w)"
      using pool_inv_entry [OF inv, of k m] by (simp add: eq split: if_splits)
    assume "(k, m) \<in> set (wp_removers ?w)"
    then have old: "(k, m) \<in> set (wp_removers w)" and ne: "(k, m) \<noteq> (key, mc)" by (simp_all add: eq)
    from pool_inv_remover [OF inv old] here ne show "wp_pool ?w k = Some m" "m < length (wp_managed ?w)"
      "\<exists>cfg. ClientPool_key cfg = k \<and> mc_cfg (wp_managed ?w ! m) = ClientConfig_setDefaults cfg"
      by (auto simp: eq)
  next
    show "distinct (map snd (wp_removers ?w))"
      using pool_inv_distinct [OF inv] by (simp add: eq distinct_map removeAll_filter_not_eq inj_on_def)
  qed
next
  case False
  then show ?thesis using inv by (simp only: ClientPool_remove_def if_False)
qed

section \<open>Runs of the pool\<close>

text \<open>
  The pool is shared. A run is any interleaving of calls of \<open>Get\<close>, of removals, of steps of the managed
  clients, which keep their configuration and never reopen \<open>donec\<close>, and of steps of the clients.
\<close>

inductive pool_run :: "ClientPool \<Rightarrow> ClientPool \<Rightarrow> bool" where
  pr_refl: "pool_run w w"
| pr_get: "pool_run w v \<Longrightarrow> pool_run v (between v) \<Longrightarrow> ClientPool_Get between cfg v = (mc, v') \<Longrightarrow> pool_run w v'"
| pr_remove: "pool_run w v \<Longrightarrow> pool_run w (ClientPool_remove key mc v)"
| pr_managed: "pool_run w v \<Longrightarrow> mc < length (wp_managed v) \<Longrightarrow> mc_cfg m = mc_cfg (wp_managed v ! mc) \<Longrightarrow>
    (mc_donec (wp_managed v ! mc) \<longrightarrow> mc_donec m) \<Longrightarrow> pool_run w (v\<lparr>wp_managed := (wp_managed v)[mc := m]\<rparr>)"
| pr_world: "pool_run w v \<Longrightarrow> pool_run w (v\<lparr>wd_clients := cs, wd_queues := qs\<rparr>)"

lemma pool_inv_managed:
  assumes "pool_inv w" "mc < length (wp_managed w)" "mc_cfg m = mc_cfg (wp_managed w ! mc)"
  shows "pool_inv (w\<lparr>wp_managed := (wp_managed w)[mc := m]\<rparr>)"
proof (rule pool_invI)
  fix k n
  assume "(k, n) \<in> set (wp_removers (w\<lparr>wp_managed := (wp_managed w)[mc := m]\<rparr>))"
  then have "(k, n) \<in> set (wp_removers w)" by simp
  from pool_inv_remover [OF assms(1) this] assms(2,3)
  show "wp_pool (w\<lparr>wp_managed := (wp_managed w)[mc := m]\<rparr>) k = Some n"
    "n < length (wp_managed (w\<lparr>wp_managed := (wp_managed w)[mc := m]\<rparr>))"
    "\<exists>cfg. ClientPool_key cfg = k \<and>
      mc_cfg (wp_managed (w\<lparr>wp_managed := (wp_managed w)[mc := m]\<rparr>) ! n) = ClientConfig_setDefaults cfg"
    by (simp_all add: nth_list_update)
qed (use assms(1) pool_inv_entry pool_inv_distinct in simp_all)

lemma pool_inv_world: "pool_inv (w\<lparr>wd_clients := cs, wd_queues := qs\<rparr>) = pool_inv w"
  by (simp add: pool_inv_def)

text \<open>
  What a run keeps: the invariant, the managed clients with their configurations, and the entry of
  every managed client that is not stopped.
\<close>

definition pool_kept :: "ClientPool \<Rightarrow> ClientPool \<Rightarrow> bool" where
  "pool_kept w w' \<longleftrightarrow> length (wp_managed w) \<le> length (wp_managed w') \<and>
     (\<forall>mc < length (wp_managed w). mc_cfg (wp_managed w' ! mc) = mc_cfg (wp_managed w ! mc) \<and>
        (ManagedClient_Done (wp_managed w ! mc) \<longrightarrow> ManagedClient_Done (wp_managed w' ! mc))) \<and>
     (\<forall>k mc. wp_pool w k = Some mc \<longrightarrow> \<not> ManagedClient_Done (wp_managed w' ! mc) \<longrightarrow> wp_pool w' k = Some mc)"

lemma pool_kept_entry:
  "pool_kept w w' \<Longrightarrow> wp_pool w k = Some mc \<Longrightarrow> \<not> ManagedClient_Done (wp_managed w' ! mc) \<Longrightarrow> wp_pool w' k = Some mc"
  by (simp add: pool_kept_def)

lemma pool_kept_refl: "pool_kept w w"
  by (simp add: pool_kept_def)

lemma pool_kept_trans:
  assumes "pool_inv u" "pool_kept u v" "pool_kept v w"
  shows "pool_kept u w"
proof -
  have len: "length (wp_managed u) \<le> length (wp_managed v)" "length (wp_managed v) \<le> length (wp_managed w)"
    using assms(2,3) by (simp_all add: pool_kept_def)
  have "wp_pool w k = Some mc" if "wp_pool u k = Some mc" "\<not> ManagedClient_Done (wp_managed w ! mc)" for k mc
  proof -
    have "mc < length (wp_managed u)" using pool_inv_remover(2) pool_inv_entry assms(1) that(1) by blast
    with len assms(2,3) that show ?thesis unfolding pool_kept_def by (meson less_le_trans)
  qed
  moreover have "mc_cfg (wp_managed w ! mc) = mc_cfg (wp_managed u ! mc) \<and>
      (ManagedClient_Done (wp_managed u ! mc) \<longrightarrow> ManagedClient_Done (wp_managed w ! mc))"
    if "mc < length (wp_managed u)" for mc
    using that len assms(2,3) unfolding pool_kept_def by (metis less_le_trans)
  ultimately show ?thesis using len unfolding pool_kept_def by auto
qed

lemma pool_kept_insert:
  assumes "pool_inv w" "wp_pool w key = None"
  shows "pool_kept w (w\<lparr>wp_managed := wp_managed w @ [m], wp_pool := (wp_pool w)(key \<mapsto> mc), wp_removers := rs\<rparr>)"
proof -
  have "n < length (wp_managed w)" if "wp_pool w k = Some n" for k n
    using pool_inv_remover(2) [OF assms(1)] pool_inv_entry [OF assms(1) that] by blast
  with assms(2) show ?thesis by (auto simp: pool_kept_def nth_append)
qed

lemma pool_kept_Get:
  assumes "pool_inv w" "pool_inv (between w)" "pool_kept w (between w)" "ClientPool_Get between cfg w = (mc, w')"
  shows "pool_kept w w'"
  using assms(4)
proof (cases rule: ClientPool_Get_cases)
  case made
  from pool_kept_trans [OF assms(1,3) pool_kept_insert [OF assms(2) made(2)]] made(4) show ?thesis by simp
qed (use assms(3) pool_kept_refl in simp_all)

lemma pool_kept_remove:
  assumes "pool_inv w"
  shows "pool_kept w (ClientPool_remove key mc w)"
proof (cases "(key, mc) \<in> set (wp_removers w) \<and> ManagedClient_Done (wp_managed w ! mc)")
  case True
  then have "wp_pool w key = Some mc" using pool_inv_remover(1) [OF assms] by simp
  with True show ?thesis by (auto simp: pool_kept_def ClientPool_remove_def)
next
  case False
  then show ?thesis by (simp only: ClientPool_remove_def if_False pool_kept_refl)
qed

lemma pool_kept_managed:
  assumes "mc < length (wp_managed v)" "mc_cfg m = mc_cfg (wp_managed v ! mc)" "mc_donec (wp_managed v ! mc) \<longrightarrow> mc_donec m"
  shows "pool_kept v (v\<lparr>wp_managed := (wp_managed v)[mc := m]\<rparr>)"
  using assms by (auto simp: pool_kept_def ManagedClient_Done_def nth_list_update)

lemma pool_run_kept: "pool_run w w' \<Longrightarrow> pool_inv w \<Longrightarrow> pool_inv w' \<and> pool_kept w w'"
proof (induction rule: pool_run.induct)
  case (pr_get w v between cfg mc v')
  then have v: "pool_inv v" "pool_kept w v" "pool_inv (between v)" "pool_kept v (between v)" by simp_all
  from pool_inv_Get [OF v(1,3) pr_get.hyps(3)] pool_kept_trans [OF pr_get.prems v(2) pool_kept_Get [OF v(1,3,4) pr_get.hyps(3)]]
  show ?case ..
next
  case (pr_remove w v key mc)
  then have v: "pool_inv v" "pool_kept w v" by simp_all
  from pool_inv_remove [OF v(1)] pool_kept_trans [OF pr_remove.prems v(2) pool_kept_remove [OF v(1)]] show ?case ..
next
  case (pr_managed w v mc m)
  then have v: "pool_inv v" "pool_kept w v" by simp_all
  from pool_inv_managed [OF v(1) pr_managed.hyps(2,3)]
    pool_kept_trans [OF pr_managed.prems v(2) pool_kept_managed [OF pr_managed.hyps(2,3,4)]] show ?case ..
next
  case (pr_world w v cs qs)
  then have "pool_inv v" "pool_kept w v" by simp_all
  then show ?case by (auto simp: pool_inv_world pool_kept_def)
qed (simp add: pool_kept_refl)

lemma pool_run_inv: "pool_run NewClientPool w \<Longrightarrow> pool_inv w"
  using pool_run_kept pool_inv_new by blast

section \<open>Lookups\<close>

text \<open>
  What a lookup says about where the topic is, from the addresses asked. Each lookup after the first
  goes to the address of the redirection before it, with the flag that came with it.
\<close>

definition is_redirect :: "CommandLookupTopicResponse option \<Rightarrow> bool" where
  "is_redirect resp \<longleftrightarrow> CommandLookupTopicResponse_GetResponse resp \<noteq> CommandLookupTopicResponse_Failed \<and>
     CommandLookupTopicResponse_GetResponse resp \<noteq> CommandLookupTopicResponse_Connect"

fun lookup_chain :: "ClientConfig \<Rightarrow> string \<Rightarrow> bool \<Rightarrow> lookup_trace \<Rightarrow> bool" where
  "lookup_chain cfg addr authoritative [] = True"
| "lookup_chain cfg addr authoritative ((a, b, out) # tr) =
     (a = addr \<and> b = authoritative \<and>
      (tr = [] \<or> (case out of Inl _ \<Rightarrow> False
         | Inr resp \<Rightarrow> is_redirect resp \<and>
             lookup_chain cfg (broker_url cfg resp) (CommandLookupTopicResponse_GetAuthoritative resp) tr)))"

text \<open>The result that goes with the last lookup, where a round was completed.\<close>

definition lookup_verdict ::
    "ClientConfig \<Rightarrow> string \<Rightarrow> ClientPool \<Rightarrow> go_error + CommandLookupTopicResponse option \<Rightarrow> go_error + nat \<Rightarrow> bool" where
  "lookup_verdict cfg serviceAddr w' out r =
     (case out of
        Inl err \<Rightarrow> r = Inl err
      | Inr resp \<Rightarrow>
          (case CommandLookupTopicResponse_GetResponse resp of
             CommandLookupTopicResponse_Failed \<Rightarrow>
               r = Inl (ErrLookup (CommandLookupTopicResponse_GetError resp) (CommandLookupTopicResponse_GetMessage resp))
           | CommandLookupTopicResponse_Connect \<Rightarrow>
               (\<exists>mc. r = Inr mc \<and>
                  wp_pool w' (ClientPool_key (cfg\<lparr>cfg_Addr := broker_url cfg resp,
                    cfg_phyAddr := if CommandLookupTopicResponse_GetProxyThroughServiceUrl resp then serviceAddr
                                   else cfg_phyAddr cfg\<rparr>)) = Some mc)
           | _ \<Rightarrow> False))"

lemma broker_url_Addr [simp]: "broker_url (cfg\<lparr>cfg_Addr := a\<rparr>) = broker_url cfg"
  by (simp add: broker_url_def fun_eq_iff)

lemma lookup_chain_Addr [simp]: "lookup_chain (cfg\<lparr>cfg_Addr := a\<rparr>) addr b tr = lookup_chain cfg addr b tr"
  by (induction cfg addr b tr rule: lookup_chain.induct) (simp_all split: sum.split)

lemma lookup_verdict_Addr [simp]: "lookup_verdict (cfg\<lparr>cfg_Addr := a\<rparr>) s w' out r = lookup_verdict cfg s w' out r"
  by (simp add: lookup_verdict_def split: sum.split CommandLookupTopicResponse_LookupType.split)

text \<open>A client pool key does not depend on the physical address.\<close>

lemma ClientPool_key_phyAddr [simp]: "ClientPool_key (cfg\<lparr>cfg_phyAddr := a\<rparr>) = ClientPool_key cfg"
  by (simp add: ClientPool_key_def)

lemma ForTopic_loop_spec:
  assumes "ForTopic_loop pc rds serviceAddr topic n authoritative cfg w = (r, tr, w')"
  shows "length tr \<le> n \<and> lookup_chain cfg (cfg_Addr cfg) authoritative tr \<and>
    (\<forall>res. r = Some res \<longrightarrow>
       (tr \<noteq> [] \<and> lookup_verdict cfg serviceAddr w' (snd (snd (last tr))) res) \<or>
       (length tr = n \<and> (\<forall>t \<in> set tr. \<exists>resp. snd (snd t) = Inr resp \<and> is_redirect resp) \<and>
        res = Inl (ErrMaxRedirects maxTopicLookupRedirects topic)))"
  using assms
proof (induction n arbitrary: authoritative cfg w r tr)
  case 0
  then show ?case by auto
next
  case (Suc n)
  obtain out w1 where once: "lookup_once pc (rds n) cfg topic authoritative w = (out, w1)" by fastforce
  show ?case
  proof (cases out)
    case None
    with Suc.prems once show ?thesis by (auto simp: Let_def)
  next
    case (Some o1)
    show ?thesis
    proof (cases o1)
      case (Inl err)
      with Suc.prems once Some show ?thesis by (auto simp: Let_def lookup_verdict_def)
    next
      case (Inr resp)
      let ?t = "CommandLookupTopicResponse_GetResponse resp"
      consider (failed) "?t = CommandLookupTopicResponse_Failed" | (connect) "?t = CommandLookupTopicResponse_Connect"
        | (redirect) "is_redirect resp" by (auto simp: is_redirect_def)
      then show ?thesis
      proof cases
        case failed
        with Suc.prems once Some Inr show ?thesis by (auto simp: Let_def lookup_verdict_def)
      next
        case connect
        define cfg2 where "cfg2 = (if CommandLookupTopicResponse_GetProxyThroughServiceUrl resp
          then cfg\<lparr>cfg_Addr := broker_url cfg resp, cfg_phyAddr := serviceAddr\<rparr> else cfg\<lparr>cfg_Addr := broker_url cfg resp\<rparr>)"
        obtain mc w2 where get: "ClientPool_Get (lk_between (rds n)) cfg2 w1 = (mc, w2)" by fastforce
        have res: "r = Some (Inr mc)" "tr = [(cfg_Addr cfg, authoritative, Inr resp)]" "w' = w2"
          using Suc.prems once Some Inr connect get unfolding cfg2_def by (simp_all add: Let_def split: if_splits)
        have "ClientPool_key cfg2 = ClientPool_key (cfg\<lparr>cfg_Addr := broker_url cfg resp,
            cfg_phyAddr := if CommandLookupTopicResponse_GetProxyThroughServiceUrl resp then serviceAddr else cfg_phyAddr cfg\<rparr>)"
          by (simp add: cfg2_def)
        with ClientPool_Get_entry [OF get] res connect show ?thesis by (auto simp: lookup_verdict_def)
      next
        case redirect
        let ?a = "CommandLookupTopicResponse_GetAuthoritative resp" and ?cfg = "cfg\<lparr>cfg_Addr := broker_url cfg resp\<rparr>"
        obtain r1 tr1 w2 where rest: "ForTopic_loop pc rds serviceAddr topic n ?a ?cfg w1 = (r1, tr1, w2)"
          using prod_cases3 by blast
        have res: "r = r1" "tr = (cfg_Addr cfg, authoritative, Inr resp) # tr1" "w' = w2"
          using Suc.prems once Some Inr redirect rest by (auto simp: Let_def is_redirect_def)
        from Suc.IH [OF rest [folded res(3)]] res redirect show ?thesis by auto
      qed
    qed
  qed
qed

lemma lookup_once_returns:
  "wait_ends (lk_get rd) \<Longrightarrow> \<exists>r w'. lookup_once pc rd cfg topic authoritative w = (Some r, w')"
proof -
  assume ends: "wait_ends (lk_get rd)"
  obtain mc w1 where get: "ClientPool_Get (lk_between rd) cfg w = (mc, w1)" by fastforce
  obtain r w2 where "pool_client mc (lk_get rd) w1 = (Some r, w2)"
    using acquire_returns [OF ends] unfolding pool_client_def by blast
  with get show ?thesis by (cases r) (auto simp: lookup_once_def split: prod.split)
qed

lemma ForTopic_loop_returns:
  "(\<And>i. i < n \<Longrightarrow> wait_ends (lk_get (rds i))) \<Longrightarrow>
     \<exists>r tr w'. ForTopic_loop pc rds serviceAddr topic n authoritative cfg w = (Some r, tr, w')"
proof (induction n arbitrary: authoritative cfg w)
  case (Suc n)
  obtain r w1 where once: "lookup_once pc (rds n) cfg topic authoritative w = (Some r, w1)"
    using lookup_once_returns [OF Suc.prems] by blast
  show ?case
  proof (cases r)
    case (Inr resp)
    let ?a = "CommandLookupTopicResponse_GetAuthoritative resp"
    let ?cfg = "cfg\<lparr>cfg_Addr := broker_url cfg resp\<rparr>"
    obtain r1 tr1 w2 where rest: "ForTopic_loop pc rds serviceAddr topic n ?a ?cfg w1 = (Some r1, tr1, w2)"
      using Suc.IH [of ?a ?cfg w1] Suc.prems by auto
    with once Inr show ?thesis by (simp add: Let_def split: prod.split)
  qed (use once in simp)
qed simp

lemma maxTopicLookupRedirects_Suc: "maxTopicLookupRedirects = Suc 7"
  by (simp add: maxTopicLookupRedirects_def)

lemma ForTopic_loop_connect:
  assumes "lookup_once pc (rds n) cfg topic authoritative w = (Some (Inr resp), w1)"
    and "CommandLookupTopicResponse_GetResponse resp = CommandLookupTopicResponse_Connect"
  shows "\<exists>mc w2. ForTopic_loop pc rds serviceAddr topic (Suc n) authoritative cfg w =
    (Some (Inr mc), [(cfg_Addr cfg, authoritative, Inr resp)], w2)"
  using assms by (simp add: Let_def split: prod.split)

section \<open>Properties\<close>

text \<open>
  C16. The pool keeps one managed client per key: in any run from the empty pool, once \<open>Get\<close> has
  returned a managed client, every later \<open>Get\<close> for a configuration with the same key returns the same
  one, and makes nothing new, as long as it is not stopped, whatever others do between its two reads
  of the map; that client was made for a configuration with this key; and an entry for another key is
  never the same client.
\<close>

theorem pool_one_client:
  assumes "pool_run NewClientPool w" "pool_run w (between w)" "ClientPool_Get between cfg w = (mc, w1)"
    and "pool_run w1 w2" "\<not> ManagedClient_Done (wp_managed w2 ! mc)" "ClientPool_key cfg' = ClientPool_key cfg"
  shows "ClientPool_Get between' cfg' w2 = (mc, w2) \<and> mc < length (wp_managed w2) \<and>
    (\<exists>c. ClientPool_key c = ClientPool_key cfg \<and> mc_cfg (wp_managed w2 ! mc) = ClientConfig_setDefaults c) \<and>
    (\<forall>k. wp_pool w2 k = Some mc \<longrightarrow> k = ClientPool_key cfg)"
proof -
  have w: "pool_inv w" by (rule pool_run_inv [OF assms(1)])
  have w1: "pool_inv w1"
    using pool_inv_Get [OF w _ assms(3)] pool_run_kept [OF assms(2) w] by simp
  from pool_run_kept [OF assms(4) w1] have w2: "pool_inv w2" and kept: "pool_kept w1 w2" by simp_all
  have w2: "pool_inv w2" "wp_pool w2 (ClientPool_key cfg) = Some mc"
    by (fact w2, rule pool_kept_entry [OF kept ClientPool_Get_entry [OF assms(3)] assms(5)])
  note entry = pool_inv_entry [OF w2]
  have only: "k = ClientPool_key cfg" if "wp_pool w2 k = Some mc" for k
    using pool_inv_entry [OF w2(1) that] entry pool_inv_distinct [OF w2(1)] unfolding distinct_map inj_on_def by fastforce
  have "ClientPool_Get between' cfg' w2 = (mc, w2)"
    using w2(2) by (simp add: ClientPool_Get_def assms(6))
  with pool_inv_remover(2,3) [OF w2(1) entry] only show ?thesis by blast
qed

theorem pool_one_client_witness:
  "ClientPool_Get id (demo_cfg\<lparr>cfg_phyAddr := ''p''\<rparr>) (snd (ClientPool_Get id demo_cfg NewClientPool)) =
     (0, snd (ClientPool_Get id demo_cfg NewClientPool))"
proof -
  let ?w = "snd (ClientPool_Get id demo_cfg NewClientPool)"
  have "ClientPool_Get id demo_cfg NewClientPool = (0, ?w)" "\<not> ManagedClient_Done (wp_managed ?w ! 0)"
    by (simp_all add: ClientPool_Get_def NewClientPool_def Let_def NewManagedClient_def ManagedClient_Done_def)
  with pool_one_client [of NewClientPool id demo_cfg 0 ?w ?w "demo_cfg\<lparr>cfg_phyAddr := ''p''\<rparr>" id] show ?thesis
    by (simp add: pool_run.pr_refl)
qed

text \<open>
  C15. Topic lookup follows redirections, and a bounded number of them: \<open>ForTopic\<close> makes at most
  \<open>maxTopicLookupRedirects\<close> lookups; the first asks the configured address without the authoritative
  flag, and each later one asks the broker address of the redirection before it, the TLS one if TLS is
  configured, with the flag that came with it. If it returns, its result is the error of the last
  lookup, the broker's refusal, the pool's managed client for the broker of a \<open>Connect\<close> response, or,
  after that many redirections, an error.
\<close>

theorem for_topic_follows_redirects:
  assumes "ClientPool_ForTopic pc rds cfg topic w = (r, tr, w')"
  shows "length tr \<le> maxTopicLookupRedirects \<and> lookup_chain cfg (cfg_Addr cfg) False tr \<and>
    (\<forall>res. r = Some res \<longrightarrow>
       (tr \<noteq> [] \<and> lookup_verdict cfg (cfg_Addr cfg) w' (snd (snd (last tr))) res) \<or>
       (length tr = maxTopicLookupRedirects \<and> (\<forall>t \<in> set tr. \<exists>resp. snd (snd t) = Inr resp \<and> is_redirect resp) \<and>
        res = Inl (ErrMaxRedirects maxTopicLookupRedirects topic)))"
  using ForTopic_loop_spec [OF assms [unfolded ClientPool_ForTopic_def]] .

text \<open>A pool with one client, connected, whose broker answers the lookup.\<close>

definition demo_pool_cfg :: ClientConfig where
  "demo_pool_cfg = demo_cfg\<lparr>cfg_Addr := ''pulsar://a''\<rparr>"

definition demo_pool :: ClientPool where
  "demo_pool = \<lparr>wd_clients = [demo_pair_client], wd_queues = [],
     wp_managed = [(NewManagedClient demo_pool_cfg)\<lparr>mc_client := Some 0, mc_waitc := None\<rparr>],
     wp_pool = [ClientPool_key demo_pool_cfg \<mapsto> 0], wp_removers = [(ClientPool_key demo_pool_cfg, 0)]\<rparr>"

definition demo_round :: "nat \<Rightarrow> lookup_round" where
  "demo_round n = \<lparr>lk_between = id, lk_get = [],
     lk_env = client_env demo_pair_proto (conn_sender demo_pair_proto) [demo_lookup_answer] id (lookup_wake Canceled)\<rparr>"

abbreviation demo_for_topic :: "(go_error + nat) option \<times> lookup_trace \<times> ClientPool" where
  "demo_for_topic \<equiv> ClientPool_ForTopic demo_pair_proto demo_round demo_pool_cfg ''t'' demo_pool"

lemma demo_pool_lookup:
  assumes "Client_LookupTopic (conn_sender demo_pair_proto) (lk_env (demo_round n)) ''t'' False demo_pair_client = (r, cl)"
  shows "r = Inr (BaseCommand_GetLookupTopicResponse (Frame_BaseCmd demo_lookup_answer))"
proof -
  have w: "cl_spawned demo_pair_client = []" "MonotonicID_ID (ep_ReqID demo_pair_client) = 0"
    "ep_Dispatcher demo_pair_client = NewFrameDispatcher" "\<not> cl_stuck demo_pair_client"
    by (simp_all add: demo_pair_client_def new_Client_def)
  have snt: "SendSimpleCmd (conn_sender demo_pair_proto) (Discoverer_lookup_cmd 0 ''t'' False) (ep_S demo_pair_client) =
      (None, snd (SendSimpleCmd (conn_sender demo_pair_proto) (Discoverer_lookup_cmd 0 ''t'' False) (ep_S demo_pair_client)))"
    using demo_pair_encodable(1)
    by (auto simp: conn_sender_def Conn_SendSimpleCmd_def writeFrame_buf_def encodable_def demo_pair_client_def new_Client_def
        Write_def new_buffer_def split: prod.splits option.splits)
  have "r = lookup_result Canceled (find (\<lambda>f. frame_key f = Some (KReq 0)) (cl_spawned demo_pair_client @ [demo_lookup_answer]))"
    by (rule Client_LookupTopic_answer [OF dreach.init _ _ _ snt _ _ _ assms])
      (simp_all add: w dstate_init_def demo_round_def no_messages_def NewFrameDispatcher_def demo_lookup_answer_def)
  then show ?thesis by (simp add: w lookup_result_def demo_lookup_answer_def)
qed

lemma demo_lookup_once:
  "\<exists>w1. lookup_once demo_pair_proto (demo_round n) demo_pool_cfg ''t'' False demo_pool =
     (Some (Inr (BaseCommand_GetLookupTopicResponse (Frame_BaseCmd demo_lookup_answer))), w1)"
proof -
  have q: "demo_pair_client\<lparr>st_Queues := []\<rparr> = demo_pair_client"
    by (simp add: demo_pair_client_def new_Client_def)
  obtain r cl where run: "Client_LookupTopic (conn_sender demo_pair_proto) (lk_env (demo_round n)) ''t'' False demo_pair_client = (r, cl)"
    by fastforce
  with demo_pool_lookup [OF run] q show ?thesis
    by (simp add: lookup_once_def ClientPool_Get_def demo_pool_def pool_client_def acquire_obj demo_round_def with_client_def Let_def)
qed

theorem for_topic_follows_redirects_witness:
  "\<exists>mc tr w'. demo_for_topic = (Some (Inr mc), tr, w') \<and> length tr = 1 \<and>
     wp_pool w' (ClientPool_key (demo_pool_cfg\<lparr>cfg_Addr := ''pulsar://b''\<rparr>)) = Some mc"
proof -
  let ?resp = "BaseCommand_GetLookupTopicResponse (Frame_BaseCmd demo_lookup_answer)"
  obtain r tr w' where run: "demo_for_topic = (r, tr, w')" using prod_cases3 by blast
  have resp: "CommandLookupTopicResponse_GetResponse ?resp = CommandLookupTopicResponse_Connect"
    "broker_url demo_pool_cfg ?resp = ''pulsar://b''" "\<not> CommandLookupTopicResponse_GetProxyThroughServiceUrl ?resp"
    by (simp_all add: demo_lookup_answer_def Server_lookup_frame_def simple_frame_def BaseCommand_GetLookupTopicResponse_def
        CommandLookupTopicResponse_GetResponse_def CommandLookupTopicResponse_GetBrokerServiceUrl_def broker_url_def
        CommandLookupTopicResponse_GetProxyThroughServiceUrl_def demo_pool_cfg_def demo_cfg_def get_field_def)
  from demo_lookup_once obtain w1 where "lookup_once demo_pair_proto (demo_round 7) demo_pool_cfg ''t'' False demo_pool = (Some (Inr ?resp), w1)"
    by blast
  from ForTopic_loop_connect [where rds = demo_round and serviceAddr = "cfg_Addr demo_pool_cfg", OF this resp(1)] run
  have r: "\<exists>mc. r = Some (Inr mc)" "tr = [(cfg_Addr demo_pool_cfg, False, Inr ?resp)]"
    by (auto simp: ClientPool_ForTopic_def maxTopicLookupRedirects_Suc simp del: ForTopic_loop.simps)
  then obtain mc where mc: "r = Some (Inr mc)" by blast
  have "lookup_verdict demo_pool_cfg (cfg_Addr demo_pool_cfg) w' (Inr ?resp) (Inr mc)"
    using for_topic_follows_redirects [OF run] mc r(2) by simp
  then have "wp_pool w' (ClientPool_key (demo_pool_cfg\<lparr>cfg_Addr := ''pulsar://b''\<rparr>)) = Some mc"
    using resp by (simp add: lookup_verdict_def)
  with run mc r(2) show ?thesis by simp
qed

text \<open>
  \<open>ForTopic\<close> ends: if the wait for a client is bounded by the context in each of the rounds, it
  returns a managed client or an error, even when every broker redirects it to another for ever.
\<close>

theorem for_topic_returns:
  assumes "\<And>i. i < maxTopicLookupRedirects \<Longrightarrow> wait_ends (lk_get (rds i))"
  shows "\<exists>res tr w'. ClientPool_ForTopic pc rds cfg topic w = (Some res, tr, w')"
  unfolding ClientPool_ForTopic_def by (rule ForTopic_loop_returns [OF assms])

theorem for_topic_returns_witness:
  "\<exists>res tr w'. ClientPool_ForTopic demo_pair_proto
     (\<lambda>n. (demo_round n)\<lparr>lk_get := [\<lambda>w. (w, AcqReady), \<lambda>w. (w, AcqCtx Canceled)]\<rparr>) demo_pool_cfg ''t'' NewClientPool =
     (Some res, tr, w')"
  by (rule for_topic_returns) (simp add: wait_ends_def)

text \<open>The key depends neither on the physical address nor on the authentication data.\<close>

lemma pool_key_ignores_auth:
  "ClientPool_key (cfg\<lparr>cfg_phyAddr := p, cfg_AuthMethod := a, cfg_AuthData := d\<rparr>) = ClientPool_key cfg"
  by (simp add: ClientPool_key_def)

end
