(* ===== verification/ManagedProducer.thy ===== *)
theory ManagedProducer
  imports ClientPool
begin

text \<open>
  The managed producer of \<^verbatim>\<open>core/manage/managed_producer.go\<close>, and what it has in common with the
  managed consumer: a client for a topic, and the loop that retries until an object is made. A
  producer is referred to by the position of its client and its own position in that client.
\<close>

section \<open>A client for a topic\<close>

text \<open>How creating a producer or consumer goes: the lookup, the wait for the client and the exchange.\<close>

record create_attempt =
  ca_rounds :: "nat \<Rightarrow> lookup_round"
  ca_get :: "(ClientPool \<Rightarrow> ClientPool \<times> acq_wake) list"
  ca_env :: "Conn Client \<Rightarrow> Conn Client \<times> wake"

definition topic_client ::
    "proto \<Rightarrow> create_attempt \<Rightarrow> ClientConfig \<Rightarrow> string \<Rightarrow> ClientPool \<Rightarrow> (go_error + nat) option \<times> ClientPool" where
  "topic_client pc a cfg topic w =
     (case ClientPool_ForTopic pc (ca_rounds a) cfg topic w of
        (None, _, w1) \<Rightarrow> (None, w1)
      | (Some (Inl err), _, w1) \<Rightarrow> (Some (Inl err), w1)
      | (Some (Inr mc), _, w1) \<Rightarrow> pool_client mc (ca_get a) w1)"

section \<open>Retrying\<close>

text \<open>
  The loop retries with \<open>attempt_it\<close>, reports every error and waits before each attempt but a first initial
  one. Its result also lists the delays waited for; it is \<open>None\<close> when the attempts given do not
  suffice, or one of them does not return.
\<close>

fun retry_loop ::
    "('a \<Rightarrow> 's \<Rightarrow> (go_error + 'c) option \<times> 's) \<Rightarrow> (go_error \<Rightarrow> 's \<Rightarrow> 's) \<Rightarrow> int \<Rightarrow> 'a list \<Rightarrow> bool \<Rightarrow> int \<Rightarrow> 's \<Rightarrow>
     'c option \<times> int list \<times> 's" where
  "retry_loop attempt_it report maxDelay [] initial retryDelay s = (None, [], s)"
| "retry_loop attempt_it report maxDelay (a # as) initial retryDelay s =
     (let waited = (if initial then [] else [retryDelay]);
          retryDelay1 = (if initial then retryDelay else backoff maxDelay retryDelay)
      in case attempt_it a s of
           (None, s1) \<Rightarrow> (None, waited, s1)
         | (Some (Inl err), s1) \<Rightarrow>
             (case retry_loop attempt_it report maxDelay as False retryDelay1 (report err s1) of
                (r, ds, s2) \<Rightarrow> (r, waited @ ds, s2))
         | (Some (Inr c), s1) \<Rightarrow> (Some c, waited, s1))"

lemma retry_loop_delays:
  assumes "retry_loop attempt_it report maxDelay as initial d s = (r, ds, s')"
  shows "ds = map (\<lambda>i. (backoff maxDelay ^^ i) d) [0..<length ds]"
  using assms
proof (induction as arbitrary: initial d s r ds)
  case (Cons a as)
  obtain x s1 where t: "attempt_it a s = (x, s1)" by fastforce
  show ?case
  proof (cases "\<exists>err. x = Some (Inl err)")
    case True
    then obtain err where x: "x = Some (Inl err)" by blast
    obtain ds1 where rl: "retry_loop attempt_it report maxDelay as False
          (if initial then d else backoff maxDelay d) (report err s1) = (r, ds1, s')"
      and ds: "ds = (if initial then [] else [d]) @ ds1"
      using Cons.prems t x by (auto simp: Let_def split: prod.splits)
    note ds1 = Cons.IH [OF rl]
    show ?thesis
    proof (cases initial)
      case False
      from ds1 False have "ds1 = map (\<lambda>i. (backoff maxDelay ^^ Suc i) d) [0..<length ds1]"
        by (simp add: funpow_swap1)
      then show ?thesis
        unfolding ds using False by (simp add: upt_conv_Cons map_Suc_upt [symmetric] comp_def del: upt_Suc funpow.simps)
    qed (use ds ds1 in simp)
  next
    case False
    with Cons.prems t have "ds = (if initial then [] else [d])"
      by (auto simp: Let_def split: option.splits sum.splits)
    then show ?thesis by simp
  qed
qed simp

lemma retry_loop_inv:
  assumes "\<And>a s. a \<in> set as \<Longrightarrow> P s \<Longrightarrow> P (snd (attempt_it a s))" "\<And>e s. P s \<Longrightarrow> P (report e s)"
    and "P s" "retry_loop attempt_it report maxDelay as initial d s = (r, ds, s')"
  shows "P s'"
  using assms(1,3,4)
proof (induction as arbitrary: initial d s r ds)
  case (Cons a as)
  obtain x s1 where t: "attempt_it a s = (x, s1)" by fastforce
  with Cons.prems(1) [of a s] Cons.prems(2) have s1: "P s1" by simp
  show ?case
  proof (cases "\<exists>err. x = Some (Inl err)")
    case True
    then obtain err where x: "x = Some (Inl err)" by blast
    with Cons.prems(3) t obtain d1 ds1 where "retry_loop attempt_it report maxDelay as False d1 (report err s1) = (r, ds1, s')"
      by (auto simp: Let_def split: prod.splits)
    from Cons.IH [OF _ assms(2) [OF s1] this] Cons.prems(1) show ?thesis by simp
  qed (use Cons.prems(3) s1 t in \<open>auto simp: Let_def split: option.splits sum.splits\<close>)
qed simp

text \<open>
  Every attempt but the last one failed, and the object returned is what the last one made.
\<close>

lemma retry_loop_made:
  assumes "retry_loop attempt_it report maxDelay as initial d s = (Some c, ds, s')"
  shows "\<exists>a s1. a \<in> set as \<and> attempt_it a s1 = (Some (Inr c), s')"
  using assms
proof (induction as arbitrary: initial d s ds)
  case (Cons a as)
  obtain x s1 where t: "attempt_it a s = (x, s1)" by fastforce
  show ?case
  proof (cases "\<exists>err. x = Some (Inl err)")
    case True
    then obtain err where x: "x = Some (Inl err)" by blast
    with Cons.prems t obtain d1 ds1 where "retry_loop attempt_it report maxDelay as False d1 (report err s1) = (Some c, ds1, s')"
      by (auto simp: Let_def split: prod.splits)
    from Cons.IH [OF this] show ?thesis by auto
  next
    case False
    with Cons.prems t show ?thesis by (force simp: Let_def split: option.splits sum.splits)
  qed
qed simp

section \<open>An object that is made anew\<close>

text \<open>
  A goroutine keeps the slot filled: it makes an object, which does not touch the slot, and sets it;
  when it gives the object up it first unsets it.
\<close>

locale managed_slot = wait_slot obj waitc nxt closed set_obj unset
  for obj :: "'m \<Rightarrow> 'c option" and waitc :: "'m \<Rightarrow> nat option" and nxt :: "'m \<Rightarrow> nat" and closed :: "'m \<Rightarrow> nat list"
    and set_obj :: "'c \<Rightarrow> 'm \<Rightarrow> go_error option \<times> 'm" and unset :: "'m \<Rightarrow> 'm" +
  fixes make :: "'a \<Rightarrow> 'm \<times> 'w \<Rightarrow> 'c option \<times> int list \<times> 'm \<times> 'w"
  assumes make_slot: "make a (m, w) = (r, ds, m', w') \<Longrightarrow>
    obj m' = obj m \<and> waitc m' = waitc m \<and> nxt m' = nxt m \<and> closed m' = closed m"
begin

lemma make_inv: "inv m \<Longrightarrow> make a (m, w) = (r, ds, m', w') \<Longrightarrow> inv m' \<and> obj m' = obj m"
  using make_slot [of a m w r ds m' w'] by simp

lemma make_set:
  assumes "inv m" "make a (m, w) = (Some c, ds, m', w')"
  obtains m2 where "set_obj c m' = (None, m2)" "inv m2" "obj m2 = Some c"
  using set_inv [of m' c] make_inv [OF assms] by metis

end

section \<open>State\<close>

record ProducerConfig =
  pcfg_ClientConfig :: ClientConfig
  pcfg_Topic :: string
  pcfg_Name :: string
  pcfg_NewProducerTimeout :: int
  pcfg_InitialReconnectDelay :: int
  pcfg_MaxReconnectDelay :: int

definition ProducerConfig_setDefaults :: "ProducerConfig \<Rightarrow> ProducerConfig" where
  "ProducerConfig_setDefaults m =
     (let m1 = (if pcfg_NewProducerTimeout m \<le> 0 then m\<lparr>pcfg_NewProducerTimeout := 5 * second\<rparr> else m);
          m2 = (if pcfg_InitialReconnectDelay m1 \<le> 0 then m1\<lparr>pcfg_InitialReconnectDelay := 1 * second\<rparr> else m1)
      in if pcfg_MaxReconnectDelay m2 \<le> 0 then m2\<lparr>pcfg_MaxReconnectDelay := 5 * minute\<rparr> else m2)"

record ManagedProducer =
  mp_Cfg :: ProducerConfig
  mp_AsyncErrs :: AsyncErrors
  mp_Producer :: "(nat \<times> nat) option"
  mp_Waitc :: "nat option"
  mp_next :: nat
  mp_closed :: "nat list"

type_synonym mp_world = "ManagedProducer \<times> ClientPool"

definition NewManagedProducer :: "ProducerConfig \<Rightarrow> ManagedProducer" where
  "NewManagedProducer cfg0 =
     (let cfg = ProducerConfig_setDefaults cfg0 in
      \<lparr>mp_Cfg = cfg, mp_AsyncErrs = cfg_Errs (pcfg_ClientConfig cfg), mp_Producer = None,
       mp_Waitc = Some 0, mp_next = 1, mp_closed = []\<rparr>)"

section \<open>Sending\<close>

definition ManagedProducer_Send ::
    "proto \<Rightarrow> i64 \<Rightarrow> (mp_world \<Rightarrow> mp_world \<times> acq_wake) list \<Rightarrow> (Conn Client \<Rightarrow> Conn Client \<times> send_wake) \<Rightarrow> bytes \<Rightarrow>
     mp_world \<Rightarrow> (go_error + CommandSendReceipt option) option \<times> mp_world" where
  "ManagedProducer_Send pc unixTime envs env payload s =
     (case acquire (\<lambda>(m, w). mp_Producer m) envs s of
        (None, s1) \<Rightarrow> (None, s1)
      | (Some (Inl err), s1) \<Rightarrow> (Some (Inl err), s1)
      | (Some (Inr (c, p)), (m, w)) \<Rightarrow>
          (case with_client c (Producer_Send (conn_sender pc) unixTime env p payload) w of
             (r, w1) \<Rightarrow> (Some r, (m, w1))))"

section \<open>The slot\<close>

definition ManagedProducer_Set :: "nat \<times> nat \<Rightarrow> ManagedProducer \<Rightarrow> go_error option \<times> ManagedProducer" where
  "ManagedProducer_Set p m =
     (let m1 = m\<lparr>mp_Producer := Some p\<rparr> in
      case mp_Waitc m1 of
        None \<Rightarrow> (None, m1)
      | Some ch \<Rightarrow>
          (case close_chan ch (mp_closed m1) of
             Inl e \<Rightarrow> (Some e, m1)
           | Inr cls \<Rightarrow> (None, m1\<lparr>mp_closed := cls, mp_Waitc := None\<rparr>)))"

definition ManagedProducer_Unset :: "ManagedProducer \<Rightarrow> ManagedProducer" where
  "ManagedProducer_Unset m =
     (let m1 = (if mp_Waitc m = None then m\<lparr>mp_Waitc := Some (mp_next m), mp_next := mp_next m + 1\<rparr> else m)
      in m1\<lparr>mp_Producer := None\<rparr>)"

interpretation producer_slot: wait_slot mp_Producer mp_Waitc mp_next mp_closed ManagedProducer_Set ManagedProducer_Unset
  by unfold_locales
    (auto simp: ManagedProducer_Set_def ManagedProducer_Unset_def close_chan_def Let_def split: option.splits)

section \<open>Creating the producer\<close>

definition ManagedProducer_NewProducer ::
    "proto \<Rightarrow> create_attempt \<Rightarrow> mp_world \<Rightarrow> (go_error + nat \<times> nat) option \<times> mp_world" where
  "ManagedProducer_NewProducer pc a s =
     (case s of (m, w) \<Rightarrow>
        (case topic_client pc a (pcfg_ClientConfig (mp_Cfg m)) (pcfg_Topic (mp_Cfg m)) w of
           (None, w1) \<Rightarrow> (None, (m, w1))
         | (Some (Inl err), w1) \<Rightarrow> (Some (Inl err), (m, w1))
         | (Some (Inr c), w1) \<Rightarrow>
             (case with_client c
                 (Client_NewProducer (conn_sender pc) (ca_env a) (pcfg_Topic (mp_Cfg m)) (pcfg_Name (mp_Cfg m))) w1 of
                (Inl err, w2) \<Rightarrow> (Some (Inl err), (m, w2))
              | (Inr p, w2) \<Rightarrow> (Some (Inr (c, p)), (m, w2)))))"

definition ManagedProducer_async_err :: "go_error \<Rightarrow> mp_world \<Rightarrow> mp_world" where
  "ManagedProducer_async_err err s =
     (case s of (m, w) \<Rightarrow> (m\<lparr>mp_AsyncErrs := AsyncErrors_Send err (mp_AsyncErrs m)\<rparr>, w))"

definition ManagedProducer_Reconnect ::
    "proto \<Rightarrow> create_attempt list \<Rightarrow> bool \<Rightarrow> mp_world \<Rightarrow> (nat \<times> nat) option \<times> int list \<times> mp_world" where
  "ManagedProducer_Reconnect pc as initial s =
     retry_loop (ManagedProducer_NewProducer pc) ManagedProducer_async_err
       (pcfg_MaxReconnectDelay (mp_Cfg (fst s))) as initial (pcfg_InitialReconnectDelay (mp_Cfg (fst s))) s"

section \<open>Watching the producer\<close>

text \<open>
  What happens next, seen from the goroutine that watches the producer: a case of its \<open>select\<close> is
  chosen, if it is ready, with what is needed to reconnect; or others use the producer or the pool.
\<close>

datatype mp_event =
    MpClosed "create_attempt list"
  | MpConnClosed "create_attempt list"
  | MpUse "ClientPool \<Rightarrow> ClientPool"

datatype mp_state = MpWatching "nat \<times> nat" | MpReconnecting | MpPanic go_error

definition mp_connect :: "proto \<Rightarrow> create_attempt list \<Rightarrow> bool \<Rightarrow> mp_world \<Rightarrow> mp_state \<times> mp_world" where
  "mp_connect pc as initial s =
     (case ManagedProducer_Reconnect pc as initial s of
        (None, _, s1) \<Rightarrow> (MpReconnecting, s1)
      | (Some p, _, (m, w)) \<Rightarrow>
          (case ManagedProducer_Set p m of
             (Some e, m1) \<Rightarrow> (MpPanic e, (m1, w))
           | (None, m1) \<Rightarrow> (MpWatching p, (m1, w))))"

definition mp_step :: "proto \<Rightarrow> mp_event \<Rightarrow> nat \<times> nat \<Rightarrow> mp_world \<Rightarrow> mp_state \<times> mp_world" where
  "mp_step pc ev p s =
     (case s of (m, w) \<Rightarrow>
        (case ev of
           MpClosed as \<Rightarrow>
             if Producer_Closed (snd p) (wd_clients w ! fst p)
             then mp_connect pc as False (ManagedProducer_Unset m, w) else (MpWatching p, s)
         | MpConnClosed as \<Rightarrow>
             if Producer_ConnClosed (conn_sender pc) (wd_clients w ! fst p)
             then mp_connect pc as False (ManagedProducer_Unset m, w) else (MpWatching p, s)
         | MpUse f \<Rightarrow> (MpWatching p, (m, f w))))"

fun mp_loop :: "proto \<Rightarrow> mp_event list \<Rightarrow> nat \<times> nat \<Rightarrow> mp_world \<Rightarrow> mp_state \<times> mp_world" where
  "mp_loop pc [] p s = (MpWatching p, s)"
| "mp_loop pc (ev # evs) p s =
     (case mp_step pc ev p s of (MpWatching p', s') \<Rightarrow> mp_loop pc evs p' s' | r \<Rightarrow> r)"

definition ManagedProducer_manage ::
    "proto \<Rightarrow> create_attempt list \<Rightarrow> mp_event list \<Rightarrow> mp_world \<Rightarrow> mp_state \<times> mp_world" where
  "ManagedProducer_manage pc as evs s =
     (case mp_connect pc as True s of (MpWatching p, s1) \<Rightarrow> mp_loop pc evs p s1 | r \<Rightarrow> r)"

section \<open>Closing\<close>

text \<open>With no producer set, the method is called on a nil pointer.\<close>

definition ManagedProducer_Close ::
    "proto \<Rightarrow> (Conn Client \<Rightarrow> Conn Client \<times> wake) \<Rightarrow> mp_world \<Rightarrow> (go_error + unit) \<times> mp_world" where
  "ManagedProducer_Close pc env s =
     (case s of (m, w) \<Rightarrow>
        (case mp_Producer m of
           None \<Rightarrow> (Inl (ErrPanic ''nil pointer dereference''), s)
         | Some (c, p) \<Rightarrow>
             (case with_client c (Producer_Close (conn_sender pc) env p) w of (r, w1) \<Rightarrow> (r, (m, w1)))))"

section \<open>Lemmas\<close>

definition mp_slot :: "ManagedProducer \<Rightarrow> (nat \<times> nat) option \<times> nat option \<times> nat \<times> nat list \<times> ProducerConfig" where
  "mp_slot m = (mp_Producer m, mp_Waitc m, mp_next m, mp_closed m, mp_Cfg m)"

lemma NewProducer_state: "fst (snd (ManagedProducer_NewProducer pc a s)) = fst s"
  by (auto simp: ManagedProducer_NewProducer_def split: prod.splits option.splits sum.splits)

lemma async_err_slot: "mp_slot (fst (ManagedProducer_async_err e s)) = mp_slot (fst s)"
  by (simp add: ManagedProducer_async_err_def mp_slot_def split: prod.splits)

lemma Reconnect_slot:
  assumes "ManagedProducer_Reconnect pc as initial s = (r, ds, s')"
  shows "mp_slot (fst s') = mp_slot (fst s)"
  by (rule retry_loop_inv [where P = "\<lambda>x. mp_slot (fst x) = mp_slot (fst s)", OF _ _ _ assms [unfolded ManagedProducer_Reconnect_def]])
    (simp_all add: NewProducer_state async_err_slot)

interpretation managed_producer_slot: managed_slot mp_Producer mp_Waitc mp_next mp_closed
  ManagedProducer_Set ManagedProducer_Unset "\<lambda>(as, initial). ManagedProducer_Reconnect pc as initial"
  by unfold_locales (use Reconnect_slot in \<open>force simp: mp_slot_def\<close>)

abbreviation mp_slot_ok :: "ManagedProducer \<Rightarrow> bool" where
  "mp_slot_ok m \<equiv> slot_ok (mp_Producer m) (mp_Waitc m) (mp_next m) (mp_closed m)"

definition mp_inv :: "mp_state \<Rightarrow> mp_world \<Rightarrow> bool" where
  "mp_inv st s \<longleftrightarrow> mp_slot_ok (fst s) \<and>
     (case st of MpWatching p \<Rightarrow> mp_Producer (fst s) = Some p | MpReconnecting \<Rightarrow> mp_Producer (fst s) = None
      | MpPanic _ \<Rightarrow> False)"

lemma mp_connect_inv:
  assumes "mp_slot_ok m" "mp_Producer m = None" "mp_connect pc as initial (m, w) = (st, s')"
  shows "mp_inv st s'"
proof -
  obtain r ds m1 w1 where r: "ManagedProducer_Reconnect pc as initial (m, w) = (r, ds, m1, w1)" by (metis prod_cases4)
  show ?thesis
  proof (cases r)
    case None
    with r assms managed_producer_slot.make_inv [of m pc "(as, initial)" w r ds m1 w1] show ?thesis
      by (auto simp: mp_connect_def mp_inv_def)
  next
    case (Some p)
    obtain m2 where "ManagedProducer_Set p m1 = (None, m2)" "mp_slot_ok m2" "mp_Producer m2 = Some p"
      using managed_producer_slot.make_set [of m pc "(as, initial)" w p ds m1 w1] assms(1) r Some by auto
    with r Some assms(3) show ?thesis by (auto simp: mp_connect_def mp_inv_def)
  qed
qed

lemma mp_Unset_inv: "mp_slot_ok m \<Longrightarrow> mp_slot_ok (ManagedProducer_Unset m) \<and> mp_Producer (ManagedProducer_Unset m) = None"
  using producer_slot.unset_inv [of m] by (simp add: producer_slot.unset_obj)

lemma mp_step_inv:
  assumes "mp_inv (MpWatching p) s" "mp_step pc ev p s = (st, s')"
  shows "mp_inv st s'"
proof -
  obtain m w where s: "s = (m, w)" by fastforce
  with assms(1) have m: "mp_slot_ok m" unfolding mp_inv_def by auto
  note connect = mp_connect_inv [OF conjunct1 [OF mp_Unset_inv [OF m]] conjunct2 [OF mp_Unset_inv [OF m]]]
  show ?thesis
    using assms s connect by (cases ev) (auto simp: mp_step_def mp_inv_def split: if_splits)
qed

lemma mp_loop_inv: "mp_inv (MpWatching p) s \<Longrightarrow> mp_loop pc evs p s = (st, s') \<Longrightarrow> mp_inv st s'"
proof (induction evs arbitrary: p s)
  case (Cons ev evs)
  obtain s1 w1 where step: "mp_step pc ev p s = (s1, w1)" by (metis prod.collapse)
  note inv = mp_step_inv [OF Cons.prems(1) step]
  show ?case
  proof (cases s1)
    case (MpWatching p1)
    with Cons.IH inv Cons.prems(2) step show ?thesis by simp
  qed (use Cons.prems(2) step inv in simp_all)
qed simp

lemma NewManagedProducer_ok: "mp_slot_ok (NewManagedProducer cfg) \<and> mp_Producer (NewManagedProducer cfg) = None"
  by (simp add: NewManagedProducer_def slot_ok_def Let_def)

section \<open>Properties\<close>

text \<open>
  The goroutine that manages a producer, through any sequence of failed and successful attempts to
  create one, of closed producers and closed connections: it never panics, exactly one of the producer
  and the wait channel is set, and a producer is set exactly while it is being watched.
\<close>

theorem managed_producer_manage:
  "case ManagedProducer_manage pc as evs (NewManagedProducer cfg, w) of
     (st, m, w') \<Rightarrow> slot_ok (mp_Producer m) (mp_Waitc m) (mp_next m) (mp_closed m) \<and>
       (case st of MpWatching p \<Rightarrow> mp_Producer m = Some p | MpReconnecting \<Rightarrow> mp_Producer m = None | MpPanic _ \<Rightarrow> False)"
proof -
  obtain s1 x where c: "mp_connect pc as True (NewManagedProducer cfg, w) = (s1, x)" by (metis prod.collapse)
  obtain st s' where r: "ManagedProducer_manage pc as evs (NewManagedProducer cfg, w) = (st, s')" by (metis prod.collapse)
  have inv: "mp_inv s1 x" using mp_connect_inv [OF conjunct1 [OF NewManagedProducer_ok] conjunct2 [OF NewManagedProducer_ok] c] .
  have "mp_inv st s'"
  proof (cases s1)
    case (MpWatching p)
    with r c have "mp_loop pc evs p x = (st, s')" by (simp add: ManagedProducer_manage_def)
    with mp_loop_inv inv MpWatching show ?thesis by blast
  qed (use r c inv in \<open>simp_all add: ManagedProducer_manage_def\<close>)
  with r show ?thesis by (auto simp: mp_inv_def split: prod.split mp_state.splits)
qed

text \<open>
  The delays of \<open>Reconnect\<close> are the initial one, doubled each time up to the configured maximum,
  whether or not the first attempt is made at once (an initial delay above the maximum is kept); and
  the producer it returns was created by one of
  the calls of \<open>NewProducer\<close>.
\<close>

theorem producer_reconnect_delays:
  assumes "0 < pcfg_InitialReconnectDelay (mp_Cfg (fst s))"
    and "pcfg_MaxReconnectDelay (mp_Cfg (fst s)) < 2 ^ 62"
    and "ManagedProducer_Reconnect pc as initial s = (r, ds, s')"
  shows "ds = map (\<lambda>i. max (pcfg_InitialReconnectDelay (mp_Cfg (fst s))) (min (pcfg_MaxReconnectDelay (mp_Cfg (fst s)))
      (2 ^ i * pcfg_InitialReconnectDelay (mp_Cfg (fst s))))) [0..<length ds] \<and>
    (\<forall>p. r = Some p \<longrightarrow> (\<exists>a s1. a \<in> set as \<and> ManagedProducer_NewProducer pc a s1 = (Some (Inr p), s')))"
  using retry_loop_delays [OF assms(3) [unfolded ManagedProducer_Reconnect_def]]
    retry_loop_made [where attempt_it = "ManagedProducer_NewProducer pc"] assms(3)
  unfolding backoff_pow_max [OF assms(1,2)] ManagedProducer_Reconnect_def by blast

text \<open>A pool in which no client ever becomes available within the deadline.\<close>

definition demo_create :: create_attempt where
  "demo_create = \<lparr>ca_rounds = (\<lambda>_. \<lparr>lk_between = id, lk_get = [\<lambda>w. (w, AcqCtx DeadlineExceeded)],
     lk_env = (\<lambda>c. (c, WakeCtx Canceled))\<rparr>), ca_get = [], ca_env = (\<lambda>c. (c, WakeCtx Canceled))\<rparr>"

definition demo_empty_pool :: ClientPool where
  "demo_empty_pool = snd (ClientPool_Get id demo_cfg NewClientPool)"

lemma demo_lookup_fails:
  "ClientPool_ForTopic pc (ca_rounds demo_create) demo_cfg topic demo_empty_pool =
     (Some (Inl (ErrCtx DeadlineExceeded)), [(cfg_Addr demo_cfg, False, Inl (ErrCtx DeadlineExceeded))], demo_empty_pool)"
proof -
  have get: "ClientPool_Get id demo_cfg demo_empty_pool = (0, demo_empty_pool)"
    "mc_client (wp_managed demo_empty_pool ! 0) = None"
    by (simp_all add: demo_empty_pool_def ClientPool_Get_def NewClientPool_def Let_def NewManagedClient_def)
  have "lookup_once pc (ca_rounds demo_create 7) demo_cfg topic False demo_empty_pool =
      (Some (Inl (ErrCtx DeadlineExceeded)), demo_empty_pool)"
    using get by (simp add: lookup_once_def demo_create_def pool_client_def acquire.simps)
  then show ?thesis
    unfolding ClientPool_ForTopic_def maxTopicLookupRedirects_Suc ForTopic_loop.simps Let_def by simp
qed

lemma demo_cfg_Errs: "cfg_Errs demo_cfg = None"
  by (simp add: demo_cfg_def)

definition demo_producer_cfg :: ProducerConfig where
  "demo_producer_cfg = \<lparr>pcfg_ClientConfig = demo_cfg, pcfg_Topic = ''t'', pcfg_Name = '''', pcfg_NewProducerTimeout = 0,
     pcfg_InitialReconnectDelay = 0, pcfg_MaxReconnectDelay = 3 * second\<rparr>"

abbreviation demo_mp :: mp_world where
  "demo_mp \<equiv> (NewManagedProducer demo_producer_cfg, demo_empty_pool)"

lemma demo_mp_fails:
  "ManagedProducer_NewProducer pc demo_create demo_mp = (Some (Inl (ErrCtx DeadlineExceeded)), demo_mp)"
  "ManagedProducer_async_err e demo_mp = demo_mp"
  using demo_lookup_fails [of pc "''t''"] demo_cfg_Errs
  by (simp_all add: ManagedProducer_NewProducer_def topic_client_def NewManagedProducer_def demo_producer_cfg_def
      ProducerConfig_setDefaults_def Let_def ManagedProducer_async_err_def)

theorem producer_reconnect_delays_witness:
  "fst (snd (ManagedProducer_Reconnect demo_proto (replicate 4 demo_create) True demo_mp)) =
     [1 * second, 2 * second, 3 * second]"
proof -
  let ?r = "ManagedProducer_Reconnect demo_proto (replicate 4 demo_create) True demo_mp"
  have cfg: "pcfg_InitialReconnectDelay (mp_Cfg (fst demo_mp)) = second" "pcfg_MaxReconnectDelay (mp_Cfg (fst demo_mp)) = 3 * second"
    by (simp_all add: NewManagedProducer_def demo_producer_cfg_def ProducerConfig_setDefaults_def Let_def second_def)
  have "length (fst (snd ?r)) = 3"
    using demo_mp_fails by (simp add: ManagedProducer_Reconnect_def numeral_eq_Suc Let_def)
  then show ?thesis
    using producer_reconnect_delays [of demo_mp demo_proto "replicate 4 demo_create" True "fst ?r" "fst (snd ?r)" "snd (snd ?r)"]
    unfolding cfg by (simp add: second_def eval_nat_numeral)
qed

end
