(* ===== verification/ManagedConsumer.thy ===== *)
theory ManagedConsumer
  imports ManagedProducer "HOL-Library.Sublist"
begin

text \<open>
  The managed consumer of \<^verbatim>\<open>core/manage/managed_consumer.go\<close>: getting and using the current
  consumer, recreating it, and \<open>ReceiveAsync\<close>, which forwards the messages of the queue and keeps the
  broker supplied with permits. A consumer is referred to by the position of its client and its own
  position in that client; the queue that all of them share is one of the channels in \<open>wd_queues\<close>.
\<close>

section \<open>Configuration\<close>

text \<open>A \<open>SubscriptionMode\<close> is an integer with three named values.\<close>

type_synonym SubscriptionMode = int

definition SubscriptionModeExclusive :: SubscriptionMode where
  "SubscriptionModeExclusive = 1"

definition SubscriptionModeShard :: SubscriptionMode where
  "SubscriptionModeShard = 2"

definition SubscriptionModeFailover :: SubscriptionMode where
  "SubscriptionModeFailover = 3"

record ConsumerConfig =
  ccfg_ClientConfig :: ClientConfig
  ccfg_Topic :: string
  ccfg_Name :: string
  ccfg_SubMode :: SubscriptionMode
  ccfg_Earliest :: bool
  ccfg_QueueSize :: int
  ccfg_NewConsumerTimeout :: int
  ccfg_InitialReconnectDelay :: int
  ccfg_MaxReconnectDelay :: int

definition ConsumerConfig_SetDefaults :: "ConsumerConfig \<Rightarrow> ConsumerConfig" where
  "ConsumerConfig_SetDefaults m =
     (let m1 = (if ccfg_NewConsumerTimeout m \<le> 0 then m\<lparr>ccfg_NewConsumerTimeout := 5 * second\<rparr> else m);
          m2 = (if ccfg_InitialReconnectDelay m1 \<le> 0 then m1\<lparr>ccfg_InitialReconnectDelay := 1 * second\<rparr> else m1);
          m3 = (if ccfg_MaxReconnectDelay m2 \<le> 0 then m2\<lparr>ccfg_MaxReconnectDelay := 5 * minute\<rparr> else m2)
      in if ccfg_QueueSize m3 \<le> 0 then m3\<lparr>ccfg_QueueSize := 128\<rparr> else m3)"

section \<open>State\<close>

record ManagedConsumer =
  mcs_cfg :: ConsumerConfig
  mcs_asyncErrs :: AsyncErrors
  mcs_queue :: nat
  mcs_consumer :: "(nat \<times> nat) option"
  mcs_waitc :: "nat option"
  mcs_next :: nat
  mcs_closed :: "nat list"
  mcs_stopManageChan :: bool

type_synonym mcs_world = "ManagedConsumer \<times> ClientPool"

definition NewManagedConsumer :: "ConsumerConfig \<Rightarrow> ClientPool \<Rightarrow> mcs_world" where
  "NewManagedConsumer cfg0 w =
     (let cfg = ConsumerConfig_SetDefaults cfg0 in
      (\<lparr>mcs_cfg = cfg, mcs_asyncErrs = cfg_Errs (ccfg_ClientConfig cfg), mcs_queue = length (wd_queues w),
        mcs_consumer = None, mcs_waitc = Some 0, mcs_next = 1, mcs_closed = [], mcs_stopManageChan = False\<rparr>,
       w\<lparr>wd_queues := wd_queues w @ [make_chan (nat (ccfg_QueueSize cfg))]\<rparr>))"

definition the_mcs_consumer :: "nat \<times> nat \<Rightarrow> ClientPool \<Rightarrow> Consumer" where
  "the_mcs_consumer p w = the_Consumer (snd p) (wd_clients w ! fst p)"

definition ManagedConsumer_async_err :: "go_error \<Rightarrow> mcs_world \<Rightarrow> mcs_world" where
  "ManagedConsumer_async_err err s =
     (case s of (m, w) \<Rightarrow> (m\<lparr>mcs_asyncErrs := AsyncErrors_Send err (mcs_asyncErrs m)\<rparr>, w))"

section \<open>Using the current consumer\<close>

text \<open>
  The consumer is read under the lock, and read again without it; \<open>between\<close> is what others do in
  between.
\<close>

definition ManagedConsumer_Unactive :: "(mcs_world \<Rightarrow> mcs_world) \<Rightarrow> mcs_world \<Rightarrow> (go_error + bool) \<times> mcs_world" where
  "ManagedConsumer_Unactive between s =
     (case mcs_consumer (fst s) of
        None \<Rightarrow> (Inr True, s)
      | Some _ \<Rightarrow>
          (let s1 = between s in
           case mcs_consumer (fst s1) of
             None \<Rightarrow> (Inl (ErrPanic ''nil pointer dereference''), s1)
           | Some p \<Rightarrow> (Inr (Consumer_Unactive (the_mcs_consumer p (snd s1))), s1)))"

text \<open>\<open>ConsumerID\<close> reads the slot at most ten times; \<open>None\<close> says that it still waits.\<close>

fun consumer_id_loop :: "nat \<Rightarrow> (mcs_world \<Rightarrow> mcs_world \<times> acq_wake) list \<Rightarrow> mcs_world \<Rightarrow> u64 option \<times> mcs_world" where
  "consumer_id_loop 0 envs s = (Some 0, s)"
| "consumer_id_loop (Suc n) envs s =
     (case mcs_consumer (fst s) of
        Some p \<Rightarrow> (Some (Consumer_ConsumerID (the_mcs_consumer p (snd s))), s)
      | None \<Rightarrow>
          (case envs of
             [] \<Rightarrow> (None, s)
           | env # envs' \<Rightarrow>
               (case env s of
                  (s1, AcqReady) \<Rightarrow> consumer_id_loop n envs' s1
                | (s1, _) \<Rightarrow> (Some 0, s1))))"

definition ManagedConsumer_ConsumerID ::
    "(mcs_world \<Rightarrow> mcs_world \<times> acq_wake) list \<Rightarrow> mcs_world \<Rightarrow> u64 option \<times> mcs_world" where
  "ManagedConsumer_ConsumerID envs s = consumer_id_loop 10 envs s"

text \<open>The methods that wait for a consumer and use it.\<close>

definition mcs_use ::
    "(mcs_world \<Rightarrow> mcs_world \<times> acq_wake) list \<Rightarrow> (nat \<Rightarrow> Conn Client \<Rightarrow> 'r \<times> Conn Client) \<Rightarrow> mcs_world \<Rightarrow>
     (go_error + 'r) option \<times> mcs_world" where
  "mcs_use envs f s =
     (case acquire (\<lambda>(m, w). mcs_consumer m) envs s of
        (None, s1) \<Rightarrow> (None, s1)
      | (Some (Inl err), s1) \<Rightarrow> (Some (Inl err), s1)
      | (Some (Inr (c, i)), (m, w)) \<Rightarrow> (case with_client c (f i) w of (r, w1) \<Rightarrow> (Some (Inr r), (m, w1))))"

definition flat_err :: "(go_error + go_error option) option \<times> 's \<Rightarrow> go_error option option \<times> 's" where
  "flat_err r = (map_option (\<lambda>x. case x of Inl err \<Rightarrow> Some err | Inr e \<Rightarrow> e) (fst r), snd r)"

definition flat_sum :: "(go_error + (go_error + 'r)) option \<times> 's \<Rightarrow> (go_error + 'r) option \<times> 's" where
  "flat_sum r = (map_option (\<lambda>x. case x of Inl err \<Rightarrow> Inl err | Inr e \<Rightarrow> e) (fst r), snd r)"

definition ManagedConsumer_Ack ::
    "proto \<Rightarrow> (mcs_world \<Rightarrow> mcs_world \<times> acq_wake) list \<Rightarrow> Message \<Rightarrow> mcs_world \<Rightarrow> go_error option option \<times> mcs_world" where
  "ManagedConsumer_Ack pc envs msg s = flat_err (mcs_use envs (Consumer_Ack (conn_sender pc) msg) s)"

definition ManagedConsumer_RedeliverUnacknowledged ::
    "proto \<Rightarrow> (mcs_world \<Rightarrow> mcs_world \<times> acq_wake) list \<Rightarrow> mcs_world \<Rightarrow> go_error option option \<times> mcs_world" where
  "ManagedConsumer_RedeliverUnacknowledged pc envs s =
     flat_err (mcs_use envs (Consumer_RedeliverUnacknowledged (conn_sender pc)) s)"

definition ManagedConsumer_RedeliverOverflow ::
    "proto \<Rightarrow> (mcs_world \<Rightarrow> mcs_world \<times> acq_wake) list \<Rightarrow> mcs_world \<Rightarrow> (int \<times> go_error option) option \<times> mcs_world" where
  "ManagedConsumer_RedeliverOverflow pc envs s =
     (case mcs_use envs (Consumer_RedeliverOverflow (conn_sender pc)) s of
        (r, s1) \<Rightarrow>
          (map_option (\<lambda>x. case x of Inl err \<Rightarrow> (- 1, Some err) | Inr (n, e) \<Rightarrow> (int n, e)) r, s1))"

definition ManagedConsumer_Unsubscribe ::
    "proto \<Rightarrow> (mcs_world \<Rightarrow> mcs_world \<times> acq_wake) list \<Rightarrow> (Conn Client \<Rightarrow> Conn Client \<times> wake) \<Rightarrow> mcs_world \<Rightarrow>
     (go_error + unit) option \<times> mcs_world" where
  "ManagedConsumer_Unsubscribe pc envs env s = flat_sum (mcs_use envs (Consumer_Unsubscribe (conn_sender pc) env) s)"

definition ManagedConsumer_Consumer :: "mcs_world \<Rightarrow> (nat \<times> nat) option" where
  "ManagedConsumer_Consumer s = mcs_consumer (fst s)"

text \<open>
  \<open>Close\<close> stops the goroutine that watches the consumer and then closes the consumer, which it reads
  again; \<open>between\<close> is what others do in between.
\<close>

definition ManagedConsumer_Close ::
    "proto \<Rightarrow> (mcs_world \<Rightarrow> mcs_world \<times> acq_wake) list \<Rightarrow> (mcs_world \<Rightarrow> mcs_world) \<Rightarrow>
     (Conn Client \<Rightarrow> Conn Client \<times> wake) \<Rightarrow> mcs_world \<Rightarrow> (go_error + unit) option \<times> mcs_world" where
  "ManagedConsumer_Close pc envs between env s =
     (case acquire (\<lambda>(m, w). mcs_consumer m) envs s of
        (None, s1) \<Rightarrow> (None, s1)
      | (Some (Inl err), s1) \<Rightarrow> (Some (Inl err), s1)
      | (Some (Inr _), (m, w)) \<Rightarrow>
          (case close_signal (mcs_stopManageChan m) of
             Inl p \<Rightarrow> (Some (Inl p), (m, w))
           | Inr cl \<Rightarrow>
               (case between (m\<lparr>mcs_stopManageChan := cl\<rparr>, w) of (m1, w1) \<Rightarrow>
                  (case mcs_consumer m1 of
                     None \<Rightarrow> (Some (Inl (ErrPanic ''nil pointer dereference'')), (m1, w1))
                   | Some (c, i) \<Rightarrow>
                       (case with_client c (Consumer_Close (conn_sender pc) env i) w1 of
                          (r, w2) \<Rightarrow> (Some r, (m1, w2)))))))"

section \<open>Receiving one message\<close>

text \<open>How the \<open>select\<close> that waits for a message ends.\<close>

datatype recv_wake = RcvMsg | RcvOverflow | RcvCtx ctx_error | RcvClosed | RcvConnClosed

definition mcs_messages :: "mcs_world \<Rightarrow> Message chan" where
  "mcs_messages s = wd_queues (snd s) ! mcs_queue (fst s)"

definition upd_messages :: "Message chan \<Rightarrow> mcs_world \<Rightarrow> mcs_world" where
  "upd_messages q s = (case s of (m, w) \<Rightarrow> (m, w\<lparr>wd_queues := (wd_queues w)[mcs_queue m := q]\<rparr>))"

text \<open>A case of the \<open>select\<close> that is not ready is not chosen: the result is then \<open>None\<close>.\<close>

definition recv_select :: "proto \<Rightarrow> nat \<times> nat \<Rightarrow> recv_wake \<Rightarrow> mcs_world \<Rightarrow> (go_error + Message) option \<times> mcs_world" where
  "recv_select pc p wk s =
     (case wk of
        RcvMsg \<Rightarrow>
          (case try_recv (mcs_messages s) of
             None \<Rightarrow> (None, s)
           | Some (msg, q) \<Rightarrow> (Some (Inr msg), upd_messages q s))
      | RcvOverflow \<Rightarrow> (Some (Inl ErrConsumerOverflow), s)
      | RcvCtx e \<Rightarrow> (Some (Inl (ErrCtx e)), s)
      | RcvClosed \<Rightarrow>
          (if Consumer_Closed (snd p) (wd_clients (snd s) ! fst p) then (Some (Inl ErrConsumerClosed), s) else (None, s))
      | RcvConnClosed \<Rightarrow>
          (if Consumer_ConnClosed (conn_sender pc) (wd_clients (snd s) ! fst p)
           then (Some (Inl ErrConsumerConnClosed), s) else (None, s)))"

definition ManagedConsumer_Receive ::
    "proto \<Rightarrow> (mcs_world \<Rightarrow> mcs_world \<times> acq_wake) list \<Rightarrow> (mcs_world \<Rightarrow> mcs_world \<times> recv_wake) \<Rightarrow> mcs_world \<Rightarrow>
     (go_error + Message) option \<times> mcs_world" where
  "ManagedConsumer_Receive pc envs env s =
     (case acquire (\<lambda>(m, w). mcs_consumer m) envs s of
        (None, s1) \<Rightarrow> (None, s1)
      | (Some (Inl err), s1) \<Rightarrow> (Some (Inl err), s1)
      | (Some (Inr (c, i)), (m, w)) \<Rightarrow>
          (case with_client c (Consumer_Flow (conn_sender pc) 1 i) w of
             (Some err, w1) \<Rightarrow> (Some (Inl err), (m, w1))
           | (None, w1) \<Rightarrow> (case env (m, w1) of (s2, wk) \<Rightarrow> recv_select pc (c, i) wk s2)))"

section \<open>The slot\<close>

definition ManagedConsumer_set :: "nat \<times> nat \<Rightarrow> ManagedConsumer \<Rightarrow> go_error option \<times> ManagedConsumer" where
  "ManagedConsumer_set p m =
     (let m1 = m\<lparr>mcs_consumer := Some p\<rparr> in
      case mcs_waitc m1 of
        None \<Rightarrow> (None, m1)
      | Some ch \<Rightarrow>
          (case close_chan ch (mcs_closed m1) of
             Inl e \<Rightarrow> (Some e, m1)
           | Inr cls \<Rightarrow> (None, m1\<lparr>mcs_closed := cls, mcs_waitc := None\<rparr>)))"

definition ManagedConsumer_unset :: "ManagedConsumer \<Rightarrow> ManagedConsumer" where
  "ManagedConsumer_unset m =
     (let m1 = (if mcs_waitc m = None then m\<lparr>mcs_waitc := Some (mcs_next m), mcs_next := mcs_next m + 1\<rparr> else m)
      in m1\<lparr>mcs_consumer := None\<rparr>)"

interpretation consumer_slot: wait_slot mcs_consumer mcs_waitc mcs_next mcs_closed ManagedConsumer_set ManagedConsumer_unset
  by unfold_locales
    (auto simp: ManagedConsumer_set_def ManagedConsumer_unset_def close_chan_def Let_def split: option.splits)

section \<open>Creating the consumer\<close>

definition ManagedConsumer_newConsumer ::
    "proto \<Rightarrow> create_attempt \<Rightarrow> mcs_world \<Rightarrow> (go_error + nat \<times> nat) option \<times> mcs_world" where
  "ManagedConsumer_newConsumer pc a s =
     (case s of (m, w) \<Rightarrow>
        (let cfg = mcs_cfg m in
         case topic_client pc a (ccfg_ClientConfig cfg) (ccfg_Topic cfg) w of
           (None, w1) \<Rightarrow> (None, (m, w1))
         | (Some (Inl err), w1) \<Rightarrow> (Some (Inl err), (m, w1))
         | (Some (Inr c), w1) \<Rightarrow>
             (let new = (\<lambda>f. case with_client c
                   (f (conn_sender pc) (ca_env a) (ccfg_Topic cfg) (ccfg_Name cfg) (ccfg_Earliest cfg) (mcs_queue m)) w1 of
                     (Inl err, w2) \<Rightarrow> (Some (Inl err), (m, w2))
                   | (Inr i, w2) \<Rightarrow> (Some (Inr (c, i)), (m, w2)))
              in if ccfg_SubMode cfg = SubscriptionModeExclusive then new Client_NewExclusiveConsumer
                 else if ccfg_SubMode cfg = SubscriptionModeFailover then new Client_NewFailoverConsumer
                 else if ccfg_SubMode cfg = SubscriptionModeShard then new Client_NewSharedConsumer
                 else (Some (Inl ErrorInvalidSubMode), (m, w1)))))"

definition ManagedConsumer_reconnect ::
    "proto \<Rightarrow> create_attempt list \<Rightarrow> bool \<Rightarrow> mcs_world \<Rightarrow> (nat \<times> nat) option \<times> int list \<times> mcs_world" where
  "ManagedConsumer_reconnect pc as initial s =
     retry_loop (ManagedConsumer_newConsumer pc) ManagedConsumer_async_err
       (ccfg_MaxReconnectDelay (mcs_cfg (fst s))) as initial (ccfg_InitialReconnectDelay (mcs_cfg (fst s))) s"

section \<open>Watching the consumer\<close>

text \<open>
  What happens next, seen from the goroutine that watches the consumer: a case of its \<open>select\<close> is
  chosen, if it is ready; or \<open>Close\<close> closes \<open>stopManageChan\<close>, or others use the pool.
\<close>

datatype mcs_event =
    McEndOfTopic "create_attempt list"
  | McClosed "create_attempt list"
  | McConnClosed "create_attempt list"
  | McStop
  | McCallClose
  | McUse "ClientPool \<Rightarrow> ClientPool"

datatype mcs_state = McWatching "nat \<times> nat" | McReconnecting | McReturned | McPanic go_error

text \<open>The new consumer takes over what the old one has dropped, and its signal.\<close>

definition hand_over :: "nat \<times> nat \<Rightarrow> nat \<times> nat \<Rightarrow> ClientPool \<Rightarrow> ClientPool" where
  "hand_over old new w =
     (let upd = (\<lambda>f w. w\<lparr>wd_clients := (wd_clients w)[fst new := upd_Consumer (snd new) f (wd_clients w ! fst new)]\<rparr>);
          w1 = upd (\<lambda>x. x\<lparr>Consumer_OverflowSignal := Consumer_OverflowSignal (the_mcs_consumer old w)\<rparr>) w
      in upd (\<lambda>x. x\<lparr>Consumer_Overflow := Consumer_Overflow (the_mcs_consumer old w1)\<rparr>) w1)"

definition mcs_put :: "nat \<times> nat \<Rightarrow> mcs_world \<Rightarrow> mcs_state \<times> mcs_world" where
  "mcs_put p s =
     (case s of (m, w) \<Rightarrow>
        (case ManagedConsumer_set p m of
           (Some e, m1) \<Rightarrow> (McPanic e, (m1, w))
         | (None, m1) \<Rightarrow> (McWatching p, (m1, w))))"

definition mcs_renew :: "proto \<Rightarrow> create_attempt list \<Rightarrow> nat \<times> nat \<Rightarrow> mcs_world \<Rightarrow> mcs_state \<times> mcs_world" where
  "mcs_renew pc as old s =
     (case s of (m, w) \<Rightarrow>
        (case ManagedConsumer_reconnect pc as False (ManagedConsumer_unset m, w) of
           (None, _, s1) \<Rightarrow> (McReconnecting, s1)
         | (Some new, _, (m1, w1)) \<Rightarrow> mcs_put new (m1, hand_over old new w1)))"

definition mcs_step :: "proto \<Rightarrow> mcs_event \<Rightarrow> nat \<times> nat \<Rightarrow> mcs_world \<Rightarrow> mcs_state \<times> mcs_world" where
  "mcs_step pc ev p s =
     (case s of (m, w) \<Rightarrow>
        (case ev of
           McEndOfTopic as \<Rightarrow>
             if Consumer_ReachedEndOfTopic (snd p) (wd_clients w ! fst p) then mcs_renew pc as p s else (McWatching p, s)
         | McClosed as \<Rightarrow>
             if Consumer_Closed (snd p) (wd_clients w ! fst p) then mcs_renew pc as p s else (McWatching p, s)
         | McConnClosed as \<Rightarrow>
             if Consumer_ConnClosed (conn_sender pc) (wd_clients w ! fst p) then mcs_renew pc as p s else (McWatching p, s)
         | McStop \<Rightarrow>
             if mcs_stopManageChan m then (McReturned, (ManagedConsumer_unset m, w)) else (McWatching p, s)
         | McCallClose \<Rightarrow> (McWatching p, (m\<lparr>mcs_stopManageChan := True\<rparr>, w))
         | McUse f \<Rightarrow> (McWatching p, (m, f w))))"

fun mcs_loop :: "proto \<Rightarrow> mcs_event list \<Rightarrow> nat \<times> nat \<Rightarrow> mcs_world \<Rightarrow> mcs_state \<times> mcs_world" where
  "mcs_loop pc [] p s = (McWatching p, s)"
| "mcs_loop pc (ev # evs) p s =
     (case mcs_step pc ev p s of (McWatching p', s') \<Rightarrow> mcs_loop pc evs p' s' | r \<Rightarrow> r)"

definition ManagedConsumer_manage ::
    "proto \<Rightarrow> create_attempt list \<Rightarrow> mcs_event list \<Rightarrow> mcs_world \<Rightarrow> mcs_state \<times> mcs_world" where
  "ManagedConsumer_manage pc as evs s =
     (case ManagedConsumer_reconnect pc as True s of
        (None, _, s1) \<Rightarrow> (McReconnecting, s1)
      | (Some p, _, s1) \<Rightarrow>
          (case mcs_put p s1 of (McWatching p', s2) \<Rightarrow> mcs_loop pc evs p' s2 | r \<Rightarrow> r))"

section \<open>Receiving asynchronously\<close>

text \<open>
  \<open>ReceiveAsync\<close> as a machine that runs beside the others. Its phases are the places where it can be
  overtaken: emptying the queue, reading the slot, waiting for a consumer, asking for the first
  permits, its inner \<open>select\<close> with the number of messages received since the last FLOW, asking for
  more permits, and having returned. \<open>ra_out\<close> are the messages sent to the caller's channel; a send
  ends when the caller's channel takes the message. \<open>ra_acts\<close> are its actions, the latest first.
\<close>

datatype ra_phase =
    RaDrain
  | RaAcquire
  | RaWait "nat option"
  | RaFlow "nat \<times> nat"
  | RaSelect "nat \<times> nat" u32
  | RaReflow "nat \<times> nat" u32
  | RaReturned go_error

datatype ra_act = ActStart u32 | ActFlow u32 | ActDrained | ActMsg | ActOverflow

record ra_state =
  ra_phase :: ra_phase
  ra_world :: mcs_world
  ra_out :: "Message list"
  ra_acts :: "ra_act list"

datatype ra_select = SelReady | SelMsg | SelCtx ctx_error | SelOverflow | SelClosed | SelConnClosed

datatype ra_event = RaGo | RaCase ra_select | RaOther "mcs_world \<Rightarrow> mcs_world"

definition ra_highwater :: "mcs_world \<Rightarrow> u32" where
  "ra_highwater s = of_nat (ch_cap (mcs_messages s)) div 2"

definition ra_forward :: "Message \<Rightarrow> Message chan \<Rightarrow> ra_phase \<Rightarrow> ra_act \<Rightarrow> ra_state \<Rightarrow> ra_state" where
  "ra_forward msg q ph act s =
     s\<lparr>ra_phase := ph, ra_world := upd_messages q (ra_world s), ra_out := ra_out s @ [msg], ra_acts := act # ra_acts s\<rparr>"

definition ra_flow :: "proto \<Rightarrow> u32 \<Rightarrow> nat \<times> nat \<Rightarrow> ra_act \<Rightarrow> ra_state \<Rightarrow> ra_state" where
  "ra_flow pc permits p act s =
     (case ra_world s of (m, w) \<Rightarrow>
        (case with_client (fst p) (Consumer_Flow (conn_sender pc) permits (snd p)) w of
           (Some err, w1) \<Rightarrow> s\<lparr>ra_phase := RaDrain, ra_world := ManagedConsumer_async_err err (m, w1)\<rparr>
         | (None, w1) \<Rightarrow> s\<lparr>ra_phase := RaSelect p 0, ra_world := (m, w1), ra_acts := act # ra_acts s\<rparr>))"

definition ra_go :: "proto \<Rightarrow> u32 \<Rightarrow> ra_state \<Rightarrow> ra_state" where
  "ra_go pc highwater s =
     (case ra_phase s of
        RaDrain \<Rightarrow>
          (case try_recv (mcs_messages (ra_world s)) of
             Some (msg, q) \<Rightarrow> ra_forward msg q RaDrain ActDrained s
           | None \<Rightarrow> s\<lparr>ra_phase := RaAcquire\<rparr>)
      | RaAcquire \<Rightarrow>
          (case mcs_consumer (fst (ra_world s)) of
             None \<Rightarrow> s\<lparr>ra_phase := RaWait (mcs_waitc (fst (ra_world s)))\<rparr>
           | Some p \<Rightarrow> s\<lparr>ra_phase := RaFlow p\<rparr>)
      | RaFlow p \<Rightarrow> ra_flow pc highwater p (ActStart highwater) s
      | RaReflow p n \<Rightarrow> ra_flow pc n p (ActFlow n) s
      | _ \<Rightarrow> s)"

definition ra_restart :: "go_error \<Rightarrow> ra_state \<Rightarrow> ra_state" where
  "ra_restart err s = s\<lparr>ra_phase := RaDrain, ra_world := ManagedConsumer_async_err err (ra_world s)\<rparr>"

definition ra_case :: "proto \<Rightarrow> u32 \<Rightarrow> ra_select \<Rightarrow> ra_state \<Rightarrow> ra_state" where
  "ra_case pc highwater sel s =
     (case ra_phase s of
        RaWait wait \<Rightarrow>
          (case sel of
             SelReady \<Rightarrow>
               (case wait of
                  None \<Rightarrow> s
                | Some ch \<Rightarrow> if ch \<in> set (mcs_closed (fst (ra_world s))) then s\<lparr>ra_phase := RaDrain\<rparr> else s)
           | SelCtx e \<Rightarrow> s\<lparr>ra_phase := RaReturned (ErrCtx e)\<rparr>
           | _ \<Rightarrow> s)
      | RaSelect p n \<Rightarrow>
          (case sel of
             SelMsg \<Rightarrow>
               (case try_recv (mcs_messages (ra_world s)) of
                  None \<Rightarrow> s
                | Some (msg, q) \<Rightarrow>
                    ra_forward msg q (if n + 1 \<ge> highwater then RaReflow p (n + 1) else RaSelect p (n + 1)) ActMsg s)
           | SelCtx e \<Rightarrow> s\<lparr>ra_phase := RaReturned (ErrCtx e)\<rparr>
           | SelOverflow \<Rightarrow> s\<lparr>ra_phase := RaSelect p (n + 1), ra_acts := ActOverflow # ra_acts s\<rparr>
           | SelClosed \<Rightarrow>
               if Consumer_Closed (snd p) (wd_clients (snd (ra_world s)) ! fst p) then ra_restart ErrConsumerClosed s else s
           | SelConnClosed \<Rightarrow>
               if Consumer_ConnClosed (conn_sender pc) (wd_clients (snd (ra_world s)) ! fst p)
               then ra_restart ErrConsumerConnClosed s else s
           | SelReady \<Rightarrow> s)
      | _ \<Rightarrow> s)"

definition ra_step :: "proto \<Rightarrow> u32 \<Rightarrow> ra_event \<Rightarrow> ra_state \<Rightarrow> ra_state" where
  "ra_step pc highwater ev s =
     (case ev of
        RaGo \<Rightarrow> ra_go pc highwater s
      | RaCase sel \<Rightarrow> ra_case pc highwater sel s
      | RaOther f \<Rightarrow> s\<lparr>ra_world := f (ra_world s)\<rparr>)"

definition ManagedConsumer_ReceiveAsync :: "proto \<Rightarrow> ra_event list \<Rightarrow> mcs_world \<Rightarrow> ra_state" where
  "ManagedConsumer_ReceiveAsync pc evs s =
     fold (ra_step pc (ra_highwater s)) evs
       \<lparr>ra_phase = RaDrain, ra_world = s, ra_out = [], ra_acts = []\<rparr>"

section \<open>Lemmas on the slot\<close>

definition mcs_slot ::
    "ManagedConsumer \<Rightarrow> (nat \<times> nat) option \<times> nat option \<times> nat \<times> nat list \<times> bool \<times> nat \<times> ConsumerConfig" where
  "mcs_slot m = (mcs_consumer m, mcs_waitc m, mcs_next m, mcs_closed m, mcs_stopManageChan m, mcs_queue m, mcs_cfg m)"

lemma newConsumer_state: "fst (snd (ManagedConsumer_newConsumer pc a s)) = fst s"
  by (auto simp: ManagedConsumer_newConsumer_def Let_def split: prod.splits option.splits sum.splits)

lemma mcs_async_err_slot [simp]: "mcs_slot (fst (ManagedConsumer_async_err e s)) = mcs_slot (fst s)"
  by (simp add: ManagedConsumer_async_err_def mcs_slot_def split: prod.splits)

lemma mcs_async_err_pool [simp]: "snd (ManagedConsumer_async_err e s) = snd s"
  by (simp add: ManagedConsumer_async_err_def split: prod.splits)

lemma reconnect_slot:
  assumes "ManagedConsumer_reconnect pc as initial s = (r, ds, s')"
  shows "mcs_slot (fst s') = mcs_slot (fst s)"
  by (rule retry_loop_inv [where P = "\<lambda>x. mcs_slot (fst x) = mcs_slot (fst s)", OF _ _ _ assms [unfolded ManagedConsumer_reconnect_def]])
    (simp_all add: newConsumer_state)

interpretation managed_consumer_slot: managed_slot mcs_consumer mcs_waitc mcs_next mcs_closed
  ManagedConsumer_set ManagedConsumer_unset "\<lambda>(as, initial). ManagedConsumer_reconnect pc as initial"
  by unfold_locales (use reconnect_slot in \<open>force simp: mcs_slot_def\<close>)

abbreviation mcs_slot_ok :: "ManagedConsumer \<Rightarrow> bool" where
  "mcs_slot_ok m \<equiv> slot_ok (mcs_consumer m) (mcs_waitc m) (mcs_next m) (mcs_closed m)"

definition mcs_inv :: "mcs_state \<Rightarrow> mcs_world \<Rightarrow> bool" where
  "mcs_inv st s \<longleftrightarrow> mcs_slot_ok (fst s) \<and>
     (case st of McWatching p \<Rightarrow> mcs_consumer (fst s) = Some p | McReconnecting \<Rightarrow> mcs_consumer (fst s) = None
      | McReturned \<Rightarrow> mcs_consumer (fst s) = None | McPanic _ \<Rightarrow> False)"

lemma mcs_put_inv:
  assumes "mcs_slot_ok m" "mcs_put p (m, w) = (st, s')"
  shows "mcs_inv st s' \<and> st = McWatching p \<and> snd s' = w"
proof -
  obtain m' where "ManagedConsumer_set p m = (None, m')" "mcs_slot_ok m'" "mcs_consumer m' = Some p"
    using consumer_slot.set_inv [OF assms(1), of p] by blast
  with assms(2) show ?thesis by (auto simp: mcs_put_def mcs_inv_def)
qed

lemma mcs_unset_inv: "mcs_slot_ok m \<Longrightarrow> mcs_slot_ok (ManagedConsumer_unset m) \<and> mcs_consumer (ManagedConsumer_unset m) = None"
  using consumer_slot.unset_inv [of m] by (simp add: consumer_slot.unset_obj)

lemma mcs_renew_inv:
  assumes "mcs_slot_ok m" "mcs_renew pc as old (m, w) = (st, s')"
  shows "mcs_inv st s'"
proof -
  obtain r ds m1 w1 where r: "ManagedConsumer_reconnect pc as False (ManagedConsumer_unset m, w) = (r, ds, m1, w1)"
    by (metis prod_cases4)
  note m1 = managed_consumer_slot.make_inv [of "ManagedConsumer_unset m" pc "(as, False)" w r ds m1 w1]
  with r mcs_unset_inv [OF assms(1)] have ok: "mcs_slot_ok m1" and none: "mcs_consumer m1 = None" by auto
  show ?thesis
  proof (cases r)
    case None
    with r assms(2) ok none show ?thesis unfolding mcs_inv_def by (auto simp: mcs_renew_def)
  next
    case (Some p)
    with r assms(2) mcs_put_inv [OF ok] show ?thesis by (auto simp: mcs_renew_def)
  qed
qed

lemma mcs_step_inv:
  assumes "mcs_inv (McWatching p) s" "mcs_step pc ev p s = (st, s')"
  shows "mcs_inv st s'"
proof -
  obtain m w where s: "s = (m, w)" by fastforce
  from assms(1) have m: "mcs_slot_ok m" "mcs_consumer m = Some p" unfolding mcs_inv_def s by auto
  note renew = mcs_renew_inv [OF m(1)]
  show ?thesis
  proof (cases ev)
    case McStop
    with assms s m mcs_unset_inv [OF m(1)] show ?thesis
      unfolding mcs_inv_def by (auto simp: mcs_step_def split: if_splits)
  next
    case McCallClose
    with assms s m show ?thesis unfolding mcs_inv_def by (auto simp: mcs_step_def)
  next
    case (McUse f)
    with assms s m show ?thesis unfolding mcs_inv_def by (auto simp: mcs_step_def)
  qed (use assms s renew in \<open>auto simp: mcs_step_def split: if_splits\<close>)
qed

lemma mcs_loop_inv: "mcs_inv (McWatching p) s \<Longrightarrow> mcs_loop pc evs p s = (st, s') \<Longrightarrow> mcs_inv st s'"
proof (induction evs arbitrary: p s)
  case (Cons ev evs)
  obtain s1 w1 where step: "mcs_step pc ev p s = (s1, w1)" by (metis prod.collapse)
  note inv = mcs_step_inv [OF Cons.prems(1) step]
  show ?case
  proof (cases s1)
    case (McWatching p1)
    with Cons.IH inv Cons.prems(2) step show ?thesis by simp
  qed (use Cons.prems(2) step inv in simp_all)
qed simp

lemma NewManagedConsumer_ok:
  "mcs_slot_ok (fst (NewManagedConsumer cfg w)) \<and> mcs_consumer (fst (NewManagedConsumer cfg w)) = None"
  by (simp add: NewManagedConsumer_def slot_ok_def Let_def)

section \<open>Lemmas on flow control\<close>

text \<open>
  The balance of \<open>ReceiveAsync\<close> itself, from its actions: the permits it has asked for since it took up
  the current consumer, less the messages it has taken from the queue since and the signals of dropped
  ones. It is not what the broker has left to send: messages still in the queue have used permits too,
  and others may ask for permits.
\<close>

fun outstanding :: "ra_act list \<Rightarrow> int" where
  "outstanding [] = 0"
| "outstanding (ActStart n # acts) = uint n"
| "outstanding (ActFlow n # acts) = outstanding acts + uint n"
| "outstanding (ActMsg # acts) = outstanding acts - 1"
| "outstanding (ActOverflow # acts) = outstanding acts - 1"
| "outstanding (ActDrained # acts) = outstanding acts"

fun overflowed :: "ra_act list \<Rightarrow> bool" where
  "overflowed [] = False"
| "overflowed (ActStart _ # acts) = False"
| "overflowed (ActOverflow # acts) = True"
| "overflowed (_ # acts) = overflowed acts"

definition flow_inv :: "u32 \<Rightarrow> ra_state \<Rightarrow> bool" where
  "flow_inv highwater s =
     (case ra_phase s of
        RaSelect p n \<Rightarrow>
          0 < highwater \<and> word_of_int (outstanding (ra_acts s)) = highwater - n \<and>
          (overflowed (ra_acts s) \<or> n < highwater \<and> outstanding (ra_acts s) = uint highwater - uint n)
      | RaReflow p n \<Rightarrow>
          0 < highwater \<and> word_of_int (outstanding (ra_acts s)) = highwater - n \<and> highwater \<le> n \<and>
          (overflowed (ra_acts s) \<or> n = highwater \<and> outstanding (ra_acts s) = 0)
      | _ \<Rightarrow> True)"

lemma Consumer_Flow_pos: "Consumer_Flow S n c w = (None, w') \<Longrightarrow> 0 < n"
  by (auto simp: Consumer_Flow_def word_gt_0 split: if_splits)

lemma uint_Suc:
  assumes "n < (m :: u32)"
  shows "uint (n + 1) = uint n + 1"
proof -
  have "uint n + 1 < 2 ^ 32" using assms uint_lt2p [of m] by (simp add: word_less_def)
  then show ?thesis by (simp add: uint_word_ariths mod_pos_pos_trivial)
qed

lemma flow_inv_flow:
  assumes "flow_inv highwater s"
    and "ra_phase s = RaFlow p \<and> n = highwater \<and> act = ActStart n \<or> ra_phase s = RaReflow p n \<and> act = ActFlow n"
  shows "flow_inv highwater (ra_flow pc n p act s)"
proof (cases "\<exists>w1. with_client (fst p) (Consumer_Flow (conn_sender pc) n (snd p)) (snd (ra_world s)) = (None, w1)")
  case True
  then obtain cl cl' :: "Conn Client" where "Consumer_Flow (conn_sender pc) n (snd p) cl = (None, cl')"
    by (auto simp: with_client_def split: prod.splits)
  then have "0 < n" by (rule Consumer_Flow_pos)
  with True assms show ?thesis
    by (auto simp: flow_inv_def ra_flow_def word_less_def split: prod.splits)
next
  case False
  then show ?thesis by (auto simp: flow_inv_def ra_flow_def split: prod.splits option.splits)
qed

lemma flow_inv_msg:
  assumes "flow_inv highwater s" "ra_phase s = RaSelect p n"
  shows "flow_inv highwater (ra_forward msg q (if n + 1 \<ge> highwater then RaReflow p (n + 1) else RaSelect p (n + 1)) ActMsg s)"
proof -
  have hw: "0 < highwater" "word_of_int (outstanding (ra_acts s)) = highwater - n"
    "overflowed (ra_acts s) \<or> n < highwater \<and> outstanding (ra_acts s) = uint highwater - uint n"
    using assms by (simp_all add: flow_inv_def)
  have out: "word_of_int (outstanding (ra_acts s) - 1) = highwater - (n + 1)"
    by (simp add: hw(2) wi_hom_sub [symmetric])
  have eq: "n + 1 = highwater" if "n < highwater" "highwater \<le> n + 1"
    using that uint_Suc [OF that(1)] by (simp add: word_le_def word_less_def word_uint_eq_iff)
  show ?thesis
    using hw(1,3) out eq uint_Suc [of n highwater] by (auto simp: flow_inv_def ra_forward_def)
qed

lemma flow_inv_step:
  assumes "flow_inv highwater s"
  shows "flow_inv highwater (ra_step pc highwater ev s)"
proof (cases ev)
  case RaGo
  show ?thesis
  proof (cases "ra_phase s")
    case (RaFlow p)
    with RaGo flow_inv_flow [OF assms, of p highwater] show ?thesis by (simp add: ra_step_def ra_go_def)
  next
    case (RaReflow p n)
    with RaGo flow_inv_flow [OF assms, of p n] show ?thesis by (simp add: ra_step_def ra_go_def)
  qed (use RaGo assms in \<open>auto simp: ra_step_def ra_go_def flow_inv_def ra_forward_def split: option.splits prod.splits\<close>)
next
  case (RaCase sel)
  show ?thesis
  proof (cases "\<exists>p n. ra_phase s = RaSelect p n \<and> sel = SelMsg")
    case True
    then obtain p n where pn: "ra_phase s = RaSelect p n" "sel = SelMsg" by blast
    show ?thesis
    proof (cases "try_recv (mcs_messages (ra_world s))")
      case (Some r)
      then have "ra_step pc highwater ev s = ra_forward (fst r) (snd r)
          (if n + 1 \<ge> highwater then RaReflow p (n + 1) else RaSelect p (n + 1)) ActMsg s"
        using pn RaCase by (cases r) (simp add: ra_step_def ra_case_def)
      with flow_inv_msg [OF assms pn(1)] show ?thesis by (simp only:)
    qed (use assms pn RaCase in \<open>simp add: ra_step_def ra_case_def\<close>)
  next
    case False
    with RaCase assms show ?thesis
      by (auto simp: ra_step_def ra_case_def flow_inv_def ra_restart_def wi_hom_sub [symmetric]
          split: ra_phase.splits ra_select.splits option.splits)
  qed
next
  case (RaOther f)
  with assms show ?thesis by (cases "ra_phase s") (simp_all add: ra_step_def flow_inv_def)
qed

lemma fold_inv: "(\<And>x s. P s \<Longrightarrow> P (f x s)) \<Longrightarrow> P s \<Longrightarrow> P (fold f xs s)"
  by (induction xs arbitrary: s) simp_all

text \<open>The others only put messages into the queue: nobody else takes one out.\<close>

definition only_sends :: "(mcs_world \<Rightarrow> mcs_world) \<Rightarrow> bool" where
  "only_sends f \<longleftrightarrow> (\<forall>s. mcs_queue (fst (f s)) = mcs_queue (fst s) \<and> length (wd_queues (snd s)) \<le> length (wd_queues (snd (f s))) \<and>
     ch_taken (mcs_messages (f s)) = ch_taken (mcs_messages s) \<and>
     (\<exists>sent. ch_buf (mcs_messages (f s)) = ch_buf (mcs_messages s) @ sent))"

definition forward_inv :: "mcs_world \<Rightarrow> ra_state \<Rightarrow> bool" where
  "forward_inv s0 s \<longleftrightarrow>
     mcs_queue (fst (ra_world s)) < length (wd_queues (snd (ra_world s))) \<and>
     ch_taken (mcs_messages (ra_world s)) = ch_taken (mcs_messages s0) @ ra_out s \<and>
     (\<exists>sent. ra_out s @ ch_buf (mcs_messages (ra_world s)) = ch_buf (mcs_messages s0) @ sent)"

lemma st_Queues_Flow [simp]: "st_Queues (snd (Consumer_Flow S n i w)) = st_Queues w"
  by (simp add: Consumer_Flow_def)

lemma with_client_queues:
  "wd_queues (snd (with_client c f w)) = st_Queues (snd (f ((wd_clients w ! c)\<lparr>st_Queues := wd_queues w\<rparr>)))"
  by (simp add: with_client_def split: prod.split)

lemma with_client_Flow_queues:
  assumes "with_client c (Consumer_Flow S n i) w = (e, w')"
  shows "wd_queues w' = wd_queues w"
  using with_client_queues [of c "Consumer_Flow S n i" w] assms by simp

lemma mcs_messages_cong:
  "wd_queues (snd s) = wd_queues (snd s') \<Longrightarrow> mcs_queue (fst s) = mcs_queue (fst s') \<Longrightarrow> mcs_messages s = mcs_messages s'"
  by (simp add: mcs_messages_def)

lemma mcs_async_err_queue [simp]: "mcs_queue (fst (ManagedConsumer_async_err e s)) = mcs_queue (fst s)"
  by (simp add: ManagedConsumer_async_err_def split: prod.splits)

lemma mcs_messages_upd:
  "mcs_queue (fst s) < length (wd_queues (snd s)) \<Longrightarrow> mcs_messages (upd_messages q s) = q"
  "mcs_queue (fst (upd_messages q s)) = mcs_queue (fst s)"
  "length (wd_queues (snd (upd_messages q s))) = length (wd_queues (snd s))"
  by (cases s; simp add: mcs_messages_def upd_messages_def)+

lemma forward_inv_cong:
  "forward_inv s0 s \<Longrightarrow> ra_out s' = ra_out s \<Longrightarrow> wd_queues (snd (ra_world s')) = wd_queues (snd (ra_world s)) \<Longrightarrow>
   mcs_queue (fst (ra_world s')) = mcs_queue (fst (ra_world s)) \<Longrightarrow> forward_inv s0 s'"
  using mcs_messages_cong [of "ra_world s'" "ra_world s"] by (simp add: forward_inv_def)

lemma forward_inv_forward:
  assumes "forward_inv s0 s" "try_recv (mcs_messages (ra_world s)) = Some (msg, q)"
  shows "forward_inv s0 (ra_forward msg q ph act s)"
  using assms by (auto simp: forward_inv_def ra_forward_def mcs_messages_upd try_recv_def split: list.splits)

lemma forward_inv_flow:
  assumes "forward_inv s0 s"
  shows "forward_inv s0 (ra_flow pc n p act s)"
  using assms
proof (rule forward_inv_cong)
  obtain m w where mw: "ra_world s = (m, w)" by fastforce
  obtain e w1 where wc: "with_client (fst p) (Consumer_Flow (conn_sender pc) n (snd p)) w = (e, w1)" by (metis prod.collapse)
  note eq = mw wc with_client_Flow_queues [OF wc]
  show "ra_out (ra_flow pc n p act s) = ra_out s"
    "wd_queues (snd (ra_world (ra_flow pc n p act s))) = wd_queues (snd (ra_world s))"
    "mcs_queue (fst (ra_world (ra_flow pc n p act s))) = mcs_queue (fst (ra_world s))"
    using eq by (cases e; simp add: ra_flow_def)+
qed

lemma forward_inv_other:
  assumes "forward_inv s0 s" "only_sends f"
  shows "forward_inv s0 (s\<lparr>ra_world := f (ra_world s)\<rparr>)"
proof -
  note f = assms(2) [unfolded only_sends_def, rule_format, of "ra_world s"]
  from f obtain sent where sent: "ch_buf (mcs_messages (f (ra_world s))) = ch_buf (mcs_messages (ra_world s)) @ sent" by blast
  from assms(1) obtain sent0 where "ra_out s @ ch_buf (mcs_messages (ra_world s)) = ch_buf (mcs_messages s0) @ sent0"
    by (auto simp: forward_inv_def)
  then have "ra_out s @ ch_buf (mcs_messages (f (ra_world s))) = ch_buf (mcs_messages s0) @ sent0 @ sent"
    using sent by (metis append_assoc)
  with f assms(1) show ?thesis by (auto simp: forward_inv_def)
qed

lemma forward_inv_step:
  assumes "forward_inv s0 s" "\<And>f. ev = RaOther f \<Longrightarrow> only_sends f"
  shows "forward_inv s0 (ra_step pc highwater ev s)"
proof (cases ev)
  case RaGo
  have *: "forward_inv s0 (s\<lparr>ra_phase := ph\<rparr>)" for ph using assms(1) by (rule forward_inv_cong) simp_all
  show ?thesis
    using RaGo assms(1) * forward_inv_forward [OF assms(1)] forward_inv_flow [OF assms(1)]
    by (simp add: ra_step_def ra_go_def split: ra_phase.split option.split prod.split)
next
  case (RaCase sel)
  have *: "forward_inv s0 (s\<lparr>ra_phase := ph\<rparr>)" "forward_inv s0 (s\<lparr>ra_phase := ph, ra_acts := as\<rparr>)"
    "forward_inv s0 (ra_restart e s)" for ph as e
    using assms(1) by (rule forward_inv_cong; simp add: ra_restart_def)+
  show ?thesis
    using RaCase assms(1) * forward_inv_forward [OF assms(1)]
    by (simp add: ra_step_def ra_case_def split: ra_phase.split ra_select.split option.split prod.split)
next
  case (RaOther f)
  with forward_inv_other [OF assms(1) assms(2)] show ?thesis by (simp add: ra_step_def)
qed

section \<open>Lemmas on handing over\<close>

lemma hand_over_overflow:
  assumes "fst new < length (wd_clients w)" "snd new < length (st_Consumers (wd_clients w ! fst new))"
  shows "Consumer_Overflow (the_mcs_consumer new (hand_over old new w)) = Consumer_Overflow (the_mcs_consumer old w)"
    "old \<noteq> new \<Longrightarrow> the_mcs_consumer old (hand_over old new w) = the_mcs_consumer old w"
    "length (wd_clients (hand_over old new w)) = length (wd_clients w)"
    "length (st_Consumers (wd_clients (hand_over old new w) ! fst new)) = length (st_Consumers (wd_clients w ! fst new))"
proof -
  have o: "Consumer_Overflow (the_mcs_consumer old (w\<lparr>wd_clients := (wd_clients w)[fst new := upd_Consumer (snd new)
      (\<lambda>x. x\<lparr>Consumer_OverflowSignal := sg\<rparr>) (wd_clients w ! fst new)]\<rparr>)) = Consumer_Overflow (the_mcs_consumer old w)" for sg
    using assms by (auto simp: the_mcs_consumer_def nth_list_update upd_Consumer_def)
  show "Consumer_Overflow (the_mcs_consumer new (hand_over old new w)) = Consumer_Overflow (the_mcs_consumer old w)"
    using assms by (simp add: hand_over_def Let_def o) (simp add: the_mcs_consumer_def)
  show "old \<noteq> new \<Longrightarrow> the_mcs_consumer old (hand_over old new w) = the_mcs_consumer old w"
    using assms by (cases old; cases new) (auto simp: hand_over_def the_mcs_consumer_def nth_list_update upd_Consumer_def)
  show "length (wd_clients (hand_over old new w)) = length (wd_clients w)"
    "length (st_Consumers (wd_clients (hand_over old new w) ! fst new)) = length (st_Consumers (wd_clients w ! fst new))"
    using assms by (simp_all add: hand_over_def)
qed

lemma hand_over_length:
  "length (wd_clients (hand_over old new w)) = length (wd_clients w)"
  "length (st_Consumers (wd_clients (hand_over old new w) ! fst new)) = length (st_Consumers (wd_clients w ! fst new))"
  by (cases "fst new < length (wd_clients w)"; simp add: hand_over_def list_update_beyond)+

text \<open>
  While a consumer is being replaced, clients and consumers may be added to the pool and messages may
  be dropped, but no dropped message is forgotten: \<open>grown\<close> relates the consumers of a client before
  and after, \<open>pool_grown\<close> the clients of the pool.
\<close>

definition grown :: "Consumer list \<Rightarrow> Consumer list \<Rightarrow> bool" where
  "grown xs ys \<longleftrightarrow> length xs \<le> length ys \<and>
     (\<forall>i < length xs. prefix (Consumer_Overflow (xs ! i)) (Consumer_Overflow (ys ! i)))"

definition pool_grown :: "ClientPool \<Rightarrow> ClientPool \<Rightarrow> bool" where
  "pool_grown w w' \<longleftrightarrow> length (wd_clients w) \<le> length (wd_clients w') \<and>
     (\<forall>c < length (wd_clients w). grown (st_Consumers (wd_clients w ! c)) (st_Consumers (wd_clients w' ! c)))"

definition attempt_grows :: "create_attempt \<Rightarrow> bool" where
  "attempt_grows a \<longleftrightarrow>
     (\<forall>n w. pool_grown w (lk_between (ca_rounds a n) w)) \<and>
     (\<forall>n w. \<forall>g \<in> set (lk_get (ca_rounds a n)). pool_grown w (fst (g w))) \<and>
     (\<forall>n v. grown (st_Consumers v) (st_Consumers (fst (lk_env (ca_rounds a n) v)))) \<and>
     (\<forall>w. \<forall>g \<in> set (ca_get a). pool_grown w (fst (g w))) \<and>
     (\<forall>v. grown (st_Consumers v) (st_Consumers (fst (ca_env a v))))"

fun event_attempts :: "mcs_event \<Rightarrow> create_attempt list" where
  "event_attempts (McEndOfTopic as) = as"
| "event_attempts (McClosed as) = as"
| "event_attempts (McConnClosed as) = as"
| "event_attempts _ = []"

lemma grown_refl [simp]: "grown xs xs"
  by (simp add: grown_def)

lemma grown_trans: "grown xs ys \<Longrightarrow> grown ys zs \<Longrightarrow> grown xs zs"
  unfolding grown_def by (meson less_le_trans order_trans prefix_order.trans)

lemma grown_snoc: "grown xs ys \<Longrightarrow> grown xs (ys @ [y])"
  by (auto simp: grown_def nth_append)

lemma pool_grown_refl [simp]: "pool_grown w w"
  by (simp add: pool_grown_def)

lemma pool_grown_trans: "pool_grown w v \<Longrightarrow> pool_grown v u \<Longrightarrow> pool_grown w u"
  unfolding pool_grown_def by (meson grown_trans less_le_trans order_trans)

lemma pool_grown_clients: "wd_clients v = wd_clients u \<Longrightarrow> pool_grown w v = pool_grown w u"
  by (simp add: pool_grown_def)

lemma pool_grown_with_client:
  assumes "pool_grown w v" "\<And>cl. grown (st_Consumers cl) (st_Consumers (snd (f cl)))"
  shows "pool_grown w (snd (with_client c f v))"
proof (rule pool_grown_trans [OF assms(1)])
  have "grown (st_Consumers (wd_clients v ! c)) (st_Consumers cl)" if "f ((wd_clients v ! c)\<lparr>st_Queues := wd_queues v\<rparr>) = (r, cl)" for r cl
    using assms(2) [of "(wd_clients v ! c)\<lparr>st_Queues := wd_queues v\<rparr>"] that by simp
  then have "grown (st_Consumers (wd_clients v ! d)) (st_Consumers ((wd_clients v)[c := cl] ! d))"
    if "f ((wd_clients v ! c)\<lparr>st_Queues := wd_queues v\<rparr>) = (r, cl)" "d < length (wd_clients v)" for r cl d
    using that by (cases "d = c") auto
  then show "pool_grown v (snd (with_client c f v))"
    by (auto simp: pool_grown_def with_client_def split: prod.split)
qed

lemma grown_request:
  fixes w :: "Conn Client"
  assumes "\<And>d. grown (st_Consumers w) (st_Consumers (snd (send (w\<lparr>ep_Dispatcher := d\<rparr>))))"
    and "\<And>v. grown (st_Consumers v) (st_Consumers (fst (env v)))" "\<And>wk v. st_Consumers (snd (handle wk v)) = st_Consumers v"
  shows "grown (st_Consumers w) (st_Consumers (snd (request k send env handle w)))"
  by (rule request_keeps [where P = "\<lambda>v. grown (st_Consumers w) (st_Consumers v)"])
    (use assms in \<open>auto intro: grown_trans\<close>)

lemma grown_LookupTopic:
  fixes w :: "Conn Client"
  assumes "\<And>v. grown (st_Consumers v) (st_Consumers (fst (env v)))"
  shows "grown (st_Consumers w) (st_Consumers (snd (Client_LookupTopic S env topic a w)))"
proof -
  have "grown (st_Consumers (snd (ep_Next w))) (st_Consumers (snd (Client_LookupTopic S env topic a w)))"
    unfolding Client_LookupTopic_def Discoverer_LookupTopic_def case_prod_beta
    by (rule grown_request) (simp_all add: assms)
  then show ?thesis by simp
qed

lemma grown_Subscribe:
  assumes "\<And>v. grown (st_Consumers v) (st_Consumers (fst (env v)))"
  shows "grown (st_Consumers w) (st_Consumers (snd (Pubsub_Subscribe S env topic sub subType pos queue (w :: Conn Client))))"
proof -
  let ?w = "(snd (ep_Next w))\<lparr>ps_ConsumerID := (ps_ConsumerID w)\<lparr>MonotonicID_ID := MonotonicID_ID (ps_ConsumerID w) + 1\<rparr>\<rparr>"
  have snt: "st_Consumers (snd (subscribe_send S id cmd topic cid queue c v)) = st_Consumers v @ [newConsumer topic cid queue]"
    for cmd cid c and v :: "Conn Client"
    using st_Consumers_ep(3) [of S cmd "subscribed topic cid queue c v"]
    by (cases "ep_send S cmd (subscribed topic cid queue c v)") (simp add: subscribe_send_def split: option.split)
  have "grown (st_Consumers ?w) (st_Consumers (snd (Pubsub_Subscribe S env topic sub subType pos queue w)))"
    unfolding Pubsub_Subscribe_request Let_def
    by (rule grown_request) (simp_all add: assms snt subscribe_handle_result grown_snoc)
  then show ?thesis by simp
qed

lemma grown_new:
  assumes "\<And>v. grown (st_Consumers v) (st_Consumers (fst (env v)))"
    and "f \<in> {Client_NewExclusiveConsumer, Client_NewFailoverConsumer, Client_NewSharedConsumer}"
  shows "grown (st_Consumers w) (st_Consumers (snd (f S env topic sub early queue (w :: Conn Client))))"
  using assms(2) grown_Subscribe [OF assms(1)]
  by (auto simp: Client_NewExclusiveConsumer_def Client_NewFailoverConsumer_def Client_NewSharedConsumer_def)

lemma pool_grown_Get:
  assumes "pool_grown w v" "\<And>u. pool_grown u (between u)"
  shows "pool_grown w (snd (ClientPool_Get between cfg v))"
proof -
  obtain mc u where g: "ClientPool_Get between cfg v = (mc, u)" by fastforce
  have "wd_clients u = wd_clients v \<or> wd_clients u = wd_clients (between v)"
    using g by (cases rule: ClientPool_Get_cases) simp_all
  with pool_grown_trans [OF assms(1) assms(2)] assms(1) g show ?thesis
    using pool_grown_clients [of u v w] pool_grown_clients [of u "between v" w] by auto
qed

lemma pool_grown_client:
  assumes "pool_grown w v" "\<And>g u. g \<in> set envs \<Longrightarrow> pool_grown u (fst (g u))"
  shows "pool_grown w (snd (pool_client mc envs v))"
  unfolding pool_client_def by (rule acquire_inv [where P = "pool_grown w"]) (use assms in \<open>auto intro: pool_grown_trans\<close>)

lemma pool_grown_lookup:
  assumes "pool_grown w v" "attempt_grows a"
  shows "pool_grown w (snd (lookup_once pc (ca_rounds a n) cfg topic auth v))"
proof -
  let ?rd = "ca_rounds a n"
  let ?g = "ClientPool_Get (lk_between ?rd) cfg v" and ?p = "\<lambda>g. pool_client (fst g) (lk_get ?rd) (snd g)"
  have p: "pool_grown w (snd (?p ?g))"
    by (intro pool_grown_client pool_grown_Get) (use assms in \<open>auto simp: attempt_grows_def\<close>)
  have "pool_grown w (snd (with_client c (Client_LookupTopic (conn_sender pc) (lk_env ?rd) topic auth) (snd (?p ?g))))" for c
    by (rule pool_grown_with_client [OF p]) (rule grown_LookupTopic, use assms(2) in \<open>simp add: attempt_grows_def\<close>)
  with p show ?thesis by (simp add: lookup_once_def case_prod_beta split: option.split sum.split)
qed

lemma pool_grown_ForTopic:
  assumes "attempt_grows a" "pool_grown w v"
  shows "pool_grown w (snd (snd (ForTopic_loop pc (ca_rounds a) addr topic left auth cfg v)))"
  using assms(2)
proof (induction left arbitrary: auth cfg v)
  case (Suc left)
  let ?l = "lookup_once pc (ca_rounds a left) cfg topic auth v"
  have l: "pool_grown w (snd ?l)" by (rule pool_grown_lookup [OF Suc.prems assms(1)])
  have "pool_grown w (snd (ClientPool_Get (lk_between (ca_rounds a left)) cfg' (snd ?l)))" for cfg'
    by (rule pool_grown_Get [OF l]) (use assms(1) in \<open>simp add: attempt_grows_def\<close>)
  with l Suc.IH [OF l] show ?case
    by (simp add: case_prod_beta Let_def split: option.split sum.split)
qed simp

lemma pool_grown_newConsumer:
  assumes "attempt_grows a" "pool_grown w (snd s)"
  shows "pool_grown w (snd (snd (ManagedConsumer_newConsumer pc a s)))"
proof -
  obtain m v where s: "s = (m, v)" by fastforce
  let ?t = "topic_client pc a (ccfg_ClientConfig (mcs_cfg m)) (ccfg_Topic (mcs_cfg m)) v"
  have f: "pool_grown w (snd (snd (ClientPool_ForTopic pc (ca_rounds a) cfg topic v)))" for cfg topic
    unfolding ClientPool_ForTopic_def using pool_grown_ForTopic [OF assms(1)] assms(2) s by simp
  have "pool_grown w (snd (pool_client mc (ca_get a) (snd (snd (ClientPool_ForTopic pc (ca_rounds a) cfg topic v)))))"
    for mc cfg topic
    by (rule pool_grown_client [OF f]) (use assms(1) in \<open>simp add: attempt_grows_def\<close>)
  with f have t: "pool_grown w (snd ?t)"
    by (simp add: topic_client_def case_prod_beta split: option.split sum.split)
  have env: "grown (st_Consumers v) (st_Consumers (fst (ca_env a v)))" for v
    using assms(1) by (simp add: attempt_grows_def)
  have "pool_grown w (snd (with_client c (f (conn_sender pc) (ca_env a) topic sub early queue) (snd ?t)))"
    if "f \<in> {Client_NewExclusiveConsumer, Client_NewFailoverConsumer, Client_NewSharedConsumer}" for f c topic sub early queue
    by (rule pool_grown_with_client [OF t]) (rule grown_new [OF env that])
  with t show ?thesis
    by (simp add: s ManagedConsumer_newConsumer_def Let_def case_prod_beta split: option.split sum.split)
qed

lemma pool_grown_reconnect:
  assumes "\<And>a. a \<in> set as \<Longrightarrow> attempt_grows a" "ManagedConsumer_reconnect pc as initial s = (r, ds, s')"
  shows "pool_grown (snd s) (snd s')"
  by (rule retry_loop_inv [where P = "\<lambda>x. pool_grown (snd s) (snd x)", OF _ _ _ assms(2) [unfolded ManagedConsumer_reconnect_def]])
    (use assms(1) in \<open>simp_all add: pool_grown_newConsumer\<close>)

lemma mcs_renew_handed:
  assumes "mcs_slot_ok m" "mcs_renew pc as old (m, w) = (McWatching new, m', w')"
  obtains w1 where "w' = hand_over old new w1" "mcs_consumer m' = Some new"
    "(\<And>a. a \<in> set as \<Longrightarrow> attempt_grows a) \<Longrightarrow> pool_grown w w1"
proof -
  obtain r ds m1 w1 where r: "ManagedConsumer_reconnect pc as False (ManagedConsumer_unset m, w) = (r, ds, m1, w1)"
    by (metis prod_cases4)
  note m1 = managed_consumer_slot.make_inv [of "ManagedConsumer_unset m" pc "(as, False)" w r ds m1 w1]
  with r mcs_unset_inv [OF assms(1)] have ok: "mcs_slot_ok m1" by auto
  from assms(2) r obtain p where p: "r = Some p" and put: "mcs_put p (m1, hand_over old p w1) = (McWatching new, m', w')"
    by (auto simp: mcs_renew_def split: option.splits)
  from mcs_put_inv [OF ok put] have "p = new" "w' = hand_over old new w1" "mcs_consumer m' = Some new"
    by (auto simp: mcs_inv_def)
  then show thesis using pool_grown_reconnect [OF _ r] by (intro that [of w1]) auto
qed

lemma mcs_use_now:
  assumes "mcs_consumer m = Some (c, i)"
  shows "mcs_use [] f (m, w) = (Some (Inr (fst (with_client c (f i) w))), (m, snd (with_client c (f i) w)))"
  using assms by (simp add: mcs_use_def acquire_obj split: prod.split)

lemma RedeliverOverflow_count:
  assumes "Consumer_RedeliverOverflow S i w = ((n, e), w')"
  shows "e = None \<longrightarrow> n = length (Consumer_Overflow (the_Consumer i w))"
  using assms by (auto simp: Consumer_RedeliverOverflow_def Let_def split: if_splits prod.splits option.splits)

section \<open>Properties\<close>

text \<open>
  C23. The goroutine that manages a consumer, through any sequence of failed and successful attempts to
  create one, of closed consumers, closed connections and ends of topic, and of calls of \<open>Close\<close>: it
  never panics, exactly one of the consumer and the wait channel is set, and a consumer is set exactly
  while it is being watched; once stopped, there is none.
\<close>

theorem managed_consumer_manage:
  "case ManagedConsumer_manage pc as evs (NewManagedConsumer cfg w) of
     (st, m, w') \<Rightarrow> slot_ok (mcs_consumer m) (mcs_waitc m) (mcs_next m) (mcs_closed m) \<and>
       (case st of McWatching p \<Rightarrow> mcs_consumer m = Some p | McPanic _ \<Rightarrow> False | _ \<Rightarrow> mcs_consumer m = None)"
proof -
  obtain m0 w0 where new: "NewManagedConsumer cfg w = (m0, w0)" by fastforce
  with NewManagedConsumer_ok [of cfg w] have m0: "mcs_slot_ok m0" "mcs_consumer m0 = None" by auto
  obtain r ds m1 w1 where r: "ManagedConsumer_reconnect pc as True (m0, w0) = (r, ds, m1, w1)" by (metis prod_cases4)
  with managed_consumer_slot.make_inv [of m0 pc "(as, True)" w0 r ds m1 w1] m0
  have m1: "mcs_slot_ok m1" "mcs_consumer m1 = None" by auto
  obtain st s' where res: "ManagedConsumer_manage pc as evs (m0, w0) = (st, s')" by (metis prod.collapse)
  have "mcs_inv st s'"
  proof (cases r)
    case None
    with res r m1 show ?thesis unfolding mcs_inv_def by (auto simp: ManagedConsumer_manage_def)
  next
    case (Some p)
    obtain s2 x where put: "mcs_put p (m1, w1) = (s2, x)" by (metis prod.collapse)
    from mcs_put_inv [OF m1(1) put] have "mcs_inv (McWatching p) x" "s2 = McWatching p" by auto
    with mcs_loop_inv [of p x pc evs st s'] res r Some put show ?thesis by (simp add: ManagedConsumer_manage_def)
  qed
  with res new show ?thesis unfolding mcs_inv_def by (auto split: prod.split mcs_state.splits)
qed


text \<open>
  The balance of \<open>ReceiveAsync\<close>, however it is interleaved with the others: while it waits for a
  message, the permits it has asked for and not yet seen used are the high-water mark less the messages
  counted since its last FLOW (as 32-bit numbers); as long as no message has been dropped since the
  consumer was taken up, they are at least one and at most half of what the queue holds.
\<close>

theorem receive_async_flow:
  assumes "ra_phase (ManagedConsumer_ReceiveAsync pc evs s) = RaSelect p n"
  shows "word_of_int (outstanding (ra_acts (ManagedConsumer_ReceiveAsync pc evs s))) = ra_highwater s - n \<and>
    (overflowed (ra_acts (ManagedConsumer_ReceiveAsync pc evs s)) \<or>
     1 \<le> outstanding (ra_acts (ManagedConsumer_ReceiveAsync pc evs s)) \<and>
     outstanding (ra_acts (ManagedConsumer_ReceiveAsync pc evs s)) \<le> int (ch_cap (mcs_messages s) div 2))"
proof -
  let ?r = "ManagedConsumer_ReceiveAsync pc evs s" and ?hw = "ra_highwater s"
  have inv: "flow_inv ?hw ?r"
    unfolding ManagedConsumer_ReceiveAsync_def
    by (rule fold_inv [where P = "flow_inv ?hw"]) (simp_all add: flow_inv_step, simp add: flow_inv_def)
  have cap: "uint ?hw \<le> int (ch_cap (mcs_messages s) div 2)"
    by (simp add: ra_highwater_def uint_div unsigned_of_nat take_bit_nat_eq_self zdiv_int take_bit_eq_mod zmod_le_nonneg_dividend zdiv_mono1)
  have "1 \<le> uint ?hw - uint n" "uint ?hw - uint n \<le> int (ch_cap (mcs_messages s) div 2)" if "n < ?hw"
    using that cap uint_ge_0 [of n] by (unfold word_less_def) linarith+
  then show ?thesis
    using inv assms by (auto simp: flow_inv_def)
qed

text \<open>
  C13. \<open>ReceiveAsync\<close> forwards every message of the queue exactly once and in order, however it is
  interleaved with goroutines that put messages into the queue, and through any number of lost
  consumers and errors: what it has forwarded, followed by what is still in the queue, is what was in
  the queue when it started, followed by what has been put in since.
\<close>

theorem receive_async_forwards:
  assumes "mcs_queue (fst s) < length (wd_queues (snd s))" "\<forall>f. RaOther f \<in> set evs \<longrightarrow> only_sends f"
    and "ManagedConsumer_ReceiveAsync pc evs s = r"
  shows "ch_taken (mcs_messages (ra_world r)) = ch_taken (mcs_messages s) @ ra_out r \<and>
    (\<exists>sent. ra_out r @ ch_buf (mcs_messages (ra_world r)) = ch_buf (mcs_messages s) @ sent)"
proof -
  have "forward_inv s (fold (ra_step pc hw) evs st)"
    if "forward_inv s st" "\<And>f. RaOther f \<in> set evs \<Longrightarrow> only_sends f" for hw st evs
    using that
  proof (induction evs arbitrary: st)
    case (Cons ev evs)
    from Cons.IH [OF forward_inv_step [OF Cons.prems(1)]] Cons.prems(2) show ?case by simp
  qed simp
  from this [of "\<lparr>ra_phase = RaDrain, ra_world = s, ra_out = [], ra_acts = []\<rparr>" evs "ra_highwater s"] assms
  show ?thesis by (auto simp: ManagedConsumer_ReceiveAsync_def forward_inv_def)
qed

section \<open>Witnesses\<close>

text \<open>
  A codec that encodes every command but requests of redelivery, of which it encodes and decodes one,
  a client with one consumer over a connection that works, and a managed consumer with a queue of four.
\<close>

definition demo_redelivery :: BaseCommand where
  "demo_redelivery = Consumer_redeliver_cmd 0 [None, None]"

definition asks_again :: "BaseCommand \<Rightarrow> bool" where
  "asks_again cmd \<longleftrightarrow> BaseCommand_Type cmd = Some BaseCommand_REDELIVER_UNACKNOWLEDGED_MESSAGES"

definition demo_any_proto :: proto where
  "demo_any_proto = demo_proto\<lparr>
     Marshal_BaseCommand := (\<lambda>c. case c of
         None \<Rightarrow> Inr [1]
       | Some cmd \<Rightarrow> if asks_again cmd \<and> cmd \<noteq> demo_redelivery then Inl (ErrProto ''unsupported'') else Inr [1]),
     Unmarshal_BaseCommand := (\<lambda>_. (demo_redelivery, None))\<rparr>"

definition demo_sub_client :: "Conn Client" where
  "demo_sub_client = demo_pair_client\<lparr>st_Consumers := [newConsumer ''t'' 0 0]\<rparr>"

definition demo_msg :: Message where
  "demo_msg = \<lparr>Message_Topic = ''t'', Message_ConsumerID = 0, Message_Msg = None, Message_Meta = None, Message_Payload = []\<rparr>"

definition demo_consumer_cfg :: ConsumerConfig where
  "demo_consumer_cfg = \<lparr>ccfg_ClientConfig = demo_cfg, ccfg_Topic = ''t'', ccfg_Name = ''s'',
     ccfg_SubMode = SubscriptionModeShard, ccfg_Earliest = False, ccfg_QueueSize = 4, ccfg_NewConsumerTimeout = 0,
     ccfg_InitialReconnectDelay = 0, ccfg_MaxReconnectDelay = 0\<rparr>"

definition demo_mcs :: mcs_world where
  "demo_mcs = ((fst (NewManagedConsumer demo_consumer_cfg NewClientPool))\<lparr>mcs_consumer := Some (0, 0), mcs_waitc := None\<rparr>,
     NewClientPool\<lparr>wd_clients := [demo_sub_client], wd_queues := [(make_chan 4)\<lparr>ch_buf := [demo_msg]\<rparr>]\<rparr>)"

definition demo_put :: "mcs_world \<Rightarrow> mcs_world" where
  "demo_put s = upd_messages ((mcs_messages s)\<lparr>ch_buf := ch_buf (mcs_messages s) @ [demo_msg]\<rparr>) s"

definition demo_ra_evs :: "ra_event list" where
  "demo_ra_evs = [RaGo, RaGo, RaGo, RaGo, RaOther demo_put, RaCase SelMsg]"

lemma demo_any_send:
  "\<not> asks_again cmd \<or> cmd = demo_redelivery \<Longrightarrow> Conn_SendSimpleCmd demo_any_proto cmd (ep_S demo_pair_client) =
     (None, snd (Conn_SendSimpleCmd demo_any_proto cmd (ep_S demo_pair_client)))"
  by (auto simp: Conn_SendSimpleCmd_def writeFrame_buf_def demo_pair_client_def new_Client_def demo_any_proto_def
        demo_proto_def Write_def new_buffer_def Frame_Encode_def simple_frame_def Let_def Frame_totalSize_def MaxFrameSize_def demo_conn_def new_Conn_def split: prod.splits option.splits)

lemma demo_flow:
  assumes "0 < n" "ep_S w = ep_S demo_pair_client"
  shows "\<exists>cl. Consumer_Flow (conn_sender demo_any_proto) n i w = (None, w\<lparr>ep_S := cl\<rparr>)"
  using demo_any_send [of "Consumer_flow_cmd (Consumer_ConsumerID (the_Consumer i w)) n"] assms
  by (auto simp: asks_again_def Consumer_flow_cmd_def Consumer_Flow_def ep_send_def conn_sender_def word_gt_0 split: prod.split)

lemma demo_ra_run:
  "\<exists>w. ManagedConsumer_ReceiveAsync demo_any_proto demo_ra_evs demo_mcs =
    \<lparr>ra_phase = RaSelect (0, 0) 1, ra_world = (fst demo_mcs, w), ra_out = [demo_msg, demo_msg],
     ra_acts = [ActMsg, ActStart 2, ActDrained]\<rparr> \<and>
    wd_queues w = [(make_chan 4)\<lparr>ch_taken := [demo_msg, demo_msg]\<rparr>]"
proof -
  obtain cl where flow: "Consumer_Flow (conn_sender demo_any_proto) 2 0
      (demo_sub_client\<lparr>st_Queues := [(make_chan 4)\<lparr>ch_taken := [demo_msg]\<rparr>]\<rparr>) =
     (None, (demo_sub_client\<lparr>st_Queues := [(make_chan 4)\<lparr>ch_taken := [demo_msg]\<rparr>]\<rparr>)\<lparr>ep_S := cl\<rparr>)"
    using demo_flow [of 2 "demo_sub_client\<lparr>st_Queues := [(make_chan 4)\<lparr>ch_taken := [demo_msg]\<rparr>]\<rparr>" 0]
    by (auto simp: demo_sub_client_def)
  have hw: "ra_highwater demo_mcs = 2"
    by (simp add: ra_highwater_def mcs_messages_def demo_mcs_def NewManagedConsumer_def NewClientPool_def make_chan_def Let_def)
  have le: "\<not> (2 :: u32) \<le> 1" by (simp add: word_le_nat_alt)
  show ?thesis
    by (simp add: ManagedConsumer_ReceiveAsync_def hw demo_ra_evs_def)
      (simp add: ra_step_def ra_go_def mcs_messages_def upd_messages_def
        ra_forward_def demo_mcs_def NewManagedConsumer_def NewClientPool_def make_chan_def Let_def try_recv_def ra_flow_def
        with_client_def flow [unfolded make_chan_def, simplified] demo_put_def ra_case_def le)
qed

theorem receive_async_flow_witness:
  "outstanding (ra_acts (ManagedConsumer_ReceiveAsync demo_any_proto demo_ra_evs demo_mcs)) = 1 \<and>
   word_of_int (outstanding (ra_acts (ManagedConsumer_ReceiveAsync demo_any_proto demo_ra_evs demo_mcs))) =
     ra_highwater demo_mcs - 1"
  using receive_async_flow [of demo_any_proto demo_ra_evs demo_mcs "(0, 0)" 1] demo_ra_run by fastforce

lemma only_sends_put: "only_sends demo_put"
proof -
  have "mcs_queue (fst (demo_put (m, w))) = mcs_queue m \<and> length (wd_queues w) \<le> length (wd_queues (snd (demo_put (m, w)))) \<and>
      ch_taken (mcs_messages (demo_put (m, w))) = ch_taken (mcs_messages (m, w)) \<and>
      (\<exists>sent. ch_buf (mcs_messages (demo_put (m, w))) = ch_buf (mcs_messages (m, w)) @ sent)" for m w
    by (cases "mcs_queue m < length (wd_queues w)")
      (simp_all add: demo_put_def upd_messages_def mcs_messages_def list_update_beyond not_less)
  then show ?thesis by (auto simp: only_sends_def)
qed

theorem receive_async_forwards_witness:
  "ra_out (ManagedConsumer_ReceiveAsync demo_any_proto demo_ra_evs demo_mcs) = [demo_msg, demo_msg] \<and>
   ch_taken (mcs_messages (ra_world (ManagedConsumer_ReceiveAsync demo_any_proto demo_ra_evs demo_mcs))) = [demo_msg, demo_msg]"
proof -
  have q: "mcs_queue (fst demo_mcs) = 0" "wd_queues (snd demo_mcs) = [(make_chan 4)\<lparr>ch_buf := [demo_msg]\<rparr>]"
    by (simp_all add: demo_mcs_def NewManagedConsumer_def NewClientPool_def Let_def)
  have "\<forall>f. RaOther f \<in> set demo_ra_evs \<longrightarrow> only_sends f" using only_sends_put by (simp add: demo_ra_evs_def)
  from receive_async_forwards [OF _ this refl, of demo_mcs demo_any_proto] demo_ra_run show ?thesis
    by (auto simp: q mcs_messages_def make_chan_def)
qed

lemma demo_request:
  fixes w :: "Conn Client"
  assumes "disp_lookup k (ep_Dispatcher w) = None" "request k send env handle w = (r, w')"
    and "\<And>d. fst (send (w\<lparr>ep_Dispatcher := d\<rparr>)) = None"
  obtains h d w1 w2 wk w3 where "send (w\<lparr>ep_Dispatcher := d\<rparr>) = (None, w1)"
      "env (ep_disp (resp_await h) w1) = (w2, wk)" "handle wk (ep_disp (resp_leave h) w2) = (r, w3)"
      "w' = ep_disp (disp_cancel k h) w3"
  using assms(1,2)
proof (cases rule: request_cases)
  case (failed h d e w1)
  with assms(3) [of d] show ?thesis by simp
next
  case (answered h d w1 w2 wk w3)
  then show ?thesis by (rule that)
qed

text \<open>A broker that answers a lookup, and one that accepts a subscription.\<close>

definition demo_answer_env :: "Conn Client \<Rightarrow> Conn Client \<times> wake" where
  "demo_answer_env c = (c\<lparr>ep_S := ep_S demo_pair_client, ep_Dispatcher := NewFrameDispatcher\<rparr>, WakeResp demo_lookup_answer)"

lemma disp_cancel_new: "disp_lookup k' (disp_cancel k h (resp_leave h NewFrameDispatcher)) = None"
  by (cases k; cases k') (auto simp: NewFrameDispatcher_def resp_leave_def cancelGlobal_def cancelReqID_def cancelProdSeqIDs_def Let_def)

lemma demo_ep_send:
  assumes "ep_S w = ep_S demo_pair_client" "\<not> asks_again cmd"
  shows "\<exists>c. ep_send (conn_sender demo_any_proto) cmd w = (None, w\<lparr>ep_S := c\<rparr>)"
  using demo_any_send [of cmd] assms by (auto simp: ep_send_def conn_sender_def split: prod.splits)

lemma demo_any_lookup:
  fixes w :: "Conn Client"
  assumes "ep_S w = ep_S demo_pair_client" "ep_Dispatcher w = NewFrameDispatcher"
    and "Client_LookupTopic (conn_sender demo_any_proto) demo_answer_env topic a w = (r, w')"
  shows "r = Inr (BaseCommand_GetLookupTopicResponse (Frame_BaseCmd demo_lookup_answer)) \<and>
    ep_S w' = ep_S demo_pair_client \<and> (\<forall>k. disp_lookup k (ep_Dispatcher w') = None) \<and>
    st_Consumers w' = st_Consumers w \<and> ps_ConsumerID w' = ps_ConsumerID w"
proof -
  let ?w = "snd (ep_Next w)" and ?k = "KReq (fst (ep_Next w))"
  let ?send = "ep_send (conn_sender demo_any_proto) (Discoverer_lookup_cmd (fst (ep_Next w)) topic a)"
  have w: "ep_S ?w = ep_S w" "ep_Dispatcher ?w = ep_Dispatcher w" "st_Consumers ?w = st_Consumers w"
    "ps_ConsumerID ?w = ps_ConsumerID w"
    by (simp_all add: ep_Next_def split: prod.split)
  have free: "disp_lookup ?k (ep_Dispatcher ?w) = None"
    using assms(2) w(2) by (simp add: NewFrameDispatcher_def)
  have snt: "\<exists>c. ?send (?w\<lparr>ep_Dispatcher := d\<rparr>) = (None, ?w\<lparr>ep_Dispatcher := d, ep_S := c\<rparr>)" for d
    using demo_ep_send [of "?w\<lparr>ep_Dispatcher := d\<rparr>"] assms(1) w(1)
    by (simp add: asks_again_def Discoverer_lookup_cmd_def)
  then have snt': "fst (?send (?w\<lparr>ep_Dispatcher := d\<rparr>)) = None" for d by (metis fst_conv)
  obtain h d w1 w2 wk w3 where run: "?send (?w\<lparr>ep_Dispatcher := d\<rparr>) = (None, w1)"
    "demo_answer_env (ep_disp (resp_await h) w1) = (w2, wk)"
    "(case wk of WakeCtx e \<Rightarrow> Inl (ErrCtx e) | WakeResp f \<Rightarrow> Inr (BaseCommand_GetLookupTopicResponse (Frame_BaseCmd f)),
        ep_disp (resp_leave h) w2) = (r, w3)"
    "w' = ep_disp (disp_cancel ?k h) w3"
    by (rule demo_request [OF free assms(3) [unfolded Client_LookupTopic_def Discoverer_LookupTopic_def case_prod_beta] snt'], rule that)
  obtain c where w1: "w1 = ?w\<lparr>ep_Dispatcher := d, ep_S := c\<rparr>" using snt [of d] run(1) by auto
  from run(2-4) w(3,4) show ?thesis
    using disp_cancel_new [of _ ?k h] by (auto simp: w1 demo_answer_env_def ep_disp_def)
qed

definition demo_ok_env :: "Conn Client \<Rightarrow> Conn Client \<times> wake" where
  "demo_ok_env c = (c\<lparr>ep_S := ep_S demo_pair_client\<rparr>, WakeResp (success_frame 0))"

lemma demo_any_subscribe:
  fixes w :: "Conn Client"
  assumes "ep_S w = ep_S demo_pair_client" "\<forall>k. disp_lookup k (ep_Dispatcher w) = None"
    and "Client_NewSharedConsumer (conn_sender demo_any_proto) demo_ok_env topic sub early queue w = (r, w')"
  shows "r = Inr (length (st_Consumers w)) \<and> ep_S w' = ep_S demo_pair_client \<and>
    st_Consumers w' = st_Consumers w @ [newConsumer topic (MonotonicID_ID (ps_ConsumerID w)) queue]"
proof -
  let ?rid = "MonotonicID_ID (ep_ReqID w)" and ?cid = "MonotonicID_ID (ps_ConsumerID w)" and ?c = "length (st_Consumers w)"
  let ?w = "(snd (ep_Next w))\<lparr>ps_ConsumerID := (ps_ConsumerID w)\<lparr>MonotonicID_ID := ?cid + 1\<rparr>\<rparr>"
  let ?send = "subscribe_send (conn_sender demo_any_proto) id (Pubsub_subscribe_cmd ?rid ?cid topic sub CommandSubscribe_Shared
      (initial_position early)) topic ?cid queue ?c"
  have w: "ep_S ?w = ep_S w" "ep_Dispatcher ?w = ep_Dispatcher w" "st_Consumers ?w = st_Consumers w"
    by (simp_all add: ep_Next_def split: prod.split)
  have free: "disp_lookup (KReq ?rid) (ep_Dispatcher ?w) = None" using assms(2) w(2) by simp
  have snt: "\<exists>c. ?send (?w\<lparr>ep_Dispatcher := d\<rparr>) = (None, (subscribed topic ?cid queue ?c (?w\<lparr>ep_Dispatcher := d\<rparr>))\<lparr>ep_S := c\<rparr>)" for d
  proof -
    let ?x = "subscribed topic ?cid queue ?c (?w\<lparr>ep_Dispatcher := d\<rparr>)"
    have "ep_S ?x = ep_S demo_pair_client" using assms(1) w(1) by simp
    have "\<not> asks_again (Pubsub_subscribe_cmd ?rid ?cid topic sub CommandSubscribe_Shared (initial_position early))"
      by (simp add: asks_again_def Pubsub_subscribe_cmd_def)
    from demo_ep_send [OF \<open>ep_S ?x = _\<close> this] obtain c where "ep_send (conn_sender demo_any_proto)
        (Pubsub_subscribe_cmd ?rid ?cid topic sub CommandSubscribe_Shared (initial_position early)) ?x = (None, ?x\<lparr>ep_S := c\<rparr>)" by blast
    then show ?thesis unfolding subscribe_send_def by (intro exI [of _ c]) simp
  qed
  then have snt': "fst (?send (?w\<lparr>ep_Dispatcher := d\<rparr>)) = None" for d by (metis fst_conv)
  have req: "request (KReq ?rid) ?send demo_ok_env (subscribe_handle ?rid ?c) ?w = (r, w')"
    using assms(3) by (simp add: Client_NewSharedConsumer_def Pubsub_Subscribe_request Let_def)
  obtain h d w1 w2 wk w3 where run: "?send (?w\<lparr>ep_Dispatcher := d\<rparr>) = (None, w1)"
    "demo_ok_env (ep_disp (resp_await h) w1) = (w2, wk)"
    "subscribe_handle ?rid ?c wk (ep_disp (resp_leave h) w2) = (r, w3)"
    "w' = ep_disp (disp_cancel (KReq ?rid) h) w3"
    by (rule demo_request [OF free req snt'], rule that)
  obtain c where w1: "w1 = (subscribed topic ?cid queue ?c (?w\<lparr>ep_Dispatcher := d\<rparr>))\<lparr>ep_S := c\<rparr>" using snt [of d] run(1) by auto
  have "BaseCommand_GetType (Frame_BaseCmd (success_frame 0)) = BaseCommand_SUCCESS"
    by (simp add: success_frame_def simple_frame_def BaseCommand_GetType_def get_field_def)
  then have "r = Inr ?c" "w3 = ep_disp (resp_leave h) ((ep_disp (resp_await h) w1)\<lparr>ep_S := ep_S demo_pair_client\<rparr>)"
    using run(2,3) by (auto simp: demo_ok_env_def subscribe_handle_def)
  with run(4) show ?thesis by (simp add: w1 w(3))
qed

text \<open>A consumer that was closed after it had dropped two messages, and the attempt that replaces it.\<close>

definition demo_dropped :: Consumer where
  "demo_dropped = (newConsumer ''t'' 0 0)\<lparr>Consumer_IsClosed := True, Consumer_Closedc := True, Consumer_Overflow := [None, None]\<rparr>"

definition demo_reconnect_attempt :: create_attempt where
  "demo_reconnect_attempt = \<lparr>ca_rounds = (\<lambda>_. \<lparr>lk_between = id, lk_get = [], lk_env = demo_answer_env\<rparr>), ca_get = [], ca_env = demo_ok_env\<rparr>"

definition demo_closed_pool :: ClientPool where
  "demo_closed_pool = \<lparr>wd_clients = [demo_pair_client\<lparr>st_Consumers := [demo_dropped]\<rparr>], wd_queues = [make_chan 4],
     wp_managed = [(NewManagedClient demo_cfg)\<lparr>mc_client := Some 0, mc_waitc := None\<rparr>],
     wp_pool = [ClientPool_key demo_cfg \<mapsto> 0], wp_removers = [(ClientPool_key demo_cfg, 0)]\<rparr>"

lemma demo_topic_client:
  obtains cl where "topic_client demo_any_proto demo_reconnect_attempt demo_cfg ''t'' demo_closed_pool =
      (Some (Inr 0), demo_closed_pool\<lparr>wd_clients := [cl], wd_queues := st_Queues cl\<rparr>)"
    "ep_S cl = ep_S demo_pair_client" "\<forall>k. disp_lookup k (ep_Dispatcher cl) = None" "st_Consumers cl = [demo_dropped]"
    "MonotonicID_ID (ps_ConsumerID cl) = 0"
proof -
  let ?resp = "BaseCommand_GetLookupTopicResponse (Frame_BaseCmd demo_lookup_answer)"
  let ?w = "demo_pair_client\<lparr>st_Consumers := [demo_dropped], st_Queues := [make_chan 4]\<rparr>"
  obtain r cl where look: "Client_LookupTopic (conn_sender demo_any_proto) demo_answer_env ''t'' False ?w = (r, cl)" by fastforce
  have "ep_Dispatcher ?w = NewFrameDispatcher" by (simp add: demo_pair_client_def new_Client_def)
  from demo_any_lookup [OF _ this look] have cl: "r = Inr ?resp" "ep_S cl = ep_S demo_pair_client"
    "\<forall>k. disp_lookup k (ep_Dispatcher cl) = None" "st_Consumers cl = [demo_dropped]" "MonotonicID_ID (ps_ConsumerID cl) = 0"
    by (simp_all add: demo_pair_client_def new_Client_def)
  let ?p = "demo_closed_pool\<lparr>wd_clients := [cl], wd_queues := st_Queues cl\<rparr>"
  have get: "ClientPool_Get id cfg' demo_closed_pool = (0, demo_closed_pool)" "ClientPool_Get id cfg' ?p = (0, ?p)"
    if "ClientPool_key cfg' = ClientPool_key demo_cfg" for cfg'
    using that by (simp_all add: ClientPool_Get_def demo_closed_pool_def Let_def)
  have once: "lookup_once demo_any_proto (ca_rounds demo_reconnect_attempt 7) demo_cfg ''t'' False demo_closed_pool = (Some (Inr ?resp), ?p)"
    using get(1) look cl(1)
    by (simp add: lookup_once_def demo_reconnect_attempt_def pool_client_def acquire_obj with_client_def) 
      (simp add: demo_closed_pool_def acquire_obj with_client_def)
  have resp: "CommandLookupTopicResponse_GetResponse ?resp = CommandLookupTopicResponse_Connect"
    "broker_url demo_cfg ?resp = cfg_Addr demo_cfg" "\<not> CommandLookupTopicResponse_GetProxyThroughServiceUrl ?resp"
    by (simp_all add: demo_lookup_answer_def Server_lookup_frame_def simple_frame_def BaseCommand_GetLookupTopicResponse_def
        CommandLookupTopicResponse_GetResponse_def CommandLookupTopicResponse_GetBrokerServiceUrl_def broker_url_def
        CommandLookupTopicResponse_GetProxyThroughServiceUrl_def demo_cfg_def get_field_def)
  have "ClientPool_ForTopic demo_any_proto (ca_rounds demo_reconnect_attempt) demo_cfg ''t'' demo_closed_pool =
      (Some (Inr 0), [(cfg_Addr demo_cfg, False, Inr ?resp)], ?p)"
    unfolding ClientPool_ForTopic_def maxTopicLookupRedirects_Suc ForTopic_loop.simps Let_def once
    using resp get(2) by (simp add: demo_reconnect_attempt_def)
  then have "topic_client demo_any_proto demo_reconnect_attempt demo_cfg ''t'' demo_closed_pool = (Some (Inr 0), ?p)"
    by (simp add: topic_client_def pool_client_def acquire_obj demo_closed_pool_def)
  with cl(2-5) show thesis by (intro that)
qed

definition demo_watched :: ManagedConsumer where
  "demo_watched = \<lparr>mcs_cfg = ConsumerConfig_SetDefaults demo_consumer_cfg, mcs_asyncErrs = None, mcs_queue = 0,
     mcs_consumer = Some (0, 0), mcs_waitc = None, mcs_next = 1, mcs_closed = [0], mcs_stopManageChan = False\<rparr>"

lemma demo_renew:
  "\<exists>m' w'. mcs_step demo_any_proto (McClosed [demo_reconnect_attempt]) (0, 0) (demo_watched, demo_closed_pool) =
     (McWatching (0, 1), m', w') \<and> length (wd_clients w') = 1 \<and> length (st_Consumers (wd_clients w' ! 0)) = 2 \<and>
     ep_S (wd_clients w' ! 0) = ep_S demo_pair_client \<and> Consumer_ConsumerID (the_mcs_consumer (0, 1) w') = 0 \<and>
     mcs_consumer m' = Some (0, 1)"
proof -
  obtain cl where tc: "topic_client demo_any_proto demo_reconnect_attempt demo_cfg ''t'' demo_closed_pool =
      (Some (Inr 0), demo_closed_pool\<lparr>wd_clients := [cl], wd_queues := st_Queues cl\<rparr>)"
    and cl: "ep_S cl = ep_S demo_pair_client" "\<forall>k. disp_lookup k (ep_Dispatcher cl) = None" "st_Consumers cl = [demo_dropped]"
      "MonotonicID_ID (ps_ConsumerID cl) = 0"
    by (rule demo_topic_client)
  obtain r cl' where sub: "Client_NewSharedConsumer (conn_sender demo_any_proto) demo_ok_env ''t'' ''s'' False 0 cl = (r, cl')" by fastforce
  from demo_any_subscribe [OF cl(1,2) sub] cl(3,4) have cl': "r = Inr 1"
    "st_Consumers cl' = [demo_dropped, newConsumer ''t'' 0 0]" "ep_S cl' = ep_S demo_pair_client" by simp_all
  let ?m = "ManagedConsumer_unset demo_watched"
  let ?w = "demo_closed_pool\<lparr>wd_clients := [cl'], wd_queues := st_Queues cl'\<rparr>"
  have "ManagedConsumer_newConsumer demo_any_proto demo_reconnect_attempt (?m, demo_closed_pool) = (Some (Inr (0, 1)), (?m, ?w))"
    using tc sub cl'(1)
    by (simp add: ManagedConsumer_newConsumer_def demo_watched_def demo_consumer_cfg_def ManagedConsumer_unset_def Let_def
        ConsumerConfig_SetDefaults_def SubscriptionModeShard_def SubscriptionModeExclusive_def SubscriptionModeFailover_def
        with_client_def demo_reconnect_attempt_def)
  then have rec: "ManagedConsumer_reconnect demo_any_proto [demo_reconnect_attempt] False (?m, demo_closed_pool) =
      (Some (0, 1), [ccfg_InitialReconnectDelay (mcs_cfg ?m)], (?m, ?w))"
    by (simp add: ManagedConsumer_reconnect_def)
  have closed: "Consumer_Closed 0 (wd_clients demo_closed_pool ! 0)"
    by (simp add: Consumer_Closed_def demo_closed_pool_def demo_dropped_def)
  have put: "mcs_put (0, 1) (?m, w) = (McWatching (0, 1), snd (ManagedConsumer_set (0, 1) ?m), w)"
    "mcs_consumer (snd (ManagedConsumer_set (0, 1) ?m)) = Some (0, 1)" for w
    by (simp_all add: mcs_put_def ManagedConsumer_set_def ManagedConsumer_unset_def demo_watched_def close_chan_def Let_def)
  show ?thesis
    using closed rec put cl'(2,3)
    by (simp add: mcs_step_def mcs_renew_def hand_over_length [of _ "(0, 1)", simplified])
      (simp add: hand_over_def the_mcs_consumer_def Let_def upd_Consumer_def newConsumer_def)
qed

lemma demo_reconnect_grows: "attempt_grows demo_reconnect_attempt"
  by (simp add: attempt_grows_def demo_reconnect_attempt_def demo_answer_env_def demo_ok_env_def)

lemma demo_redelivery_valid: "frame_valid demo_any_proto (simple_frame (Consumer_redeliver_cmd 0 mids))"
proof -
  let ?cmd = "Consumer_redeliver_cmd 0 mids"
  have "asks_again ?cmd" by (simp add: asks_again_def Consumer_redeliver_cmd_def)
  then have m: "Marshal_BaseCommand demo_any_proto (Some ?cmd) =
      (if ?cmd = demo_redelivery then Inr [1] else Inl (ErrProto ''unsupported''))"
    by (simp add: demo_any_proto_def)
  then have "proto_cmd_ok demo_any_proto ?cmd"
    by (cases "?cmd = demo_redelivery") (simp_all add: proto_cmd_ok_def demo_any_proto_def)
  with m show ?thesis by (simp add: frame_valid_def simple_frame_def encoded_size_def)
qed


section \<open>Corner cases\<close>

text \<open>
  Signals of dropped messages are counted but never lead to a FLOW: when as many messages as there are
  permits have been dropped, all the permits \<open>ReceiveAsync\<close> has asked for are used up, and it waits in
  its \<open>select\<close> without asking for more.
\<close>

lemma ra_overflows:
  assumes "ra_phase s = RaSelect p k"
  shows "(ra_step pc highwater (RaCase SelOverflow) ^^ n) s =
    s\<lparr>ra_phase := RaSelect p (k + of_nat n), ra_acts := replicate n ActOverflow @ ra_acts s\<rparr>"
proof (induction n)
  case 0
  show ?case using assms by (cases s) simp
next
  case (Suc n)
  then show ?case by (simp add: ra_step_def ra_case_def ac_simps)
qed

lemma outstanding_overflows: "outstanding (replicate n ActOverflow @ acts) = outstanding acts - int n"
  by (induction n) simp_all

lemma overflow_stalls:
  assumes "ra_phase s = RaSelect p 0" "ra_acts s = ActStart highwater # acts"
    and "s' = fold (ra_step pc highwater) (replicate (unat highwater) (RaCase SelOverflow)) s"
  shows "ra_phase s' = RaSelect p highwater \<and> outstanding (ra_acts s') = 0 \<and> ra_out s' = ra_out s"
  using assms by (simp add: fold_replicate ra_overflows [OF assms(1)] outstanding_overflows)

text \<open>A second \<open>Close\<close> closes \<open>stopManageChan\<close> again.\<close>

lemma second_Close_panics:
  assumes "mcs_consumer m = Some p" "mcs_stopManageChan m"
  shows "fst (ManagedConsumer_Close pc envs between env (m, w)) = Some (Inl (ErrPanic ''close of closed channel''))"
  using assms by (simp add: ManagedConsumer_Close_def acquire_obj close_signal_def)

text \<open>
  \<open>Close\<close> panics if the watching goroutine, which it has just stopped, unsets the consumer before it is
  read again; so does \<open>Unactive\<close> if the consumer is unset between its two reads.
\<close>

lemma racing_Close_panics:
  assumes "mcs_consumer m = Some p" "\<not> mcs_stopManageChan m"
  shows "fst (ManagedConsumer_Close pc envs (\<lambda>(m, w). (ManagedConsumer_unset m, w)) env (m, w)) =
    Some (Inl (ErrPanic ''nil pointer dereference''))"
  using assms by (simp add: ManagedConsumer_Close_def acquire_obj close_signal_def consumer_slot.unset_obj)

lemma racing_Unactive_panics:
  assumes "mcs_consumer m = Some p"
  shows "fst (ManagedConsumer_Unactive (\<lambda>(m, w). (ManagedConsumer_unset m, w)) (m, w)) =
    Inl (ErrPanic ''nil pointer dereference'')"
  using assms by (simp add: ManagedConsumer_Unactive_def consumer_slot.unset_obj Let_def)

text \<open>With a queue of one message, \<open>ReceiveAsync\<close> asks for no permits, which is refused, and starts over.\<close>

lemma queue_of_one_spins:
  assumes "ra_phase s = RaFlow p"
  shows "ra_phase (ra_step pc 0 RaGo s) = RaDrain"
  using assms by (simp add: ra_step_def ra_go_def ra_flow_def with_client_def Consumer_Flow_def split: prod.split)

end
