(* ===== verification/Auth.thy ===== *)
theory Auth
  imports GoIO
begin

unbundle bit_operations_syntax

text \<open>
  The authentication of the SDK, \<^verbatim>\<open>sdk/auth.go\<close>, with what it uses of Go's \<^verbatim>\<open>crypto/md5\<close> and
  \<^verbatim>\<open>encoding/hex\<close>: the digest of a byte string and its hexadecimal digits. The lemmas bound
  the sizes, so that taking part of the digits never fails.
\<close>

section \<open>MD5\<close>

definition md5_shifts :: "nat list" where
  "md5_shifts =
     concat (replicate 4 [7, 12, 17, 22]) @ concat (replicate 4 [5, 9, 14, 20]) @
     concat (replicate 4 [4, 11, 16, 23]) @ concat (replicate 4 [6, 10, 15, 21])"

text \<open>The integer parts of \<open>2 ^ 32 * \<bar>sin (i + 1)\<bar>\<close>.\<close>

definition md5_table :: "u32 list" where
  "md5_table =
    [0xd76aa478, 0xe8c7b756, 0x242070db, 0xc1bdceee, 0xf57c0faf, 0x4787c62a, 0xa8304613, 0xfd469501,
     0x698098d8, 0x8b44f7af, 0xffff5bb1, 0x895cd7be, 0x6b901122, 0xfd987193, 0xa679438e, 0x49b40821,
     0xf61e2562, 0xc040b340, 0x265e5a51, 0xe9b6c7aa, 0xd62f105d, 0x02441453, 0xd8a1e681, 0xe7d3fbc8,
     0x21e1cde6, 0xc33707d6, 0xf4d50d87, 0x455a14ed, 0xa9e3e905, 0xfcefa3f8, 0x676f02d9, 0x8d2a4c8a,
     0xfffa3942, 0x8771f681, 0x6d9d6122, 0xfde5380c, 0xa4beea44, 0x4bdecfa9, 0xf6bb4b60, 0xbebfbc70,
     0x289b7ec6, 0xeaa127fa, 0xd4ef3085, 0x04881d05, 0xd9d4d039, 0xe6db99e5, 0x1fa27cf8, 0xc4ac5665,
     0xf4292244, 0x432aff97, 0xab9423a7, 0xfc93a039, 0x655b59c3, 0x8f0ccc92, 0xffeff47d, 0x85845dd1,
     0x6fa87e4f, 0xfe2ce6e0, 0xa3014314, 0x4e0811a1, 0xf7537e82, 0xbd3af235, 0x2ad7d2bb, 0xeb86d391]"

type_synonym md5_state = "u32 \<times> u32 \<times> u32 \<times> u32"

definition md5_mix :: "nat \<Rightarrow> u32 \<Rightarrow> u32 \<Rightarrow> u32 \<Rightarrow> u32 \<times> nat" where
  "md5_mix i b c d =
     (if i < 16 then ((b AND c) OR (NOT b AND d), i)
      else if i < 32 then ((d AND b) OR (NOT d AND c), (5 * i + 1) mod 16)
      else if i < 48 then (b XOR c XOR d, (3 * i + 5) mod 16)
      else (c XOR (b OR NOT d), (7 * i) mod 16))"

definition md5_round :: "u32 list \<Rightarrow> nat \<Rightarrow> md5_state \<Rightarrow> md5_state" where
  "md5_round block i s =
     (case s of (a, b, c, d) \<Rightarrow>
        (case md5_mix i b c d of (f, g) \<Rightarrow>
           (d, b + word_rotl (md5_shifts ! i) (f + a + md5_table ! i + block ! g), b, c)))"

definition md5_block :: "u32 list \<Rightarrow> md5_state \<Rightarrow> md5_state" where
  "md5_block block s =
     (case fold (md5_round block) [0..<64] s of (a', b', c', d') \<Rightarrow>
        (case s of (a, b, c, d) \<Rightarrow> (a + a', b + b', c + c', d + d')))"

definition le32 :: "u32 \<Rightarrow> bytes" where
  "le32 x = rev (be32 x)"

text \<open>The words of a byte string, four bytes at a time, and the blocks, sixteen words at a time.\<close>

fun le_words :: "bytes \<Rightarrow> u32 list" where
  "le_words (b0 # b1 # b2 # b3 # bs) = be32_get [b3, b2, b1, b0] # le_words bs"
| "le_words _ = []"

function md5_blocks :: "u32 list \<Rightarrow> md5_state \<Rightarrow> md5_state" where
  "md5_blocks ws s = (if length ws < 16 then s else md5_blocks (drop 16 ws) (md5_block (take 16 ws) s))"
  by pat_completeness auto
termination
  by (relation "measure (\<lambda>(ws, _). length ws)") auto

declare md5_blocks.simps [simp del]

definition md5_pad :: "bytes \<Rightarrow> bytes" where
  "md5_pad bs =
     (let n = push_bit 3 (of_nat (length bs)) :: u64 in
      bs @ [0x80] @ replicate ((119 - length bs mod 64) mod 64) 0 @ le32 (ucast n) @ le32 (ucast (drop_bit 32 n)))"

definition md5_sum :: "bytes \<Rightarrow> bytes" where
  "md5_sum bs =
     (case md5_blocks (le_words (md5_pad bs)) (0x67452301, 0xefcdab89, 0x98badcfe, 0x10325476) of
        (a, b, c, d) \<Rightarrow> le32 a @ le32 b @ le32 c @ le32 d)"

section \<open>Hexadecimal digits and strings\<close>

text \<open>A Go string is a string of bytes.\<close>

definition string_bytes :: "string \<Rightarrow> bytes" where
  "string_bytes s = map (\<lambda>c. of_nat (of_char c)) s"

definition hex_digit :: "nat \<Rightarrow> char" where
  "hex_digit n = ''0123456789abcdef'' ! n"

definition EncodeToString :: "bytes \<Rightarrow> string" where
  "EncodeToString bs = concat (map (\<lambda>b. [hex_digit (unat b div 16), hex_digit (unat b mod 16)]) bs)"

section \<open>The provider\<close>

record authProvider =
  auth_AccessID :: string
  auth_AccessKey :: string

definition NewAuthProvider :: "string \<Rightarrow> string \<Rightarrow> authProvider" where
  "NewAuthProvider accessID accessKey = \<lparr>auth_AccessID = accessID, auth_AccessKey = accessKey\<rparr>"

definition md5Hex :: "string \<Rightarrow> string" where
  "md5Hex s = EncodeToString (md5_sum (string_bytes s))"

definition authProvider_AuthMethod :: "authProvider \<Rightarrow> string" where
  "authProvider_AuthMethod a = ''auth1''"

definition dquote :: string where
  "dquote = [char_of (34 :: nat)]"

text \<open>Taking the digits from 8 to 24 panics where there are fewer.\<close>

definition authProvider_AuthData :: "authProvider \<Rightarrow> go_error + bytes" where
  "authProvider_AuthData a =
     (let key = md5Hex (auth_AccessID a @ md5Hex (auth_AccessKey a)) in
      if length key < 24 then Inl (ErrPanic ''slice bounds out of range'')
      else
        Inr (string_bytes
          (''{'' @ dquote @ ''username'' @ dquote @ '':'' @ dquote @ auth_AccessID a @ dquote @ '','' @
           dquote @ ''password'' @ dquote @ '':'' @ dquote @ take 16 (drop 8 key) @ dquote @ ''}'')))"

section \<open>Lemmas\<close>

lemma length_md5_sum [simp]: "length (md5_sum bs) = 16"
  by (simp add: md5_sum_def le32_def split: prod.split)

lemma length_EncodeToString [simp]: "length (EncodeToString bs) = 2 * length bs"
  by (induction bs) (simp_all add: EncodeToString_def)

lemma length_md5Hex [simp]: "length (md5Hex s) = 32"
  by (simp add: md5Hex_def)

lemma hex_digit_set: "n < 16 \<Longrightarrow> hex_digit n \<in> set ''0123456789abcdef''"
  unfolding hex_digit_def by (rule nth_mem) simp

lemma set_EncodeToString: "set (EncodeToString bs) \<subseteq> set ''0123456789abcdef''"
proof -
  have "unat b div 16 < 16" for b :: byte using unsigned_less [of b, where 'a = nat] by simp
  then have "set [hex_digit (unat b div 16), hex_digit (unat b mod 16)] \<subseteq> set ''0123456789abcdef''" for b :: byte
    using hex_digit_set [of "unat b div 16"] hex_digit_set [of "unat b mod 16"] by simp
  then show ?thesis unfolding EncodeToString_def set_concat set_map by blast
qed

lemma set_md5Hex: "set (md5Hex s) \<subseteq> set ''0123456789abcdef''"
  unfolding md5Hex_def by (rule set_EncodeToString)

text \<open>A test vector of RFC 1321.\<close>

lemma md5_empty: "md5Hex '''' = ''d41d8cd98f00b204e9800998ecf8427e''"
  by code_simp

section \<open>Properties\<close>

text \<open>
  \<open>AuthData\<close> never panics, whatever the access id and key: it is the JSON object with the access id
  as user name and a password of sixteen lower-case hexadecimal digits.
\<close>

theorem auth_data_format:
  "\<exists>password. length password = 16 \<and> set password \<subseteq> set ''0123456789abcdef'' \<and>
     authProvider_AuthData (NewAuthProvider accessID accessKey) =
       Inr (string_bytes
         (''{'' @ dquote @ ''username'' @ dquote @ '':'' @ dquote @ accessID @ dquote @ '','' @
          dquote @ ''password'' @ dquote @ '':'' @ dquote @ password @ dquote @ ''}''))"
proof -
  let ?key = "md5Hex (accessID @ md5Hex accessKey)"
  have "set (take 16 (drop 8 ?key)) \<subseteq> set ''0123456789abcdef''"
    using set_take_subset set_drop_subset set_md5Hex by (meson subset_trans)
  then show ?thesis
    by (intro exI [of _ "take 16 (drop 8 ?key)"]) (simp add: authProvider_AuthData_def NewAuthProvider_def Let_def)
qed

end
