(* ===== verification/Sdk.thy ===== *)
theory Sdk
  imports ManagedConsumer Auth
begin

text \<open>
  The SDK of \<^verbatim>\<open>sdk/client.go\<close>, \<^verbatim>\<open>sdk/consumer.go\<close> and \<^verbatim>\<open>sdk/consumers.go\<close>: topics and
  subscription names, creating a consumer for each partition of a topic, receiving and handling
  messages, stopping, and the periodic granting of permits. The handler of the user is a parameter, a
  function on a state of its own; logging is left out.
\<close>

section \<open>Topics\<close>

fun string_index :: "char \<Rightarrow> string \<Rightarrow> nat option" where
  "string_index c [] = None"
| "string_index c (x # xs) = (if x = c then Some 0 else map_option Suc (string_index c xs))"

text \<open>Without a slash the index is -1, and slicing up to it panics.\<close>

definition getTenant :: "string \<Rightarrow> go_error + string" where
  "getTenant topic0 =
     (let topic = TrimPrefix topic0 ''persistent://'' in
      case string_index (CHR ''/'') topic of
        None \<Rightarrow> Inl (ErrPanic ''slice bounds out of range'')
      | Some end \<Rightarrow> Inr (take end topic))"

definition subscriptionName :: "(string \<Rightarrow> string) \<Rightarrow> string \<Rightarrow> go_error + string" where
  "subscriptionName getenv topic =
     (let envName = getenv ''PULSAR_SUBSCRIPTION_NAME'' in
      if envName \<noteq> '''' then Inr envName
      else (case getTenant topic of Inl p \<Rightarrow> Inl p | Inr tenant \<Rightarrow> Inr (tenant @ ''-sub'')))"

definition TopicForAccessID :: "string \<Rightarrow> string" where
  "TopicForAccessID accessID = ''persistent://'' @ accessID @ ''/out/event''"

section \<open>Creating consumers\<close>

text \<open>The client of the SDK has the pool, which is the state the definitions pass on, and its address.\<close>

definition PulsarAddrCN :: string where
  "PulsarAddrCN = ''pulsar://mqe.tuyacn.com:7285''"

definition PulsarAddrEU :: string where
  "PulsarAddrEU = ''pulsar://mqe.tuyaeu.com:7285''"

definition PulsarAddrUS :: string where
  "PulsarAddrUS = ''pulsar://mqe.tuyaus.com:7285''"

definition sdk_NewClient :: "string \<Rightarrow> string \<times> ClientPool" where
  "sdk_NewClient PulsarAddr = (PulsarAddr, NewClientPool)"

definition DefaultFlowPeriodSecond :: int where
  "DefaultFlowPeriodSecond = 30"

definition DefaultFlowPermit :: u32 where
  "DefaultFlowPermit = 10"

record AuthProvider =
  ap_AuthMethod :: string
  ap_AuthData :: bytes

record sdk_ConsumerConfig =
  scfg_Topic :: string
  scfg_Auth :: AuthProvider
  scfg_SubscriptionMode :: SubscriptionMode
  scfg_Earliest :: bool

record consumerImpl =
  ci_topic :: string
  ci_csm :: ManagedConsumer
  ci_cancelFunc :: bool
  ci_stopFlag :: u32
  ci_stopped :: bool

record ConsumerList =
  cli_list :: "consumerImpl list"
  cli_FlowPeriodSecond :: int
  cli_FlowPermit :: u32
  cli_Topic :: string
  cli_Stopped :: bool

datatype sdk_Consumer = SingleConsumer consumerImpl | PartitionedConsumer ConsumerList

definition new_consumerImpl :: "ConsumerConfig \<Rightarrow> ClientPool \<Rightarrow> consumerImpl \<times> ClientPool" where
  "new_consumerImpl cfg w =
     (case NewManagedConsumer cfg w of
        (mc, w1) \<Rightarrow>
          (\<lparr>ci_topic = ccfg_Topic cfg, ci_csm = mc, ci_cancelFunc = False, ci_stopFlag = 0, ci_stopped = False\<rparr>, w1))"

definition partition_topic :: "string \<Rightarrow> nat \<Rightarrow> string" where
  "partition_topic originTopic i = originTopic @ ''-partition-'' @ show_nat i"

fun new_partitions :: "ConsumerConfig \<Rightarrow> string \<Rightarrow> nat list \<Rightarrow> ClientPool \<Rightarrow> consumerImpl list \<times> ClientPool" where
  "new_partitions cfg originTopic [] w = ([], w)"
| "new_partitions cfg originTopic (i # is) w =
     (case new_consumerImpl (cfg\<lparr>ccfg_Topic := partition_topic originTopic i\<rparr>) w of
        (c, w1) \<Rightarrow> (case new_partitions cfg originTopic is w1 of (cs, w2) \<Rightarrow> (c # cs, w2)))"

text \<open>The TLS configuration that skips the verification of the server.\<close>

definition insecure_tls :: tls_config where
  "insecure_tls = 0"

definition sdk_client_config :: "string \<Rightarrow> AuthProvider \<Rightarrow> ClientConfig" where
  "sdk_client_config addr auth =
     \<lparr>cfg_Addr = addr, cfg_phyAddr = '''', cfg_DialTimeout = 0, cfg_TLSConfig = Some insecure_tls,
      cfg_Errs = Some (make_chan 10), cfg_PingFrequency = 0, cfg_PingTimeout = 0, cfg_ConnectTimeout = 0,
      cfg_InitialReconnectDelay = 0, cfg_MaxReconnectDelay = 0, cfg_AuthMethod = ap_AuthMethod auth,
      cfg_AuthData = Some (ap_AuthData auth)\<rparr>"

definition GetPartition ::
    "proto \<Rightarrow> lookup_round \<Rightarrow> string \<Rightarrow> ClientConfig \<Rightarrow> ClientPool \<Rightarrow> nat option \<times> ClientPool" where
  "GetPartition pc rd topic config w =
     (case ClientPool_Partitions pc rd config topic w of
        (None, w1) \<Rightarrow> (None, w1)
      | (Some (Inl _), w1) \<Rightarrow> (Some 0, w1)
      | (Some (Inr p), w1) \<Rightarrow> (Some (unat (CommandPartitionedTopicMetadataResponse_GetPartitions p)), w1))"

definition sdk_NewConsumer ::
    "proto \<Rightarrow> lookup_round \<Rightarrow> (string \<Rightarrow> string) \<Rightarrow> string \<Rightarrow> sdk_ConsumerConfig \<Rightarrow> ClientPool \<Rightarrow>
     (go_error + sdk_Consumer) option \<times> ClientPool" where
  "sdk_NewConsumer pc rd getenv addr config w =
     (case subscriptionName getenv (scfg_Topic config) of
        Inl p \<Rightarrow> (Some (Inl p), w)
      | Inr name \<Rightarrow>
          (let cfg = \<lparr>ccfg_ClientConfig = sdk_client_config addr (scfg_Auth config), ccfg_Topic = scfg_Topic config,
                 ccfg_Name = name, ccfg_SubMode = scfg_SubscriptionMode config, ccfg_Earliest = scfg_Earliest config,
                 ccfg_QueueSize = 0, ccfg_NewConsumerTimeout = minute, ccfg_InitialReconnectDelay = 0,
                 ccfg_MaxReconnectDelay = 0\<rparr>
           in case GetPartition pc rd (scfg_Topic config) (ccfg_ClientConfig cfg) w of
                (None, w1) \<Rightarrow> (None, w1)
              | (Some p, w1) \<Rightarrow>
                  if p > 0
                  then (case new_partitions cfg (ccfg_Topic cfg) [0..<p] w1 of
                          (cs, w2) \<Rightarrow>
                            (Some (Inr (PartitionedConsumer \<lparr>cli_list = cs, cli_FlowPeriodSecond = DefaultFlowPeriodSecond,
                               cli_FlowPermit = DefaultFlowPermit, cli_Topic = scfg_Topic config, cli_Stopped = False\<rparr>)), w2))
                  else (case new_consumerImpl cfg w1 of (c, w2) \<Rightarrow> (Some (Inr (SingleConsumer c)), w2))))"

section \<open>Handling a message\<close>

datatype handler_act = Handled bytes "go_error option" | Acked "go_error option"

datatype handler_end = HReturned | HBlocked | HPanic go_error

type_synonym 'h payload_handler = "Message \<Rightarrow> bytes \<Rightarrow> 'h \<Rightarrow> go_error option \<times> 'h"

text \<open>How a call of \<open>Handler\<close> is interleaved with the others.\<close>

record handler_env =
  he_between :: "mcs_world \<Rightarrow> mcs_world"
  he_id :: "(mcs_world \<Rightarrow> mcs_world \<times> acq_wake) list"
  he_ack :: "(mcs_world \<Rightarrow> mcs_world \<times> acq_wake) list"

fun handle_list :: "'h payload_handler \<Rightarrow> Message \<Rightarrow> bytes list \<Rightarrow> 'h \<Rightarrow> handler_act list \<times> 'h" where
  "handle_list handler m [] h = ([], h)"
| "handle_list handler m (p # ps) h =
     (case handler m p h of
        (Some err, h1) \<Rightarrow> ([Handled p (Some err)], h1)
      | (None, h1) \<Rightarrow> (case handle_list handler m ps h1 of (acts, h2) \<Rightarrow> (Handled p None # acts, h2)))"

text \<open>Reading the field of a nil \<open>Meta\<close> panics, after the getter has returned its default 1.\<close>

definition handler_batch :: "proto \<Rightarrow> Message \<Rightarrow> go_error + SingleMessage list" where
  "handler_batch pc m =
     (let num = MessageMetadata_GetNumMessagesInBatch (Message_Meta m) in
      if sint num > 0
      then (case Message_Meta m of
              None \<Rightarrow> Inl (ErrPanic ''nil pointer dereference'')
            | Some meta \<Rightarrow>
                if MessageMetadata_NumMessagesInBatch meta \<noteq> None then DecodeBatchMessage pc m else Inr [])
      else Inr [])"

definition payloads :: "Message \<Rightarrow> SingleMessage list \<Rightarrow> bytes list" where
  "payloads m list = (if list = [] then [Message_Payload m] else map SingleMessage_SinglePayload list)"

definition consumerImpl_Handler ::
    "proto \<Rightarrow> handler_env \<Rightarrow> 'h payload_handler \<Rightarrow> Message \<Rightarrow> mcs_world \<Rightarrow> 'h \<Rightarrow>
     handler_end \<times> handler_act list \<times> mcs_world \<times> 'h" where
  "consumerImpl_Handler pc he handler m s h =
     (case handler_batch pc m of
        Inl (ErrPanic p) \<Rightarrow> (HPanic (ErrPanic p), [], s, h)
      | Inl err \<Rightarrow> (HReturned, [], s, h)
      | Inr list \<Rightarrow>
          (case ManagedConsumer_Unactive (he_between he) s of
             (Inl p, s1) \<Rightarrow> (HPanic p, [], s1, h)
           | (Inr True, s1) \<Rightarrow> (HReturned, [], s1, h)
           | (Inr False, s1) \<Rightarrow>
               (case ManagedConsumer_ConsumerID (he_id he) s1 of
                  (None, s2) \<Rightarrow> (HBlocked, [], s2, h)
                | (Some i, s2) \<Rightarrow>
                    if i \<noteq> Message_ConsumerID m then (HReturned, [], s2, h)
                    else
                      (case handle_list handler m (payloads m list) h of
                         (acts, h1) \<Rightarrow>
                           (case ManagedConsumer_Ack pc (he_ack he) m s2 of
                              (None, s3) \<Rightarrow> (HBlocked, acts, s3, h1)
                            | (Some r, s3) \<Rightarrow> (HReturned, acts @ [Acked r], s3, h1))))))"

section \<open>Receiving and stopping\<close>

text \<open>
  The loop of \<open>ReceiveAndHandle\<close>, beside calls of \<open>Stop\<close> and the others. \<open>sd_ctxDone\<close> says that its
  context is cancelled; \<open>sd_busy\<close> is the message for which the flag has been tested and \<open>Handler\<close> has not
  returned yet; \<open>sd_log\<close> are the messages for which \<open>Handler\<close> has returned, with what it has done for each
  (nothing, when it gave the message up). Receiving a message with the test of the flag and calling
  \<open>Handler\<close> are two steps, so that \<open>Stop\<close> and everything else may come in between; a \<open>Stop\<close> during
  \<open>Handler\<close>, which reads neither the flag nor this context, is one that comes in between. A handler that
  is still blocked when its list of waits ends takes no more messages in the program; the events may go
  on here, so that what is shown holds for the program's runs and more.
\<close>

record 'h sdk_state =
  sd_ci :: consumerImpl
  sd_pool :: ClientPool
  sd_handler :: 'h
  sd_ctxDone :: bool
  sd_returned :: bool
  sd_panic :: "go_error option"
  sd_busy :: "Message option"
  sd_log :: "(Message \<times> handler_act list) list"

datatype sdk_event =
    SdCtxDone
  | SdMsg Message
  | SdHandle handler_env
  | SdCancel
  | SdStop
  | SdOther "mcs_world \<Rightarrow> mcs_world"

definition sd_finish :: "'h sdk_state \<Rightarrow> 'h sdk_state" where
  "sd_finish s =
     (case close_signal (ci_stopped (sd_ci s)) of
        Inl p \<Rightarrow> s\<lparr>sd_panic := Some p\<rparr>
      | Inr cl \<Rightarrow> s\<lparr>sd_ci := (sd_ci s)\<lparr>ci_stopped := cl\<rparr>, sd_returned := True\<rparr>)"

definition sd_handle :: "proto \<Rightarrow> 'h payload_handler \<Rightarrow> Message \<Rightarrow> handler_env \<Rightarrow> 'h sdk_state \<Rightarrow> 'h sdk_state" where
  "sd_handle pc handler m he s =
     (case consumerImpl_Handler pc he handler m (ci_csm (sd_ci s), sd_pool s) (sd_handler s) of
        (e, acts, (csm, w), h) \<Rightarrow>
          s\<lparr>sd_ci := (sd_ci s)\<lparr>ci_csm := csm\<rparr>, sd_pool := w, sd_handler := h, sd_busy := None,
            sd_log := sd_log s @ [(m, acts)], sd_panic := (case e of HPanic p \<Rightarrow> Some p | _ \<Rightarrow> sd_panic s)\<rparr>)"

text \<open>The first two steps of \<open>Stop\<close>; it then waits for \<open>stopped\<close>. A nil \<open>cancelFunc\<close> panics.\<close>

definition consumerImpl_Stop :: "'h sdk_state \<Rightarrow> 'h sdk_state" where
  "consumerImpl_Stop s =
     (let c = (sd_ci s)\<lparr>ci_stopFlag := ci_stopFlag (sd_ci s) + 1\<rparr>; s1 = s\<lparr>sd_ci := c\<rparr> in
      if ci_cancelFunc c then s1\<lparr>sd_ctxDone := True\<rparr>
      else s1\<lparr>sd_panic := Some (ErrPanic ''nil pointer dereference'')\<rparr>)"

definition sdk_step :: "proto \<Rightarrow> 'h payload_handler \<Rightarrow> sdk_event \<Rightarrow> 'h sdk_state \<Rightarrow> 'h sdk_state" where
  "sdk_step pc handler ev s =
     (if sd_panic s \<noteq> None then s
      else
        (case ev of
           SdCtxDone \<Rightarrow> if sd_ctxDone s \<and> \<not> sd_returned s \<and> sd_busy s = None then sd_finish s else s
         | SdMsg m \<Rightarrow>
             if sd_returned s \<or> sd_busy s \<noteq> None then s
             else if ci_stopFlag (sd_ci s) = 1 then sd_finish s
             else s\<lparr>sd_busy := Some m\<rparr>
         | SdHandle he \<Rightarrow> (case sd_busy s of None \<Rightarrow> s | Some m \<Rightarrow> sd_handle pc handler m he s)
         | SdCancel \<Rightarrow> s\<lparr>sd_ctxDone := True\<rparr>
         | SdStop \<Rightarrow> consumerImpl_Stop s
         | SdOther f \<Rightarrow>
             (case f (ci_csm (sd_ci s), sd_pool s) of
                (csm, w) \<Rightarrow> s\<lparr>sd_ci := (sd_ci s)\<lparr>ci_csm := csm\<rparr>, sd_pool := w\<rparr>)))"

definition consumerImpl_ReceiveAndHandle ::
    "proto \<Rightarrow> 'h payload_handler \<Rightarrow> sdk_event list \<Rightarrow> consumerImpl \<Rightarrow> ClientPool \<Rightarrow> 'h \<Rightarrow> 'h sdk_state" where
  "consumerImpl_ReceiveAndHandle pc handler evs c w h =
     fold (sdk_step pc handler) evs
       \<lparr>sd_ci = c\<lparr>ci_cancelFunc := True\<rparr>, sd_pool = w, sd_handler = h, sd_ctxDone = False, sd_returned = False,
        sd_panic = None, sd_busy = None, sd_log = []\<rparr>"

section \<open>Granting permits periodically\<close>

text \<open>One consumer of a tick, then the tick; errors are only logged.\<close>

definition cron_flow :: "proto \<Rightarrow> u32 \<Rightarrow> ManagedConsumer \<Rightarrow> ClientPool \<Rightarrow> ClientPool" where
  "cron_flow pc permit m w =
     (case ManagedConsumer_Consumer (m, w) of
        None \<Rightarrow> w
      | Some (c, i) \<Rightarrow>
          (let w1 = (if Consumer_Overflow (the_mcs_consumer (c, i) w) \<noteq> []
                     then snd (with_client c (Consumer_RedeliverOverflow (conn_sender pc) i) w) else w);
               x = the_mcs_consumer (c, i) w1
           in if Consumer_Unactive x \<or> ch_buf (wd_queues w1 ! Consumer_Queue x) \<noteq> [] then w1
              else snd (with_client c (Consumer_Flow (conn_sender pc) permit i) w1)))"

definition CronFlow_tick :: "proto \<Rightarrow> ConsumerList \<Rightarrow> ClientPool \<Rightarrow> ClientPool" where
  "CronFlow_tick pc l w = fold (\<lambda>c w. cron_flow pc (cli_FlowPermit l) (ci_csm c) w) (cli_list l) w"

text \<open>
  The loop returns once \<open>Stopped\<close> is closed, and at once where nothing is to be granted; each element of
  the list is what the others do before the next tick, and whether \<open>Stopped\<close> is then closed.
\<close>

fun CronFlow_loop :: "proto \<Rightarrow> ConsumerList \<Rightarrow> ((ClientPool \<Rightarrow> ClientPool) \<times> bool) list \<Rightarrow> ClientPool \<Rightarrow> bool \<times> ClientPool" where
  "CronFlow_loop pc l [] w = (False, w)"
| "CronFlow_loop pc l ((f, stopped) # ts) w =
     (if stopped then (True, f w) else CronFlow_loop pc l ts (CronFlow_tick pc l (f w)))"

definition ConsumerList_CronFlow ::
    "proto \<Rightarrow> ConsumerList \<Rightarrow> ((ClientPool \<Rightarrow> ClientPool) \<times> bool) list \<Rightarrow> ClientPool \<Rightarrow> bool \<times> ClientPool" where
  "ConsumerList_CronFlow pc l ts w =
     (if cli_FlowPeriodSecond l = 0 then (True, w)
      else if cli_FlowPermit l = 0 then (True, w)
      else CronFlow_loop pc l ts w)"

section \<open>Lemmas\<close>

lemma string_index_append: "c \<notin> set xs \<Longrightarrow> string_index c (xs @ c # ys) = Some (length xs)"
  by (induction xs) auto

lemma partition_topic_inj: "partition_topic t i = partition_topic t j \<longleftrightarrow> i = j"
proof
  assume "partition_topic t i = partition_topic t j"
  then have "show_nat i = show_nat j" by (simp add: partition_topic_def)
  then have "digits_value (show_nat i) = digits_value (show_nat j)" by (rule arg_cong)
  then show "i = j" by (simp only: digits_value_show_nat)
qed simp

lemma new_consumerImpl_simps:
  assumes "new_consumerImpl cfg w = (c, w')"
  shows "ci_topic c = ccfg_Topic cfg" "mcs_queue (ci_csm c) = length (wd_queues w)"
    "length (wd_queues w') = Suc (length (wd_queues w))" "mcs_cfg (ci_csm c) = ConsumerConfig_SetDefaults cfg"
  using assms by (auto simp: new_consumerImpl_def NewManagedConsumer_def Let_def)

lemma new_partitions_spec:
  assumes "new_partitions cfg topic is w = (cs, w')"
  shows "map ci_topic cs = map (partition_topic topic) is \<and>
    map (\<lambda>c. mcs_queue (ci_csm c)) cs = [length (wd_queues w)..<length (wd_queues w) + length is] \<and>
    (\<forall>c \<in> set cs. ccfg_Name (mcs_cfg (ci_csm c)) = ccfg_Name cfg \<and> ccfg_Topic (mcs_cfg (ci_csm c)) = ci_topic c)"
  using assms
proof (induction "is" arbitrary: w cs w')
  case (Cons i "is")
  obtain c w1 where c: "new_consumerImpl (cfg\<lparr>ccfg_Topic := partition_topic topic i\<rparr>) w = (c, w1)" by fastforce
  obtain cs1 w2 where cs: "new_partitions cfg topic is w1 = (cs1, w2)" by fastforce
  have "ccfg_Name (mcs_cfg (ci_csm c)) = ccfg_Name cfg" "ccfg_Topic (mcs_cfg (ci_csm c)) = ci_topic c"
    using new_consumerImpl_simps(1,4) [OF c] by (simp_all add: ConsumerConfig_SetDefaults_def Let_def)
  with Cons.IH [OF cs] Cons.prems c cs new_consumerImpl_simps [OF c] show ?case
    by (auto simp: upt_conv_Cons simp del: upt_Suc)
qed simp

text \<open>What handling a list of payloads does: a prefix of it, up to the first error.\<close>

lemma handle_list_spec:
  assumes "handle_list handler m ps h = (acts, h')"
  shows "\<exists>hs. acts = map (\<lambda>(p, e). Handled p e) hs \<and> map fst hs = take (length hs) ps \<and>
    (\<forall>e \<in> set (butlast (map snd hs)). e = None) \<and> (length hs = length ps \<or> hs \<noteq> [] \<and> snd (last hs) \<noteq> None) \<and>
    (ps \<noteq> [] \<longrightarrow> hs \<noteq> [])"
  using assms
proof (induction ps arbitrary: h acts)
  case (Cons p ps)
  show ?case
  proof (cases "fst (handler m p h)")
    case None
    obtain acts1 where rest: "handle_list handler m ps (snd (handler m p h)) = (acts1, h')" "acts = Handled p None # acts1"
      using Cons.prems None by (auto split: prod.splits)
    obtain hs where hs: "acts1 = map (\<lambda>(p, e). Handled p e) hs" "map fst hs = take (length hs) ps"
      "\<forall>e \<in> set (butlast (map snd hs)). e = None" "length hs = length ps \<or> hs \<noteq> [] \<and> snd (last hs) \<noteq> None"
      using Cons.IH [OF rest(1)] by blast
    then show ?thesis
      using rest(2) by (intro exI [of _ "(p, None) # hs"]) auto
  next
    case (Some err)
    with Cons.prems show ?thesis by (intro exI [of _ "[(p, Some err)]"]) (auto split: prod.splits)
  qed
qed simp

section \<open>Stopping\<close>

lemma sd_handle_simps [simp]:
  "ci_stopFlag (sd_ci (sd_handle pc handler m he s)) = ci_stopFlag (sd_ci s)"
  "ci_stopped (sd_ci (sd_handle pc handler m he s)) = ci_stopped (sd_ci s)"
  "ci_cancelFunc (sd_ci (sd_handle pc handler m he s)) = ci_cancelFunc (sd_ci s)"
  "sd_returned (sd_handle pc handler m he s) = sd_returned s" "sd_ctxDone (sd_handle pc handler m he s) = sd_ctxDone s"
  "sd_busy (sd_handle pc handler m he s) = None"
  "\<exists>acts. sd_log (sd_handle pc handler m he s) = sd_log s @ [(m, acts)]"
  by (auto simp: sd_handle_def split: prod.split)

text \<open>A loop for which \<open>Stop\<close> has been called once: at most a message for which the flag had been tested is left.\<close>

definition stopping :: "'h sdk_state \<Rightarrow> bool" where
  "stopping s \<longleftrightarrow> ci_stopFlag (sd_ci s) = 1 \<and> sd_ctxDone s \<and> ci_stopped (sd_ci s) = sd_returned s \<and>
     (sd_returned s \<longrightarrow> sd_busy s = None)"

definition handled_at_most :: "'h sdk_state \<Rightarrow> 'h sdk_state \<Rightarrow> bool" where
  "handled_at_most s s' \<longleftrightarrow>
     sd_busy s' = sd_busy s \<and> sd_log s' = sd_log s \<and> sd_panic s' = sd_panic s \<or>
     sd_busy s' = None \<and> (\<exists>m acts. sd_busy s = Some m \<and> sd_log s' = sd_log s @ [(m, acts)])"

lemma handled_at_most_refl [simp]: "handled_at_most s s"
  by (simp add: handled_at_most_def)

lemma handled_at_most_trans: "handled_at_most s t \<Longrightarrow> handled_at_most t u \<Longrightarrow> handled_at_most s u"
  by (auto simp: handled_at_most_def)

lemma sdk_step_stopping:
  assumes "stopping s" "ev \<noteq> SdStop"
  shows "stopping (sdk_step pc handler ev s) \<and> handled_at_most s (sdk_step pc handler ev s)"
proof (cases ev)
  case (SdHandle he)
  show ?thesis
  proof (cases "sd_panic s = None \<and> sd_busy s \<noteq> None")
    case True
    then obtain m where m: "sd_busy s = Some m" by blast
    obtain acts where "sd_log (sd_handle pc handler m he s) = sd_log s @ [(m, acts)]" using sd_handle_simps(7) by blast
    with True m assms(1) SdHandle show ?thesis by (auto simp: sdk_step_def stopping_def handled_at_most_def)
  qed (use assms SdHandle in \<open>auto simp: sdk_step_def\<close>)
qed (use assms in \<open>auto simp: sdk_step_def stopping_def handled_at_most_def sd_finish_def close_signal_def split: prod.split\<close>)

lemma sdk_run_stopping:
  assumes "stopping s" "SdStop \<notin> set evs"
  shows "stopping (fold (sdk_step pc handler) evs s) \<and> handled_at_most s (fold (sdk_step pc handler) evs s)"
  using assms
proof (induction evs arbitrary: s)
  case (Cons ev evs)
  have ev: "ev \<noteq> SdStop" "SdStop \<notin> set evs" using Cons.prems(2) by auto
  note step = sdk_step_stopping [OF Cons.prems(1) ev(1), of pc handler]
  from Cons.IH [OF conjunct1 [OF step] ev(2)] handled_at_most_trans [OF conjunct2 [OF step]] show ?case by simp
qed simp

text \<open>Once that message is done, the loop returns at its next step.\<close>

lemma sdk_step_stopped:
  assumes "stopping s" "sd_panic s = None" "sd_busy s = None" "ev = SdCtxDone \<or> ev = SdMsg m"
  shows "sd_returned (sdk_step pc handler ev s) \<and> ci_stopped (sd_ci (sdk_step pc handler ev s)) \<and>
    sd_panic (sdk_step pc handler ev s) = None"
  using assms by (auto simp: sdk_step_def stopping_def sd_finish_def close_signal_def)

definition running :: "'h sdk_state \<Rightarrow> bool" where
  "running s \<longleftrightarrow> ci_stopFlag (sd_ci s) = 0 \<and> ci_cancelFunc (sd_ci s) \<and> ci_stopped (sd_ci s) = sd_returned s \<and>
     (sd_returned s \<longrightarrow> sd_busy s = None)"

lemma sdk_step_running: "running s \<Longrightarrow> ev \<noteq> SdStop \<Longrightarrow> running (sdk_step pc handler ev s)"
  by (cases ev) (auto simp: sdk_step_def running_def sd_finish_def close_signal_def split: prod.split option.split)

lemma sdk_run_running: "running s \<Longrightarrow> SdStop \<notin> set evs \<Longrightarrow> running (fold (sdk_step pc handler) evs s)"
  by (induction evs arbitrary: s) (auto simp: sdk_step_running)

lemma Stop_running:
  "running s \<Longrightarrow> stopping (consumerImpl_Stop s) \<and> handled_at_most s (consumerImpl_Stop s) \<and> sd_busy (consumerImpl_Stop s) = sd_busy s \<and>
   sd_panic (consumerImpl_Stop s) = sd_panic s"
  by (simp add: consumerImpl_Stop_def running_def stopping_def handled_at_most_def Let_def)

section \<open>Properties\<close>

text \<open>
  The tenant of the topic of an access id is that access id, and the default subscription is named
  after it, unless the environment names another one; a topic without a slash makes \<open>getTenant\<close> panic.
\<close>

theorem tenant_of_topic:
  assumes "CHR ''/'' \<notin> set accessID"
  shows "getTenant (TopicForAccessID accessID) = Inr accessID \<and>
    subscriptionName getenv (TopicForAccessID accessID) =
      Inr (if getenv ''PULSAR_SUBSCRIPTION_NAME'' \<noteq> '''' then getenv ''PULSAR_SUBSCRIPTION_NAME'' else accessID @ ''-sub'') \<and>
    (\<exists>p. getTenant (''persistent://'' @ accessID) = Inl (ErrPanic p))"
proof -
  have trim: "TrimPrefix (TopicForAccessID accessID) ''persistent://'' = accessID @ CHR ''/'' # ''out/event''"
    unfolding TopicForAccessID_def by (subst TrimPrefix_append) simp
  have "string_index (CHR ''/'') accessID = None" using assms by (induction accessID) auto
  then have "getTenant (''persistent://'' @ accessID) = Inl (ErrPanic ''slice bounds out of range'')"
    unfolding getTenant_def TrimPrefix_append by simp
  with trim string_index_append [OF assms, of "''out/event''"] show ?thesis
    by (simp add: getTenant_def subscriptionName_def Let_def)
qed

theorem tenant_of_topic_witness: "subscriptionName (\<lambda>_. '''') (TopicForAccessID ''me'') = Inr ''me-sub''"
  using tenant_of_topic [of "''me''" "\<lambda>_. ''''"] by simp

text \<open>
  C32. \<open>NewConsumer\<close> for a partitioned topic makes one consumer for each partition, in order and under
  different topic names, all with the same subscription name, each with a new queue of its own; for any
  other topic, or if the partitions cannot be asked for, it makes one consumer for the topic itself.
\<close>

theorem new_consumer_partitions:
  assumes "sdk_NewConsumer pc rd getenv addr config w = (Some (Inr c), w')"
  shows "\<exists>name w1. subscriptionName getenv (scfg_Topic config) = Inr name \<and>
    (case c of
       PartitionedConsumer l \<Rightarrow>
         GetPartition pc rd (scfg_Topic config) (sdk_client_config addr (scfg_Auth config)) w = (Some (length (cli_list l)), w1) \<and>
         map ci_topic (cli_list l) = map (partition_topic (scfg_Topic config)) [0..<length (cli_list l)] \<and>
         distinct (map ci_topic (cli_list l)) \<and>
         map (\<lambda>x. mcs_queue (ci_csm x)) (cli_list l) = [length (wd_queues w1)..<length (wd_queues w1) + length (cli_list l)] \<and>
         (\<forall>x \<in> set (cli_list l). ccfg_Topic (mcs_cfg (ci_csm x)) = ci_topic x \<and> ccfg_Name (mcs_cfg (ci_csm x)) = name)
     | SingleConsumer x \<Rightarrow>
         GetPartition pc rd (scfg_Topic config) (sdk_client_config addr (scfg_Auth config)) w = (Some 0, w1) \<and>
         ci_topic x = scfg_Topic config \<and> ccfg_Topic (mcs_cfg (ci_csm x)) = ci_topic x \<and>
         ccfg_Name (mcs_cfg (ci_csm x)) = name \<and> mcs_queue (ci_csm x) = length (wd_queues w1))"
proof -
  obtain name where name: "subscriptionName getenv (scfg_Topic config) = Inr name"
    using assms by (auto simp: sdk_NewConsumer_def split: sum.splits)
  define cfg where "cfg = \<lparr>ccfg_ClientConfig = sdk_client_config addr (scfg_Auth config), ccfg_Topic = scfg_Topic config,
    ccfg_Name = name, ccfg_SubMode = scfg_SubscriptionMode config, ccfg_Earliest = scfg_Earliest config,
    ccfg_QueueSize = 0, ccfg_NewConsumerTimeout = minute, ccfg_InitialReconnectDelay = 0, ccfg_MaxReconnectDelay = 0\<rparr>"
  have cfg: "ccfg_Topic cfg = scfg_Topic config" "ccfg_Name cfg = name"
    "ccfg_ClientConfig cfg = sdk_client_config addr (scfg_Auth config)" by (simp_all add: cfg_def)
  obtain p w1 where p: "GetPartition pc rd (scfg_Topic config) (sdk_client_config addr (scfg_Auth config)) w = (Some p, w1)"
    using assms name by (auto simp: sdk_NewConsumer_def Let_def split: prod.splits option.splits)
  show ?thesis
  proof (cases "p > 0")
    case True
    obtain cs w2 where cs: "new_partitions cfg (scfg_Topic config) [0..<p] w1 = (cs, w2)" by fastforce
    have c: "c = PartitionedConsumer \<lparr>cli_list = cs, cli_FlowPeriodSecond = DefaultFlowPeriodSecond,
        cli_FlowPermit = DefaultFlowPermit, cli_Topic = scfg_Topic config, cli_Stopped = False\<rparr>"
      using assms name p True cs by (simp add: sdk_NewConsumer_def cfg_def)
    note parts = new_partitions_spec [OF cs]
    have len: "length cs = p" using parts by (metis length_map length_upt diff_zero)
    have "distinct (map (partition_topic (scfg_Topic config)) [0..<p])"
      by (simp add: distinct_map inj_on_def partition_topic_inj)
    with parts len p c cfg show ?thesis by (intro exI [of _ name] exI [of _ w1]) (auto simp: name)
  next
    case False
    obtain x w2 where x: "new_consumerImpl cfg w1 = (x, w2)" by fastforce
    have c: "c = SingleConsumer x" using assms name p False x by (simp add: sdk_NewConsumer_def cfg_def)
    have "ccfg_Name (mcs_cfg (ci_csm x)) = name" "ccfg_Topic (mcs_cfg (ci_csm x)) = scfg_Topic config"
      using new_consumerImpl_simps(4) [OF x] cfg by (simp_all add: ConsumerConfig_SetDefaults_def Let_def)
    with new_consumerImpl_simps(1,2) [OF x] c p False cfg(1) show ?thesis by (intro exI [of _ name] exI [of _ w1]) (auto simp: name)
  qed
qed

text \<open>
  C31. \<open>Handler\<close> handles, then acknowledges: when it returns it has either done nothing (the batch cannot
  be decoded, the consumer is inactive, or the message is not for the current consumer), or it has
  handed the payloads of the message to the handler one by one, in order, up to the first that fails,
  and has then acknowledged the message exactly once, whether or not one failed.
\<close>

theorem handler_handles_then_acks:
  assumes "consumerImpl_Handler pc he handler m s h = (HReturned, acts, s', h')"
  shows "acts = [] \<or> (\<exists>list hs r. handler_batch pc m = Inr list \<and> acts = map (\<lambda>(p, e). Handled p e) hs @ [Acked r] \<and>
    hs \<noteq> [] \<and> map fst hs = take (length hs) (payloads m list) \<and>
    (\<forall>e \<in> set (butlast (map snd hs)). e = None) \<and> (length hs = length (payloads m list) \<or> snd (last hs) \<noteq> None))"
proof (cases "acts = []")
  case False
  then obtain list where list: "handler_batch pc m = Inr list"
    using assms by (auto simp: consumerImpl_Handler_def split: sum.splits go_error.splits)
  from assms False list obtain s1 i s2 where u: "ManagedConsumer_Unactive (he_between he) s = (Inr False, s1)"
    and i: "ManagedConsumer_ConsumerID (he_id he) s1 = (Some i, s2)" "i = Message_ConsumerID m"
    by (auto simp: consumerImpl_Handler_def split: sum.splits prod.splits bool.splits option.splits if_splits)
  obtain as1 h1 where hl: "handle_list handler m (payloads m list) h = (as1, h1)" by fastforce
  obtain r s3 where ack: "ManagedConsumer_Ack pc (he_ack he) m s2 = (Some r, s3)"
    using assms False list u i hl by (auto simp: consumerImpl_Handler_def split: prod.splits option.splits)
  have acts: "acts = as1 @ [Acked r]" using assms list u i hl ack by (simp add: consumerImpl_Handler_def)
  have "payloads m list \<noteq> []" by (simp add: payloads_def)
  with handle_list_spec [OF hl] list acts show ?thesis by (intro disjI2) blast
qed simp

text \<open>
  After \<open>Stop\<close> handling ends: in any run of \<open>ReceiveAndHandle\<close> in which \<open>Stop\<close> is called once, at most
  one message is handled after that call, the one for which the flag had been tested before it. Then the
  loop returns with the next message, or when it sees the cancelled context, and closes \<open>stopped\<close>, so
  that \<open>Stop\<close> returns, without a panic.
\<close>

theorem stop_ends_handling:
  assumes "ci_stopFlag c = 0" "\<not> ci_stopped c" "SdStop \<notin> set evs" "SdStop \<notin> set evs'"
    and "consumerImpl_ReceiveAndHandle pc handler evs c w h = s" "sd_panic s = None"
    and "consumerImpl_ReceiveAndHandle pc handler (evs @ SdStop # evs') c w h = s'"
  shows "(sd_log s' = sd_log s \<and> sd_panic s' = None \<or>
      (\<exists>m acts. sd_busy s = Some m \<and> sd_log s' = sd_log s @ [(m, acts)] \<and> sd_busy s' = None)) \<and>
    (sd_panic s' = None \<and> sd_busy s' = None \<and> (ev = SdCtxDone \<or> ev = SdMsg m) \<longrightarrow>
      sd_returned (sdk_step pc handler ev s') \<and> ci_stopped (sd_ci (sdk_step pc handler ev s')) \<and>
      sd_panic (sdk_step pc handler ev s') = None)"
proof -
  have run: "running s"
    using sdk_run_running [OF _ assms(3), of _ pc handler] assms(1,2,5)
    by (force simp: consumerImpl_ReceiveAndHandle_def running_def)
  let ?t = "sdk_step pc handler SdStop s"
  have t: "stopping ?t" "handled_at_most s ?t"
    using Stop_running [OF run] assms(6) by (simp_all add: sdk_step_def)
  have s': "s' = fold (sdk_step pc handler) evs' ?t"
    using assms(5,7) by (auto simp: consumerImpl_ReceiveAndHandle_def)
  have "stopping s'" "handled_at_most s s'"
    using sdk_run_stopping [OF t(1) assms(4), of pc handler] handled_at_most_trans [OF t(2)] unfolding s' by blast+
  then show ?thesis using sdk_step_stopped [of s' ev m pc handler] assms(6) by (auto simp: handled_at_most_def)
qed

section \<open>Witnesses\<close>

text \<open>A broker that says that a topic has two partitions.\<close>

definition demo_partitions_frame :: Frame where
  "demo_partitions_frame = simple_frame (new_BaseCommand\<lparr>BaseCommand_Type := Some BaseCommand_PARTITIONED_METADATA_RESPONSE,
     BaseCommand_PartitionMetadataResponse := Some (new_CommandPartitionedTopicMetadataResponse
       \<lparr>CommandPartitionedTopicMetadataResponse_Partitions := Some 2\<rparr>)\<rparr>)"

definition demo_sdk_config :: sdk_ConsumerConfig where
  "demo_sdk_config = \<lparr>scfg_Topic = TopicForAccessID ''me'', scfg_Auth = \<lparr>ap_AuthMethod = ''auth1'', ap_AuthData = []\<rparr>,
     scfg_SubscriptionMode = SubscriptionModeFailover, scfg_Earliest = False\<rparr>"

abbreviation demo_sdk_cfg :: ClientConfig where
  "demo_sdk_cfg \<equiv> sdk_client_config ''pulsar://b'' (scfg_Auth demo_sdk_config)"

definition demo_sdk_pool :: ClientPool where
  "demo_sdk_pool = \<lparr>wd_clients = [demo_pair_client], wd_queues = [],
     wp_managed = [(NewManagedClient demo_sdk_cfg)\<lparr>mc_client := Some 0, mc_waitc := None\<rparr>],
     wp_pool = [ClientPool_key demo_sdk_cfg \<mapsto> 0], wp_removers = [(ClientPool_key demo_sdk_cfg, 0)]\<rparr>"

definition demo_sdk_round :: lookup_round where
  "demo_sdk_round = \<lparr>lk_between = id, lk_get = [], lk_env = (\<lambda>c. (c, WakeResp demo_partitions_frame))\<rparr>"

lemma demo_partitioned:
  fixes w :: "Conn Client"
  assumes "ep_S w = ep_S demo_pair_client" "ep_Dispatcher w = NewFrameDispatcher"
    and "Discoverer_PartitionedMetadata (conn_sender demo_any_proto) (lk_env demo_sdk_round) topic w = (r, w')"
  shows "r = Inr (BaseCommand_GetPartitionMetadataResponse (Frame_BaseCmd demo_partitions_frame))"
proof -
  let ?w = "snd (ep_Next w)" and ?k = "KReq (fst (ep_Next w))"
  have w: "ep_S ?w = ep_S w" "ep_Dispatcher ?w = ep_Dispatcher w" by (simp_all add: ep_Next_def split: prod.split)
  have free: "disp_lookup ?k (ep_Dispatcher ?w) = None" using assms(2) w(2) by (simp add: NewFrameDispatcher_def)
  have snt: "fst (ep_send (conn_sender demo_any_proto) cmd (?w\<lparr>ep_Dispatcher := d\<rparr>)) = None"
    if "\<not> asks_again cmd" for cmd d
  proof -
    have "ep_S (?w\<lparr>ep_Dispatcher := d\<rparr>) = ep_S demo_pair_client" using assms(1) w(1) by simp
    from demo_ep_send [OF this \<open>\<not> asks_again cmd\<close>] show ?thesis by auto
  qed
  show ?thesis
    by (rule demo_request [OF free assms(3) [unfolded Discoverer_PartitionedMetadata_def case_prod_beta] snt])
      (auto simp: demo_sdk_round_def asks_again_def Discoverer_metadata_cmd_def)
qed

lemma demo_GetPartition:
  "\<exists>w1. GetPartition demo_any_proto demo_sdk_round (TopicForAccessID ''me'') demo_sdk_cfg demo_sdk_pool = (Some 2, w1)"
proof -
  have q: "demo_pair_client\<lparr>st_Queues := []\<rparr> = demo_pair_client" by (simp add: demo_pair_client_def new_Client_def)
  obtain r cl where run: "Discoverer_PartitionedMetadata (conn_sender demo_any_proto) (lk_env demo_sdk_round)
      (TopicForAccessID ''me'') demo_pair_client = (r, cl)" by fastforce
  have "ep_Dispatcher demo_pair_client = NewFrameDispatcher" by (simp add: demo_pair_client_def new_Client_def)
  from demo_partitioned [OF refl this run]
  have r: "r = Inr (BaseCommand_GetPartitionMetadataResponse (Frame_BaseCmd demo_partitions_frame))" .
  have "unat (CommandPartitionedTopicMetadataResponse_GetPartitions
      (BaseCommand_GetPartitionMetadataResponse (Frame_BaseCmd demo_partitions_frame))) = 2"
    by (simp add: demo_partitions_frame_def simple_frame_def BaseCommand_GetPartitionMetadataResponse_def
        CommandPartitionedTopicMetadataResponse_GetPartitions_def get_field_def)
  with run q r show ?thesis
    by (simp add: GetPartition_def ClientPool_Partitions_def ClientPool_Get_def demo_sdk_pool_def pool_client_def acquire_obj
        with_client_def Let_def)
qed

theorem new_consumer_partitions_witness:
  "\<exists>l w'. sdk_NewConsumer demo_any_proto demo_sdk_round (\<lambda>_. '''') ''pulsar://b'' demo_sdk_config demo_sdk_pool =
     (Some (Inr (PartitionedConsumer l)), w') \<and>
     map ci_topic (cli_list l) = [partition_topic (TopicForAccessID ''me'') 0, partition_topic (TopicForAccessID ''me'') 1]"
proof -
  obtain w1 where p: "GetPartition demo_any_proto demo_sdk_round (TopicForAccessID ''me'') demo_sdk_cfg demo_sdk_pool = (Some 2, w1)"
    using demo_GetPartition by blast
  have name: "\<exists>n. subscriptionName (\<lambda>_. '''') (TopicForAccessID ''me'') = Inr n"
    by (simp add: subscriptionName_def getTenant_def TopicForAccessID_def TrimPrefix.simps Let_def)
  have topic: "scfg_Topic demo_sdk_config = TopicForAccessID ''me''" by (simp add: demo_sdk_config_def)
  have "\<exists>l w'. sdk_NewConsumer demo_any_proto demo_sdk_round (\<lambda>_. '''') ''pulsar://b'' demo_sdk_config demo_sdk_pool =
      (Some (Inr (PartitionedConsumer l)), w')"
    using p name by (auto simp: sdk_NewConsumer_def topic split: prod.split)
  then obtain l w' where l: "sdk_NewConsumer demo_any_proto demo_sdk_round (\<lambda>_. '''') ''pulsar://b'' demo_sdk_config demo_sdk_pool =
      (Some (Inr (PartitionedConsumer l)), w')" by blast
  from new_consumer_partitions [OF l] p have "length (cli_list l) = 2"
    "map ci_topic (cli_list l) = map (partition_topic (TopicForAccessID ''me'')) [0..<length (cli_list l)]"
    by (auto simp: topic)
  with l show ?thesis by (simp add: numeral_2_eq_2)
qed

definition demo_plain_msg :: Message where
  "demo_plain_msg = \<lparr>Message_Topic = ''t'', Message_ConsumerID = 0, Message_Msg = None, Message_Meta = Some new_MessageMetadata,
     Message_Payload = [7]\<rparr>"

definition demo_he :: handler_env where
  "demo_he = \<lparr>he_between = id, he_id = [], he_ack = []\<rparr>"

abbreviation demo_handled :: "handler_end \<times> handler_act list \<times> mcs_world \<times> bytes list" where
  "demo_handled \<equiv> consumerImpl_Handler demo_any_proto demo_he (\<lambda>m p h. (None, p # h)) demo_plain_msg demo_mcs []"

theorem handler_handles_then_acks_witness:
  "\<exists>s'. demo_handled = (HReturned, [Handled [7] None, Acked None], s', [[7]])"
proof -
  let ?w = "demo_sub_client\<lparr>st_Queues := [(make_chan 4)\<lparr>ch_buf := [demo_msg]\<rparr>]\<rparr>"
  have "ep_S ?w = ep_S demo_pair_client" by (simp add: demo_sub_client_def)
  moreover have "\<not> asks_again (Consumer_ack_cmd i mid)" for i mid by (simp add: asks_again_def Consumer_ack_cmd_def)
  ultimately obtain c where snt: "ep_send (conn_sender demo_any_proto)
      (Consumer_ack_cmd (Consumer_ConsumerID (the_Consumer 0 ?w)) (CommandMessage_GetMessageId (Message_Msg demo_plain_msg))) ?w =
      (None, ?w\<lparr>ep_S := c\<rparr>)" using demo_ep_send by blast
  have b: "handler_batch demo_any_proto demo_plain_msg = Inr []"
    by (simp add: handler_batch_def demo_plain_msg_def new_MessageMetadata_def Let_def)
  have u: "ManagedConsumer_Unactive id demo_mcs = (Inr False, demo_mcs)" "ManagedConsumer_ConsumerID [] demo_mcs = (Some 0, demo_mcs)"
    by (simp_all add: ManagedConsumer_Unactive_def ManagedConsumer_ConsumerID_def demo_mcs_def NewManagedConsumer_def Let_def
        the_mcs_consumer_def demo_sub_client_def newConsumer_def NewClientPool_def eval_nat_numeral)
  have "\<exists>s'. ManagedConsumer_Ack demo_any_proto [] demo_plain_msg demo_mcs = (Some None, s')"
    using snt by (simp add: ManagedConsumer_Ack_def mcs_use_def acquire_obj demo_mcs_def NewManagedConsumer_def Let_def
        NewClientPool_def with_client_def Consumer_Ack_def flat_err_def)
  with b u have run: "\<exists>s'. demo_handled = (HReturned, [Handled [7] None, Acked None], s', [[7]])"
    by (auto simp: consumerImpl_Handler_def demo_he_def payloads_def demo_plain_msg_def)
  then obtain s' where "demo_handled = (HReturned, [Handled [7] None, Acked None], s', [[7]])" by blast
  from handler_handles_then_acks [OF this] run show ?thesis by blast
qed

definition demo_ci :: consumerImpl where
  "demo_ci = fst (new_consumerImpl demo_consumer_cfg NewClientPool)"

theorem stop_ends_handling_witness:
  "ci_stopped (sd_ci (consumerImpl_ReceiveAndHandle demo_any_proto (\<lambda>m p h. (None, p # h))
     [SdMsg demo_plain_msg, SdStop, SdHandle demo_he, SdCtxDone] demo_ci NewClientPool [])) \<or>
   sd_panic (consumerImpl_ReceiveAndHandle demo_any_proto (\<lambda>m p h. (None, p # h))
     [SdMsg demo_plain_msg, SdStop, SdHandle demo_he] demo_ci NewClientPool []) \<noteq> None"
proof -
  let ?h = "\<lambda>(m :: Message) (p :: bytes) h. (None :: go_error option, p # h)"
  have c: "ci_stopFlag demo_ci = 0" "\<not> ci_stopped demo_ci" by (simp_all add: demo_ci_def new_consumerImpl_def split: prod.split)
  define s where "s = consumerImpl_ReceiveAndHandle demo_any_proto ?h [SdMsg demo_plain_msg, SdStop, SdHandle demo_he] demo_ci NewClientPool []"
  have p: "sd_panic (consumerImpl_ReceiveAndHandle demo_any_proto ?h [SdMsg demo_plain_msg] demo_ci NewClientPool []) = None"
    by (simp add: consumerImpl_ReceiveAndHandle_def sdk_step_def c)
  have b: "sd_busy s = None"
    by (simp add: s_def consumerImpl_ReceiveAndHandle_def sdk_step_def c consumerImpl_Stop_def Let_def)
  have "consumerImpl_ReceiveAndHandle demo_any_proto ?h ([SdMsg demo_plain_msg] @ SdStop # [SdHandle demo_he]) demo_ci NewClientPool [] = s"
    by (simp add: s_def)
  from stop_ends_handling [OF c _ _ refl p this, of SdCtxDone] b show ?thesis
    by (auto simp: s_def consumerImpl_ReceiveAndHandle_def)
qed

section \<open>Corner cases\<close>

text \<open>\<open>Stop\<close> before \<open>ReceiveAndHandle\<close> calls a nil function; a message without metadata makes \<open>Handler\<close> panic.\<close>

lemma early_Stop_panics: "\<not> ci_cancelFunc (sd_ci s) \<Longrightarrow> \<exists>p. sd_panic (consumerImpl_Stop s) = Some (ErrPanic p)"
  by (simp add: consumerImpl_Stop_def Let_def)

lemma no_metadata_panics: "Message_Meta m = None \<Longrightarrow> \<exists>p. fst (consumerImpl_Handler pc he handler m s h) = HPanic (ErrPanic p)"
  by (simp add: consumerImpl_Handler_def handler_batch_def MessageMetadata_GetNumMessagesInBatch_def)

text \<open>After a second \<open>Stop\<close> the flag is 2 and a message that is received before the context is seen is still handled.\<close>

lemma second_Stop_handles:
  assumes "ci_stopFlag (sd_ci s) = 2" "sd_panic s = None" "\<not> sd_returned s"
    and "sd_busy s = None"
  shows "\<exists>acts. sd_log (sdk_step pc handler (SdHandle he) (sdk_step pc handler (SdMsg m) s)) = sd_log s @ [(m, acts)]"
  using assms sd_handle_simps(7) [of pc handler m he "s\<lparr>sd_busy := Some m\<rparr>"] by (simp add: sdk_step_def)

end
