(* ===== verification/SdkList.thy ===== *)
theory SdkList
  imports Sdk
begin

text \<open>
  The consumer of a partitioned topic, \<^verbatim>\<open>sdk/consumers.go\<close>: one goroutine per partition runs the
  receive loop of that partition, another one grants permits periodically, and \<open>Stop\<close> starts a goroutine
  per partition that stops it. All of them share the pool and the handler of the user. A panic in one
  goroutine ends the program.
\<close>

section \<open>Logging of the SDK\<close>

text \<open>
  \<^verbatim>\<open>sdk/utils.go\<close> sets up the logger when the package is loaded, from two environment variables: whether
  it prints for people, the level, and an error for an unknown one.
\<close>

datatype zerolog_level = ZDebug | ZInfo | ZWarn | ZError | ZPanic

definition sdk_log_init :: "(string \<Rightarrow> string option) \<Rightarrow> bool \<times> zerolog_level \<times> string list" where
  "sdk_log_init LookupEnv =
     (LookupEnv ''LOCAL_LOGGER'' \<noteq> None,
      (case LookupEnv ''LOG_LEVEL'' of
         None \<Rightarrow> (ZDebug, [])
       | Some level \<Rightarrow>
           if level = ''debug'' then (ZDebug, [])
           else if level = ''info'' then (ZInfo, [])
           else if level = ''warn'' then (ZWarn, [])
           else if level = ''error'' then (ZError, [])
           else if level = ''panic'' then (ZPanic, [])
           else (ZDebug, [''unknown value for LOG_LEVEL: '' @ level @ '', using debug''])))"

section \<open>State\<close>

record 'h list_run =
  lr_list :: ConsumerList
  lr_parts :: "'h sdk_state list"
  lr_started :: "nat list"
  lr_stops :: "nat list"
  lr_cron :: bool
  lr_pool :: ClientPool
  lr_handler :: 'h
  lr_panic :: "go_error option"

text \<open>The state of a partition, which sees the shared parts as they are now, and writing it back.\<close>

definition lr_get :: "nat \<Rightarrow> 'h list_run \<Rightarrow> 'h sdk_state" where
  "lr_get i s = (lr_parts s ! i)\<lparr>sd_pool := lr_pool s, sd_handler := lr_handler s\<rparr>"

definition lr_put :: "nat \<Rightarrow> 'h sdk_state \<Rightarrow> 'h list_run \<Rightarrow> 'h list_run" where
  "lr_put i p s = s\<lparr>lr_parts := (lr_parts s)[i := p], lr_pool := sd_pool p, lr_handler := sd_handler p, lr_panic := sd_panic p\<rparr>"

definition new_part :: "ClientPool \<Rightarrow> 'h \<Rightarrow> consumerImpl \<Rightarrow> 'h sdk_state" where
  "new_part w h c = \<lparr>sd_ci = c, sd_pool = w, sd_handler = h, sd_ctxDone = False, sd_returned = False, sd_panic = None,
     sd_busy = None, sd_log = []\<rparr>"

definition new_list_run :: "ConsumerList \<Rightarrow> ClientPool \<Rightarrow> 'h \<Rightarrow> 'h list_run" where
  "new_list_run l w h =
     \<lparr>lr_list = l, lr_parts = map (new_part w h) (cli_list l), lr_started = [], lr_stops = [],
      lr_cron = (cli_FlowPeriodSecond l \<noteq> 0 \<and> cli_FlowPermit l \<noteq> 0), lr_pool = w, lr_handler = h, lr_panic = None\<rparr>"

section \<open>Steps\<close>

datatype list_event =
    LrStart nat
  | LrPart nat sdk_event
  | LrStop
  | LrStopPart nat
  | LrCancel
  | LrTick
  | LrCronStopped
  | LrOther "ClientPool \<Rightarrow> ClientPool"

text \<open>\<open>Stop\<close> up to the start of its goroutines; closing \<open>Stopped\<close> a second time panics.\<close>

definition ConsumerList_Stop :: "'h list_run \<Rightarrow> 'h list_run" where
  "ConsumerList_Stop s =
     (case close_signal (cli_Stopped (lr_list s)) of
        Inl p \<Rightarrow> s\<lparr>lr_panic := Some p\<rparr>
      | Inr cl \<Rightarrow> s\<lparr>lr_list := (lr_list s)\<lparr>cli_Stopped := cl\<rparr>, lr_stops := lr_stops s @ [0..<length (lr_parts s)]\<rparr>)"

definition list_step :: "proto \<Rightarrow> 'h payload_handler \<Rightarrow> list_event \<Rightarrow> 'h list_run \<Rightarrow> 'h list_run" where
  "list_step pc handler ev s =
     (if lr_panic s \<noteq> None then s
      else
        (case ev of
           LrStart i \<Rightarrow>
             if i < length (lr_parts s) \<and> i \<notin> set (lr_started s)
             then s\<lparr>lr_started := i # lr_started s,
                    lr_parts := (lr_parts s)[i := (lr_parts s ! i)\<lparr>sd_ci := (sd_ci (lr_parts s ! i))\<lparr>ci_cancelFunc := True\<rparr>\<rparr>]\<rparr>
             else s
         | LrPart i e \<Rightarrow>
             if i < length (lr_parts s) \<and> i \<in> set (lr_started s) \<and> e \<noteq> SdStop
             then lr_put i (sdk_step pc handler e (lr_get i s)) s else s
         | LrStop \<Rightarrow> ConsumerList_Stop s
         | LrStopPart i \<Rightarrow>
             if i < length (lr_parts s) \<and> i \<in> set (lr_stops s)
             then lr_put i (consumerImpl_Stop (lr_get i s)) (s\<lparr>lr_stops := remove1 i (lr_stops s)\<rparr>) else s
         | LrCancel \<Rightarrow> s\<lparr>lr_parts := map (\<lambda>p. p\<lparr>sd_ctxDone := True\<rparr>) (lr_parts s)\<rparr>
         | LrTick \<Rightarrow>
             if lr_cron s
             then s\<lparr>lr_pool := CronFlow_tick pc ((lr_list s)\<lparr>cli_list := map sd_ci (lr_parts s)\<rparr>) (lr_pool s)\<rparr> else s
         | LrCronStopped \<Rightarrow> if cli_Stopped (lr_list s) then s\<lparr>lr_cron := False\<rparr> else s
         | LrOther f \<Rightarrow> s\<lparr>lr_pool := f (lr_pool s)\<rparr>))"

definition ConsumerList_ReceiveAndHandle ::
    "proto \<Rightarrow> 'h payload_handler \<Rightarrow> list_event list \<Rightarrow> ConsumerList \<Rightarrow> ClientPool \<Rightarrow> 'h \<Rightarrow> 'h list_run" where
  "ConsumerList_ReceiveAndHandle pc handler evs l w h = fold (list_step pc handler) evs (new_list_run l w h)"

text \<open>\<open>ReceiveAndHandle\<close> waits for the loops of all partitions, \<open>Stop\<close> for all of them to be stopped.\<close>

definition list_returned :: "'h list_run \<Rightarrow> bool" where
  "list_returned s \<longleftrightarrow> (\<forall>p \<in> set (lr_parts s). sd_returned p)"

definition list_Stop_returned :: "'h list_run \<Rightarrow> bool" where
  "list_Stop_returned s \<longleftrightarrow> cli_Stopped (lr_list s) \<and> lr_stops s = [] \<and> (\<forall>p \<in> set (lr_parts s). ci_stopped (sd_ci p))"

section \<open>Lemmas\<close>

lemma lr_get_simps [simp]:
  "sd_ci (lr_get i s) = sd_ci (lr_parts s ! i)" "sd_log (lr_get i s) = sd_log (lr_parts s ! i)"
  "sd_panic (lr_get i s) = sd_panic (lr_parts s ! i)" "sd_returned (lr_get i s) = sd_returned (lr_parts s ! i)"
  "sd_ctxDone (lr_get i s) = sd_ctxDone (lr_parts s ! i)" "sd_busy (lr_get i s) = sd_busy (lr_parts s ! i)"
  by (simp_all add: lr_get_def)

lemma lr_put_simps [simp]:
  "lr_parts (lr_put i p s) = (lr_parts s)[i := p]" "lr_panic (lr_put i p s) = sd_panic p"
  "lr_stops (lr_put i p s) = lr_stops s" "lr_started (lr_put i p s) = lr_started s" "lr_list (lr_put i p s) = lr_list s"
  by (simp_all add: lr_put_def)

lemma part_state_cong [simp]:
  "stopping (lr_get i s) = stopping (lr_parts s ! i)" "running (lr_get i s) = running (lr_parts s ! i)"
  "handled_at_most (lr_get i s) t = handled_at_most (lr_parts s ! i) t"
  by (simp_all add: stopping_def running_def handled_at_most_def)

lemma list_step_length [simp]: "length (lr_parts (list_step pc handler ev s)) = length (lr_parts s)"
  by (cases ev) (simp_all add: list_step_def ConsumerList_Stop_def split: sum.split)

lemma list_run_length [simp]: "length (lr_parts (fold (list_step pc handler) evs s)) = length (lr_parts s)"
  by (induction evs arbitrary: s) simp_all

text \<open>A partition that has been stopped handles at most the message it was at, whatever the other goroutines do.\<close>

lemma list_step_stopping:
  assumes "stopping (lr_parts s ! i)" "i < length (lr_parts s)" "i \<notin> set (lr_stops s)" "ev \<noteq> LrStop"
  shows "let s' = list_step pc handler ev s in stopping (lr_parts s' ! i) \<and> handled_at_most (lr_parts s ! i) (lr_parts s' ! i) \<and>
    i \<notin> set (lr_stops s')"
proof (cases ev)
  case (LrPart j e)
  show ?thesis
  proof (cases "j = i \<and> e \<noteq> SdStop")
    case True
    with sdk_step_stopping [of "lr_get i s" e pc handler] assms LrPart show ?thesis by (auto simp: list_step_def Let_def)
  qed (use assms LrPart in \<open>auto simp: list_step_def Let_def nth_list_update\<close>)
next
  case (LrStart j)
  with assms show ?thesis by (auto simp: list_step_def Let_def nth_list_update stopping_def handled_at_most_def)
next
  case (LrStopPart j)
  with assms show ?thesis by (cases "j = i") (auto simp: list_step_def Let_def nth_list_update dest: notin_set_remove1)
qed (use assms in \<open>auto simp: list_step_def Let_def stopping_def handled_at_most_def\<close>)

lemma list_step_started: "set (lr_started s) \<subseteq> set (lr_started (list_step pc handler ev s))"
  by (cases ev) (auto simp: list_step_def ConsumerList_Stop_def split: sum.split)

lemma list_step_panic: "lr_panic (list_step pc handler ev s) = None \<Longrightarrow> lr_panic s = None"
  by (auto simp: list_step_def split: if_splits)

lemma list_run_panic: "lr_panic (fold (list_step pc handler) evs s) = None \<Longrightarrow> lr_panic s = None"
  by (induction evs arbitrary: s) (auto dest: list_step_panic)

lemma list_run_stopping:
  assumes "stopping (lr_parts s ! i)" "i < length (lr_parts s)" "i \<notin> set (lr_stops s)" "LrStop \<notin> set evs"
  shows "let s' = fold (list_step pc handler) evs s in
    stopping (lr_parts s' ! i) \<and> handled_at_most (lr_parts s ! i) (lr_parts s' ! i) \<and> set (lr_started s) \<subseteq> set (lr_started s')"
  using assms
proof (induction evs arbitrary: s)
  case (Cons ev evs)
  let ?s1 = "list_step pc handler ev s"
  have ev: "ev \<noteq> LrStop" "LrStop \<notin> set evs" using Cons.prems(4) by auto
  note step = list_step_stopping [OF Cons.prems(1-3) ev(1), of pc handler, unfolded Let_def]
  have "i < length (lr_parts ?s1)" using Cons.prems(2) by simp
  note IH = Cons.IH [OF conjunct1 [OF step] this _ ev(2), unfolded Let_def]
  show ?case
    using step IH list_step_started [of s pc handler ev] handled_at_most_trans [of "lr_parts s ! i" "lr_parts ?s1 ! i"]
    by (auto simp: Let_def)
qed (simp add: Let_def)

text \<open>The loop of a stopped partition that is at no message returns at its next step.\<close>

lemma list_step_stopped:
  assumes "stopping (lr_parts s ! i)" "i < length (lr_parts s)" "i \<in> set (lr_started s)" "lr_panic s = None"
    and "sd_panic (lr_parts s ! i) = None" "sd_busy (lr_parts s ! i) = None" "e = SdCtxDone \<or> e = SdMsg m"
  shows "sd_returned (lr_parts (list_step pc handler (LrPart i e) s) ! i) \<and>
    ci_stopped (sd_ci (lr_parts (list_step pc handler (LrPart i e) s) ! i)) \<and> lr_panic (list_step pc handler (LrPart i e) s) = None"
  using sdk_step_stopped [of "lr_get i s" e m pc handler] assms by (auto simp: list_step_def)

text \<open>While \<open>Stop\<close> has not been called, or has not reached a partition, that partition's flag is not set.\<close>

definition list_fresh :: "nat \<Rightarrow> 'h list_run \<Rightarrow> bool" where
  "list_fresh i s \<longleftrightarrow>
     (lr_panic s = None \<longrightarrow> sd_panic (lr_parts s ! i) = None) \<and>
     (if i \<in> set (lr_started s) then running (lr_parts s ! i)
      else sd_busy (lr_parts s ! i) = None \<and> \<not> sd_returned (lr_parts s ! i) \<and> ci_stopFlag (sd_ci (lr_parts s ! i)) = 0 \<and> \<not> ci_stopped (sd_ci (lr_parts s ! i)))"

lemma list_step_fresh:
  assumes "list_fresh i s" "i < length (lr_parts s)" "ev = LrStopPart i \<Longrightarrow> i \<notin> set (lr_stops s)"
  shows "list_fresh i (list_step pc handler ev s)"
proof (cases ev)
  case (LrPart j e)
  show ?thesis
  proof (cases "j = i \<and> e \<noteq> SdStop")
    case True
    with sdk_step_running [of "lr_get i s" e pc handler] assms LrPart show ?thesis by (auto simp: list_step_def list_fresh_def)
  qed (use assms LrPart in \<open>auto simp: list_step_def list_fresh_def nth_list_update\<close>)
qed (use assms in \<open>auto simp: list_step_def list_fresh_def ConsumerList_Stop_def nth_list_update running_def split: sum.split\<close>)

lemma list_run_fresh:
  assumes "list_fresh i s" "i < length (lr_parts s)" "LrStopPart i \<notin> set evs"
  shows "list_fresh i (fold (list_step pc handler) evs s)"
  using assms
proof (induction evs arbitrary: s)
  case (Cons ev evs)
  then have "list_fresh i (list_step pc handler ev s)" by (intro list_step_fresh) auto
  with Cons show ?case by simp
qed simp

lemma list_step_stops:
  assumes "ev \<noteq> LrStop"
  shows "distinct (lr_stops s) \<Longrightarrow> distinct (lr_stops (list_step pc handler ev s))"
    "ev \<noteq> LrStopPart i \<Longrightarrow> i \<in> set (lr_stops (list_step pc handler ev s)) \<longleftrightarrow> i \<in> set (lr_stops s)"
    "cli_Stopped (lr_list (list_step pc handler ev s)) = cli_Stopped (lr_list s)"
  using assms by (cases ev; auto simp: list_step_def)+

lemma list_run_stops:
  assumes "LrStop \<notin> set evs"
  shows "distinct (lr_stops s) \<Longrightarrow> distinct (lr_stops (fold (list_step pc handler) evs s))"
    "LrStopPart i \<notin> set evs \<Longrightarrow> i \<in> set (lr_stops (fold (list_step pc handler) evs s)) \<longleftrightarrow> i \<in> set (lr_stops s)"
    "cli_Stopped (lr_list (fold (list_step pc handler) evs s)) = cli_Stopped (lr_list s)"
  using assms by (induction evs arbitrary: s) (auto simp: list_step_stops)

lemma list_run_before_stop:
  assumes "LrStop \<notin> set evs" "lr_stops s = []" "list_fresh i s" "i < length (lr_parts s)"
  shows "lr_stops (fold (list_step pc handler) evs s) = [] \<and> list_fresh i (fold (list_step pc handler) evs s)"
  using assms
proof (induction evs arbitrary: s)
  case (Cons ev evs)
  have "lr_stops (list_step pc handler ev s) = []"
    using Cons.prems(1,2) by (cases ev) (auto simp: list_step_def)
  moreover have "list_fresh i (list_step pc handler ev s)"
    using Cons.prems by (intro list_step_fresh) simp_all
  ultimately show ?case using Cons.IH [of "list_step pc handler ev s"] Cons.prems by simp
qed simp

lemma list_step_stop_part:
  assumes "list_fresh i s" "i < length (lr_parts s)" "lr_panic s = None" "i \<in> set (lr_started s)" "i \<in> set (lr_stops s)"
    and "distinct (lr_stops s)"
  shows "let s' = list_step pc handler (LrStopPart i) s in stopping (lr_parts s' ! i) \<and>
    handled_at_most (lr_parts s ! i) (lr_parts s' ! i) \<and> i \<notin> set (lr_stops s') \<and> i \<in> set (lr_started s')"
  using assms Stop_running [of "lr_get i s"] by (auto simp: list_step_def list_fresh_def Let_def)

text \<open>The panic of a partition is the panic of the program.\<close>

lemma list_step_panics:
  assumes "lr_panic s = None \<Longrightarrow> sd_panic (lr_parts s ! i) = None" "i < length (lr_parts s)"
  shows "lr_panic (list_step pc handler ev s) = None \<Longrightarrow> sd_panic (lr_parts (list_step pc handler ev s) ! i) = None"
  using assms by (cases ev) (auto simp: list_step_def nth_list_update ConsumerList_Stop_def split: if_splits sum.splits)

lemma list_run_panics:
  assumes "lr_panic s = None \<Longrightarrow> sd_panic (lr_parts s ! i) = None" "i < length (lr_parts s)"
    and "lr_panic (fold (list_step pc handler) evs s) = None"
  shows "sd_panic (lr_parts (fold (list_step pc handler) evs s) ! i) = None"
  using assms
proof (induction evs arbitrary: s)
  case (Cons ev evs)
  have "i < length (lr_parts (list_step pc handler ev s))" using Cons.prems(2) by simp
  from Cons.IH [OF list_step_panics [OF Cons.prems(1,2)] this] Cons.prems(3) show ?case by simp
qed simp

section \<open>Properties\<close>

text \<open>
  C30. Stopping a partitioned consumer: in any interleaving of the partitions' loops, the periodic FLOW
  and the goroutines of one call of \<open>Stop\<close>, a partition whose loop has started handles at most one
  message after its goroutine of \<open>Stop\<close> has run, namely the message for which it had tested the flag
  before that and whose handler had not returned yet; if there is none it handles nothing and does not
  panic. From then on, whenever it is at no message and nothing has panicked, its loop returns, and its
  part of \<open>Stop\<close> with it, at its next message or when it sees the cancelled context.
\<close>

theorem list_stop_ends_handling:
  assumes "\<forall>c \<in> set (cli_list l). ci_stopFlag c = 0 \<and> \<not> ci_stopped c" "\<not> cli_Stopped l" "i < length (cli_list l)"
    and "LrStop \<notin> set evs" "LrStop \<notin> set es1" "LrStopPart i \<notin> set es1" "LrStop \<notin> set es2"
    and "ConsumerList_ReceiveAndHandle pc handler (evs @ LrStop # es1) l w h = s" "lr_panic s = None" "i \<in> set (lr_started s)"
    and "ConsumerList_ReceiveAndHandle pc handler (evs @ LrStop # es1 @ LrStopPart i # es2) l w h = t"
  shows "(sd_log (lr_parts t ! i) = sd_log (lr_parts s ! i) \<and> sd_panic (lr_parts t ! i) = None \<or>
      (\<exists>m acts. sd_busy (lr_parts s ! i) = Some m \<and> sd_log (lr_parts t ! i) = sd_log (lr_parts s ! i) @ [(m, acts)] \<and>
         sd_busy (lr_parts t ! i) = None)) \<and>
    (\<forall>e m. lr_panic t = None \<and> sd_busy (lr_parts t ! i) = None \<and> (e = SdCtxDone \<or> e = SdMsg m) \<longrightarrow>
      sd_returned (lr_parts (list_step pc handler (LrPart i e) t) ! i) \<and>
      ci_stopped (sd_ci (lr_parts (list_step pc handler (LrPart i e) t) ! i)) \<and>
      lr_panic (list_step pc handler (LrPart i e) t) = None)"
proof -
  let ?run = "fold (list_step pc handler)" and ?s0 = "new_list_run l w h"
  define u where "u = ?run evs ?s0"
  define v where "v = list_step pc handler LrStop u"
  have s: "s = ?run es1 v" using assms(8) by (simp add: ConsumerList_ReceiveAndHandle_def u_def v_def)
  have t: "t = ?run es2 (list_step pc handler (LrStopPart i) s)"
    using assms(11) by (simp add: ConsumerList_ReceiveAndHandle_def s u_def v_def)
  have len: "length (lr_parts u) = length (cli_list l)" "length (lr_parts s) = length (cli_list l)"
    unfolding s v_def u_def by (simp_all add: new_list_run_def)
  have part: "lr_parts ?s0 ! i = new_part w h (cli_list l ! i)" using assms(3) by (simp add: new_list_run_def)
  have "list_fresh i ?s0"
    using assms(1,3) part by (simp add: list_fresh_def new_part_def) (simp add: new_list_run_def)
  with assms(3,4) have u: "lr_stops u = []" "list_fresh i u"
    unfolding u_def using list_run_before_stop [of evs ?s0 i pc handler] by (simp_all add: new_list_run_def)
  moreover have "\<not> cli_Stopped (lr_list u)"
    unfolding u_def list_run_stops(3) [OF assms(4)] using assms(2) by (simp add: new_list_run_def)
  moreover have "lr_panic u = None"
    using list_run_panic [of pc handler es1 v] list_step_panic [of pc handler LrStop u] assms(9) s v_def by simp
  ultimately have "lr_stops v = [0..<length (cli_list l)]"
    unfolding v_def by (simp add: list_step_def ConsumerList_Stop_def close_signal_def len)
  with assms(3,5,6) have stops: "i \<in> set (lr_stops s)" "distinct (lr_stops s)"
    unfolding s by (simp_all add: list_run_stops)
  have "list_fresh i s"
    unfolding s v_def using u(2) assms(3,6) len by (intro list_run_fresh list_step_fresh) simp_all
  then have ps: "sd_panic (lr_parts s ! i) = None" using assms(9) by (simp add: list_fresh_def)
  let ?s1 = "list_step pc handler (LrStopPart i) s"
  from list_step_stop_part [OF \<open>list_fresh i s\<close> _ assms(9,10) stops, of pc handler] len assms(3)
  have x: "stopping (lr_parts ?s1 ! i)" "handled_at_most (lr_parts s ! i) (lr_parts ?s1 ! i)"
    "i \<notin> set (lr_stops ?s1)" "i \<in> set (lr_started ?s1)"
    by (simp_all add: Let_def)
  from list_run_stopping [OF x(1) _ x(3) assms(7), of pc handler] x(4) len assms(3)
  have y: "stopping (lr_parts t ! i)" "handled_at_most (lr_parts s ! i) (lr_parts t ! i)" "i \<in> set (lr_started t)"
    unfolding t Let_def using handled_at_most_trans [OF x(2)] by auto
  have pt: "sd_panic (lr_parts t ! i) = None" if "lr_panic t = None"
  proof -
    have "t = ?run (LrStopPart i # es2) s" by (simp add: t)
    with list_run_panics [of s i pc handler "LrStopPart i # es2"] ps len assms(3) that show ?thesis by simp
  qed
  have "i < length (lr_parts t)" unfolding t using len assms(3) by simp
  note z = list_step_stopped [OF y(1) this y(3), of _ _ pc handler]
  have "sd_log (lr_parts t ! i) = sd_log (lr_parts s ! i) \<and> sd_panic (lr_parts t ! i) = None \<or>
      (\<exists>m acts. sd_busy (lr_parts s ! i) = Some m \<and> sd_log (lr_parts t ! i) = sd_log (lr_parts s ! i) @ [(m, acts)] \<and>
         sd_busy (lr_parts t ! i) = None)"
    using y(2) ps unfolding handled_at_most_def by auto
  then show ?thesis
  proof (intro conjI [OF _ allI [OF allI [OF impI]]])
    fix e m
    assume *: "lr_panic t = None \<and> sd_busy (lr_parts t ! i) = None \<and> (e = SdCtxDone \<or> e = SdMsg m)"
    with z [of e m] pt show "sd_returned (lr_parts (list_step pc handler (LrPart i e) t) ! i) \<and>
        ci_stopped (sd_ci (lr_parts (list_step pc handler (LrPart i e) t) ! i)) \<and> lr_panic (list_step pc handler (LrPart i e) t) = None"
      by (elim conjE) simp
  qed
qed

definition demo_list :: ConsumerList where
  "demo_list = \<lparr>cli_list = [demo_ci, demo_ci], cli_FlowPeriodSecond = DefaultFlowPeriodSecond, cli_FlowPermit = DefaultFlowPermit,
     cli_Topic = ''t'', cli_Stopped = False\<rparr>"

theorem list_stop_ends_handling_witness:
  "\<exists>acts. sd_log (lr_parts (ConsumerList_ReceiveAndHandle demo_any_proto (\<lambda>m p h. (None, p # h))
     ([LrStart 1, LrStart 0, LrPart 1 (SdMsg demo_plain_msg)] @ LrStop # [LrStopPart 0] @ LrStopPart 1 # [LrPart 1 (SdHandle demo_he)])
     demo_list NewClientPool []) ! 1) \<in> {[], [(demo_plain_msg, acts)]}"
proof -
  let ?h = "\<lambda>(m :: Message) (p :: bytes) h. (None :: go_error option, p # h)"
  let ?evs = "[LrStart 1, LrStart 0, LrPart 1 (SdMsg demo_plain_msg)]"
  have ci: "ci_stopFlag demo_ci = 0" "\<not> ci_stopped demo_ci" "\<not> ci_cancelFunc demo_ci"
    by (simp_all add: demo_ci_def new_consumerImpl_def split: prod.split)
  define s where "s = ConsumerList_ReceiveAndHandle demo_any_proto ?h (?evs @ LrStop # [LrStopPart 0]) demo_list NewClientPool []"
  let ?step = "list_step demo_any_proto ?h"
  define p where "p = new_part NewClientPool ([] :: bytes list) demo_ci"
  define p' where "p' = p\<lparr>sd_ci := demo_ci\<lparr>ci_cancelFunc := True\<rparr>\<rparr>"
  have p: "sd_panic p' = None" "sd_log p' = []" "sd_busy p' = None" "\<not> sd_returned p'" "ci_stopFlag (sd_ci p') = 0" "ci_cancelFunc (sd_ci p')"
    "sd_ci p = demo_ci"
    by (simp_all add: p'_def p_def new_part_def ci)
  define s2 where "s2 = ?step (LrStart 0) (?step (LrStart 1) (new_list_run demo_list NewClientPool []))"
  have s2: "lr_panic s2 = None" "lr_parts s2 = [p', p']" "lr_started s2 = [0, 1]" "lr_stops s2 = []" "\<not> cli_Stopped (lr_list s2)"
    by (simp_all add: s2_def list_step_def new_list_run_def demo_list_def p_def [symmetric] p'_def p(7))
  define p1 where "p1 = (lr_get 1 s2)\<lparr>sd_busy := Some demo_plain_msg\<rparr>"
  define s3 where "s3 = ?step LrStop (?step (LrPart 1 (SdMsg demo_plain_msg)) s2)"
  have "sdk_step demo_any_proto ?h (SdMsg demo_plain_msg) (lr_get 1 s2) = p1" using p s2(2) by (simp add: sdk_step_def p1_def)
  then have s3: "lr_panic s3 = None" "lr_parts s3 = [p', p1]" "lr_started s3 = [0, 1]" "lr_stops s3 = [0, 1]"
    using s2 p by (simp_all add: s3_def list_step_def ConsumerList_Stop_def close_signal_def p1_def eval_nat_numeral)
  have "sd_panic (consumerImpl_Stop (lr_get 0 s3)) = None" using p s3(2) by (simp add: consumerImpl_Stop_def Let_def)
  moreover have "s = ?step (LrStopPart 0) s3" by (simp add: s_def ConsumerList_ReceiveAndHandle_def s2_def s3_def)
  ultimately have s: "lr_panic s = None" "1 \<in> set (lr_started s)" "sd_log (lr_parts s ! 1) = []" "sd_busy (lr_parts s ! 1) = Some demo_plain_msg"
    using s3 s2(2) p by (simp_all add: list_step_def p1_def)
  show ?thesis
    using list_stop_ends_handling [OF _ _ _ _ _ _ _ s_def [symmetric] s(1,2) refl, of "[LrPart 1 (SdHandle demo_he)]"]
      s(3,4) ci by (auto simp: demo_list_def)
qed

section \<open>Corner cases\<close>

text \<open>
  \<open>Stop\<close> that overtakes the start of a partition's loop calls a nil function; a second \<open>Stop\<close> closes a
  closed channel.
\<close>

lemma list_early_Stop_panics:
  assumes "lr_panic s = None" "i < length (lr_parts s)" "i \<in> set (lr_stops s)" "\<not> ci_cancelFunc (sd_ci (lr_parts s ! i))"
  shows "\<exists>p. lr_panic (list_step pc handler (LrStopPart i) s) = Some (ErrPanic p)"
  using assms by (simp add: list_step_def early_Stop_panics)

lemma list_second_Stop_panics:
  "lr_panic s = None \<Longrightarrow> cli_Stopped (lr_list s) \<Longrightarrow> \<exists>p. lr_panic (list_step pc handler LrStop s) = Some (ErrPanic p)"
  by (simp add: list_step_def ConsumerList_Stop_def close_signal_def)

end
