(* ===== verification/Delivery.thy ===== *)
theory Delivery
  imports ManagedConsumer
begin

text \<open>
  From the connection to the application: the read loop of a client and \<open>ReceiveAsync\<close> of the managed
  consumer run side by side and share the queue of messages, the overflow list and the overflow
  signal. The read loop blocks in \<open>HandleMessage\<close> when the queue is full, until \<open>ReceiveAsync\<close> takes
  the signal in its \<open>select\<close>. Shows that no message is lost between the two.
\<close>

section \<open>The two goroutines together\<close>

text \<open>\<open>HandleMessage\<close> goes on after its signal was received: it returns its error, which is reported.\<close>

definition Client_overflow_taken :: "nat \<Rightarrow> ('s, 'z) Client_scheme \<Rightarrow> ('s, 'z) Client_scheme" where
  "Client_overflow_taken k w =
     Client_async_err (ErrQueueFull (Consumer_Topic (the_Consumer k w)) (ch_cap (Consumer_Messages k w))) (w\<lparr>cl_stuck := False\<rparr>)"

text \<open>
  \<open>dv_taken\<close> are the frames the read loop of client \<open>c\<close> has taken from its connection. A frame arrives
  only while the loop is not blocked; the signal of consumer \<open>k\<close> is received only while the loop is
  blocked and \<open>ReceiveAsync\<close> is in the \<open>select\<close> with that consumer. \<open>DvOther\<close> is anything else that
  happens to the pool, such as acknowledgements.
\<close>

record delivery =
  dv_ra :: ra_state
  dv_taken :: "Frame list"

datatype dv_event = DvFrame Frame | DvSignal | DvGo | DvCase ra_select | DvOther "mcs_world \<Rightarrow> mcs_world"

definition dv_client :: "nat \<Rightarrow> ra_state \<Rightarrow> Conn Client" where
  "dv_client c s = wd_clients (snd (ra_world s)) ! c"

definition dv_upd :: "nat \<Rightarrow> (Conn Client \<Rightarrow> Conn Client) \<Rightarrow> ra_state \<Rightarrow> ra_state" where
  "dv_upd c f s = s\<lparr>ra_world := (fst (ra_world s), snd (with_client c (\<lambda>cl. ((), f cl)) (snd (ra_world s))))\<rparr>"

definition dv_step :: "proto \<Rightarrow> nat \<Rightarrow> nat \<Rightarrow> u32 \<Rightarrow> dv_event \<Rightarrow> delivery \<Rightarrow> delivery" where
  "dv_step pc c k highwater ev d =
     (let s = dv_ra d in
      case ev of
        DvFrame f \<Rightarrow>
          if cl_stuck (dv_client c s) then d
          else d\<lparr>dv_ra := dv_upd c (Client_handler pc (conn_sender pc) f) s, dv_taken := dv_taken d @ [f]\<rparr>
      | DvSignal \<Rightarrow>
          if cl_stuck (dv_client c s) \<and> (\<exists>n. ra_phase s = RaSelect (c, k) n)
          then d\<lparr>dv_ra := dv_upd c (Client_overflow_taken k) (ra_case pc highwater SelOverflow s)\<rparr>
          else d
      | DvGo \<Rightarrow> d\<lparr>dv_ra := ra_step pc highwater RaGo s\<rparr>
      | DvCase sel \<Rightarrow> if sel = SelOverflow then d else d\<lparr>dv_ra := ra_step pc highwater (RaCase sel) s\<rparr>
      | DvOther f \<Rightarrow> d\<lparr>dv_ra := ra_step pc highwater (RaOther f) s\<rparr>)"

definition dv_run :: "proto \<Rightarrow> nat \<Rightarrow> nat \<Rightarrow> dv_event list \<Rightarrow> mcs_world \<Rightarrow> delivery" where
  "dv_run pc c k evs s =
     fold (dv_step pc c k (ra_highwater s)) evs
       \<lparr>dv_ra = \<lparr>ra_phase = RaDrain, ra_world = s, ra_out = [], ra_acts = []\<rparr>, dv_taken = []\<rparr>"

section \<open>What the steps of ReceiveAsync keep\<close>

text \<open>
  What matters here of a state: the queue, the subscriptions and consumers of client \<open>c\<close>, whether its read
  loop is blocked, and the messages forwarded followed by those in the queue.
\<close>

definition dv_view :: "nat \<Rightarrow> ra_state \<Rightarrow> nat \<times> nat \<times> nat \<times> Subscriptions \<times> Consumer list \<times> bool \<times> Message list \<times> nat" where
  "dv_view c s =
     (mcs_queue (fst (ra_world s)), length (wd_queues (snd (ra_world s))), length (wd_clients (snd (ra_world s))),
      ps_Subscriptions (dv_client c s), st_Consumers (dv_client c s), cl_stuck (dv_client c s),
      ra_out s @ ch_buf (mcs_messages (ra_world s)), ch_receivers (mcs_messages (ra_world s)))"

lemma dv_view_cong:
  "ra_out s' = ra_out s \<Longrightarrow> wd_queues (snd (ra_world s')) = wd_queues (snd (ra_world s)) \<Longrightarrow>
   wd_clients (snd (ra_world s')) = wd_clients (snd (ra_world s)) \<Longrightarrow>
   mcs_queue (fst (ra_world s')) = mcs_queue (fst (ra_world s)) \<Longrightarrow> dv_view c s' = dv_view c s"
  using mcs_messages_cong [of "ra_world s'" "ra_world s"] by (simp add: dv_view_def dv_client_def)

lemma dv_view_forward:
  assumes "try_recv (mcs_messages (ra_world s)) = Some (msg, q)" "mcs_queue (fst (ra_world s)) < length (wd_queues (snd (ra_world s)))"
  shows "dv_view c (ra_forward msg q ph act s) = dv_view c s"
proof -
  have "wd_clients (snd (upd_messages q (ra_world s))) = wd_clients (snd (ra_world s))"
    by (simp add: upd_messages_def split: prod.split)
  moreover have "ch_buf (mcs_messages (ra_world s)) = msg # ch_buf q" "ch_receivers q = ch_receivers (mcs_messages (ra_world s))"
    using assms(1) by (auto simp: try_recv_def split: list.splits)
  ultimately show ?thesis
    using assms(2) by (simp add: dv_view_def ra_forward_def dv_client_def mcs_messages_upd)
qed

text \<open>Operations that only send on the connection, and what they leave alone.\<close>

definition only_writes :: "(Conn Client \<Rightarrow> 'r \<times> Conn Client) \<Rightarrow> bool" where
  "only_writes f \<longleftrightarrow> (\<forall>w. \<exists>cn. snd (f w) = w\<lparr>ep_S := cn\<rparr>)"

lemma only_writes_send: "only_writes (\<lambda>w. ep_send S (cmd w) w)"
  by (auto simp: only_writes_def ep_send_def split: prod.split)

lemma only_writes_Ack: "only_writes (Consumer_Ack S msg i)"
  using only_writes_send [of S "\<lambda>w. Consumer_ack_cmd (Consumer_ConsumerID (the_Consumer i w)) (CommandMessage_GetMessageId (Message_Msg msg))"]
  by (simp add: only_writes_def Consumer_Ack_def)

lemma only_writes_Flow: "only_writes (Consumer_Flow S n i)"
proof -
  have "\<exists>cn. w = w\<lparr>ep_S := cn\<rparr>" for w :: "Conn Client" by (intro exI [of _ "ep_S w"]) simp
  with only_writes_send [of S "\<lambda>w. Consumer_flow_cmd (Consumer_ConsumerID (the_Consumer i w)) n"] show ?thesis
    by (simp add: only_writes_def Consumer_Flow_def)
qed

lemma dv_view_only_writes:
  assumes "only_writes f" "with_client j f (snd (ra_world s)) = (r, w1)" "snd (ra_world s') = w1"
    and "mcs_queue (fst (ra_world s')) = mcs_queue (fst (ra_world s))" "ra_out s' = ra_out s"
  shows "dv_view c s' = dv_view c s"
proof -
  let ?w = "snd (ra_world s)" and ?cl = "(wd_clients (snd (ra_world s)) ! j)\<lparr>st_Queues := wd_queues (snd (ra_world s))\<rparr>"
  obtain cn where "snd (f ?cl) = ?cl\<lparr>ep_S := cn\<rparr>" using assms(1) unfolding only_writes_def by blast
  then have w1: "w1 = ?w\<lparr>wd_clients := (wd_clients ?w)[j := ?cl\<lparr>ep_S := cn\<rparr>]\<rparr>"
    using assms(2) by (auto simp: with_client_def split: prod.splits)
  have "ps_Subscriptions (wd_clients w1 ! c) = ps_Subscriptions (wd_clients ?w ! c) \<and>
      st_Consumers (wd_clients w1 ! c) = st_Consumers (wd_clients ?w ! c) \<and> cl_stuck (wd_clients w1 ! c) = cl_stuck (wd_clients ?w ! c)"
    unfolding w1 by (cases "j = c"; cases "c < length (wd_clients ?w)") (simp_all add: not_less list_update_beyond)
  moreover have "length (wd_clients w1) = length (wd_clients ?w)" "wd_queues w1 = wd_queues ?w" unfolding w1 by simp_all
  ultimately show ?thesis
    using assms(3-5) by (simp add: dv_view_def dv_client_def mcs_messages_def)
qed

lemma dv_view_flow: "dv_view c (ra_flow pc n p act s) = dv_view c s"
proof -
  obtain m w where mw: "ra_world s = (m, w)" by fastforce
  let ?f = "Consumer_Flow (conn_sender pc) n (snd p)"
  obtain e w1 where wc: "with_client (fst p) ?f w = (e, w1)" by (metis prod.collapse)
  show ?thesis
    by (rule dv_view_only_writes [OF only_writes_Flow, of "fst p" "conn_sender pc" n "snd p" s e w1])
      (use mw wc in \<open>cases e; simp add: ra_flow_def\<close>)+
qed

lemma dv_view_ra:
  assumes "mcs_queue (fst (ra_world s)) < length (wd_queues (snd (ra_world s)))" "\<And>f. ev \<noteq> RaOther f"
  shows "dv_view c (ra_step pc highwater ev s) = dv_view c s"
proof -
  have *: "dv_view c (s\<lparr>ra_phase := ph\<rparr>) = dv_view c s" "dv_view c (s\<lparr>ra_phase := ph, ra_acts := as\<rparr>) = dv_view c s"
    "dv_view c (ra_restart e s) = dv_view c s" for ph as e
    by (rule dv_view_cong; simp add: ra_restart_def)+
  show ?thesis
  proof (cases ev)
    case RaGo
    then show ?thesis using * dv_view_forward [OF _ assms(1)] dv_view_flow
      by (simp add: ra_step_def ra_go_def split: ra_phase.split option.split prod.split)
  next
    case (RaCase sel)
    then show ?thesis using * dv_view_forward [OF _ assms(1)]
      by (simp add: ra_step_def ra_case_def split: ra_phase.split ra_select.split option.split prod.split)
  qed (use assms(2) in simp)
qed

section \<open>What the read loop does\<close>

abbreviation frame_mid :: "Frame \<Rightarrow> MessageIdData option" where
  "frame_mid f \<equiv> CommandMessage_GetMessageId (BaseCommand_GetMessage (Frame_BaseCmd f))"

definition is_message :: "Frame \<Rightarrow> bool" where
  "is_message f \<longleftrightarrow> BaseCommand_GetType (Frame_BaseCmd f) = BaseCommand_MESSAGE"

lemma is_message_for: "message_frame_for i f \<Longrightarrow> is_message f"
  by (simp add: message_frame_for_def is_message_def)

lemma Client_handler_full:
  assumes "message_frame_for i f" "\<not> cl_stuck w" "sub_consumers w i = Some k" "k < length (st_Consumers w)"
    and "try_send (Consumer_message (the_Consumer k w) f) (Consumer_Messages k w) = None"
  shows "let w' = Client_handler pc S f w; x = the_Consumer k w; x' = the_Consumer k w' in
    st_Queues w' = st_Queues w \<and> ps_Subscriptions w' = ps_Subscriptions w \<and> length (st_Consumers w') = length (st_Consumers w) \<and>
    Consumer_Overflow x' = overflow_add pc (frame_mid f) (Consumer_Overflow x) \<and> Consumer_Queue x' = Consumer_Queue x \<and>
    Consumer_Topic x' = Consumer_Topic x \<and> Consumer_ConsumerID x' = Consumer_ConsumerID x \<and>
    Consumer_Unactive x' = Consumer_Unactive x"
proof -
  define w1 where "w1 = upd_Consumer k (\<lambda>x. x\<lparr>Consumer_Overflow := overflow_add pc (frame_mid f) (Consumer_Overflow x)\<rparr>) w"
  have route: "Client_route pc S f w = (case try_send () (Consumer_OverflowSignal (the_Consumer k w1)) of
      None \<Rightarrow> (None, w1)
    | Some sg \<Rightarrow> (Some (Some (ErrQueueFull (Consumer_Topic (the_Consumer k w)) (ch_cap (Consumer_Messages k w)))),
        upd_Consumer k (\<lambda>x. x\<lparr>Consumer_OverflowSignal := sg\<rparr>) w1))"
    using assms by (simp add: Client_route_def message_frame_for_def Subscriptions_HandleMessage_def
        Consumer_HandleMessage_def Let_def w1_def split: option.split)
  have ps: "ps_Subscriptions (upd_Consumer k g v) = ps_Subscriptions v" for g and v :: "('a, 'b) Client_scheme"
    by (simp add: upd_Consumer_def)
  show ?thesis
    using assms(1,2,4) is_message_for [OF assms(1), unfolded is_message_def]
    by (simp add: Client_handler_def Client_handleFrame_def route Let_def Client_async_err_def ps split: option.split)
      (simp add: w1_def ps)
qed

section \<open>No message is lost\<close>

definition dv_inv ::
    "proto \<Rightarrow> nat \<Rightarrow> nat \<Rightarrow> u64 \<Rightarrow> Consumer \<Rightarrow> Message list \<Rightarrow> (Frame \<times> bool) list \<Rightarrow> delivery \<Rightarrow> bool" where
  "dv_inv pc c k i x0 buf0 zs d \<longleftrightarrow>
     (case dv_view c (dv_ra d) of
        (q, nq, nc, subs, cs, stuck, all, receivers) \<Rightarrow>
          q < nq \<and> c < nc \<and> Subscriptions_Consumers subs i = Some k \<and> k < length cs \<and> receivers = 0 \<and>
          Consumer_Queue (cs ! k) = q \<and> Consumer_Topic (cs ! k) = Consumer_Topic x0 \<and>
          Consumer_ConsumerID (cs ! k) = Consumer_ConsumerID x0 \<and> Consumer_Unactive (cs ! k) = Consumer_Unactive x0 \<and>
          all = buf0 @ map (\<lambda>(f, _). Consumer_message x0 f) (filter snd zs) \<and>
          map fst zs = filter is_message (dv_taken d) \<and>
          (\<forall>f. (f, False) \<in> set zs \<longrightarrow> list_ex (\<lambda>mid. Equal_MessageIdData pc mid (frame_mid f)) (Consumer_Overflow (cs ! k))))"

text \<open>Anything that leaves the queue, the subscriptions, the consumers and the read loop of client \<open>c\<close> alone.\<close>

definition dv_keeps :: "nat \<Rightarrow> (mcs_world \<Rightarrow> mcs_world) \<Rightarrow> bool" where
  "dv_keeps c f \<longleftrightarrow> (\<forall>s. dv_view c (s\<lparr>ra_world := f (ra_world s)\<rparr>) = dv_view c s)"

lemma dv_keepsD: "dv_keeps c f \<Longrightarrow> dv_view c (s\<lparr>ra_world := f v\<rparr>) = dv_view c (s\<lparr>ra_world := v\<rparr>)"
  unfolding dv_keeps_def by (drule spec [of _ "s\<lparr>ra_world := v\<rparr>"]) simp

lemma dv_keeps_acquire:
  assumes "\<And>env. env \<in> set envs \<Longrightarrow> dv_keeps c (\<lambda>s. fst (env s))"
  shows "dv_keeps c (\<lambda>s. snd (acquire obj envs s))"
  unfolding dv_keeps_def
proof
  fix s
  show "dv_view c (s\<lparr>ra_world := snd (acquire obj envs (ra_world s))\<rparr>) = dv_view c s"
    by (rule acquire_inv [where P = "\<lambda>v. dv_view c (s\<lparr>ra_world := v\<rparr>) = dv_view c s"])
      (simp_all add: dv_keepsD [OF assms])
qed

text \<open>Acknowledging is such a use, when what happens while it waits for a consumer is.\<close>

lemma dv_keeps_Ack:
  assumes "\<And>env. env \<in> set envs \<Longrightarrow> dv_keeps c (\<lambda>s. fst (env s))"
  shows "dv_keeps c (\<lambda>s. snd (ManagedConsumer_Ack pc envs msg s))"
  unfolding dv_keeps_def
proof
  fix s :: ra_state
  let ?obj = "\<lambda>(m, w). mcs_consumer m"
  obtain r m w where acq: "acquire ?obj envs (ra_world s) = (r, (m, w))" by (metis prod.collapse)
  let ?s1 = "s\<lparr>ra_world := (m, w)\<rparr>"
  have s1: "dv_view c ?s1 = dv_view c s"
    using dv_keeps_acquire [OF assms, of envs ?obj] acq by (simp add: dv_keeps_def) (metis snd_conv)
  show "dv_view c (s\<lparr>ra_world := snd (ManagedConsumer_Ack pc envs msg (ra_world s))\<rparr>) = dv_view c s"
  proof (cases "\<exists>p. r = Some (Inr p)")
    case False
    with s1 acq show ?thesis
      by (cases r) (auto simp: ManagedConsumer_Ack_def flat_err_def mcs_use_def split: sum.splits)
  next
    case True
    then obtain p where p: "r = Some (Inr p)" by blast
    obtain e w1 where wc: "with_client (fst p) (Consumer_Ack (conn_sender pc) msg (snd p)) w = (e, w1)" by (metis prod.collapse)
    have "dv_view c (s\<lparr>ra_world := snd (ManagedConsumer_Ack pc envs msg (ra_world s))\<rparr>) = dv_view c ?s1"
      by (rule dv_view_only_writes [OF only_writes_Ack, of "fst p" "conn_sender pc" msg "snd p" ?s1 e w1])
        (use acq p wc in \<open>cases p; simp add: ManagedConsumer_Ack_def flat_err_def mcs_use_def\<close>)+
    with s1 show ?thesis by simp
  qed
qed

lemma dv_inv_cong:
  "dv_inv pc c k i x0 buf0 zs d \<Longrightarrow> dv_view c (dv_ra d') = dv_view c (dv_ra d) \<Longrightarrow> dv_taken d' = dv_taken d \<Longrightarrow>
   dv_inv pc c k i x0 buf0 zs d'"
  by (simp add: dv_inv_def)

lemma dv_inv_ra:
  assumes "dv_inv pc c k i x0 buf0 zs d" "\<And>f. ev \<noteq> RaOther f"
  shows "dv_inv pc c k i x0 buf0 zs (d\<lparr>dv_ra := ra_step pc highwater ev (dv_ra d)\<rparr>)"
proof -
  have "mcs_queue (fst (ra_world (dv_ra d))) < length (wd_queues (snd (ra_world (dv_ra d))))"
    using assms(1) by (simp add: dv_inv_def dv_view_def)
  from dv_view_ra [OF this assms(2), where pc = pc] show ?thesis by (intro dv_inv_cong [OF assms(1)]) simp_all
qed

text \<open>The read loop sees the shared queues as its own.\<close>

lemma dv_upd_view:
  assumes "c < length (wd_clients (snd (ra_world s)))"
    and "cl' = f ((dv_client c s)\<lparr>st_Queues := wd_queues (snd (ra_world s))\<rparr>)"
  shows "dv_client c (dv_upd c f s) = cl'" "wd_queues (snd (ra_world (dv_upd c f s))) = st_Queues cl'"
    "ra_out (dv_upd c f s) = ra_out s" "fst (ra_world (dv_upd c f s)) = fst (ra_world s)"
    "length (wd_clients (snd (ra_world (dv_upd c f s)))) = length (wd_clients (snd (ra_world s)))"
  using assms by (simp_all add: dv_upd_def dv_client_def with_client_def)

lemma overflow_add_ex:
  "list_ex P xs \<Longrightarrow> list_ex P (overflow_add pc mid xs)"
  "Equal_MessageIdData pc mid mid \<Longrightarrow> list_ex (\<lambda>m. Equal_MessageIdData pc m mid) (overflow_add pc mid xs)"
  by (simp_all add: overflow_add_def)

lemma dv_inv_frame:
  assumes inv: "dv_inv pc c k i x0 buf0 zs d" and "\<not> cl_stuck (dv_client c (dv_ra d))"
    and "is_message f \<Longrightarrow> message_frame_for i f" "Equal_MessageIdData pc (frame_mid f) (frame_mid f)"
  shows "\<exists>zs'. dv_inv pc c k i x0 buf0 zs'
    (d\<lparr>dv_ra := dv_upd c (Client_handler pc (conn_sender pc) f) (dv_ra d), dv_taken := dv_taken d @ [f]\<rparr>)"
proof -
  let ?s = "dv_ra d"
  let ?q = "mcs_queue (fst (ra_world ?s))" and ?qs = "wd_queues (snd (ra_world ?s))"
  define cl where "cl = (dv_client c ?s)\<lparr>st_Queues := ?qs\<rparr>"
  let ?cl' = "Client_handler pc (conn_sender pc) f cl"
  let ?x = "the_Consumer k cl"
  from inv have x: "?q < length ?qs" "c < length (wd_clients (snd (ra_world ?s)))" "sub_consumers cl i = Some k"
    "k < length (st_Consumers cl)" "ch_receivers (?qs ! ?q) = 0" "Consumer_Queue ?x = ?q"
    "Consumer_Topic ?x = Consumer_Topic x0" "Consumer_ConsumerID ?x = Consumer_ConsumerID x0"
    "Consumer_Unactive ?x = Consumer_Unactive x0"
    and hist: "ra_out ?s @ ch_buf (?qs ! ?q) = buf0 @ map (\<lambda>(f, _). Consumer_message x0 f) (filter snd zs)"
      "map fst zs = filter is_message (dv_taken d)"
    and drop: "\<And>g. (g, False) \<in> set zs \<Longrightarrow> list_ex (\<lambda>mid. Equal_MessageIdData pc mid (frame_mid g)) (Consumer_Overflow ?x)"
    by (auto simp: dv_inv_def dv_view_def cl_def mcs_messages_def)
  have msg: "Consumer_message ?x f = Consumer_message x0 f" using x(7,8) by (simp add: Consumer_message_def)
  have Q: "Consumer_Messages k cl = ?qs ! ?q" using x(6) by (simp add: Consumer_Messages_def cl_def)
  note upd = dv_upd_view [OF x(2), of ?cl' "Client_handler pc (conn_sender pc) f", folded cl_def, OF refl]
  have stuck: "\<not> cl_stuck cl" using assms(2) by (simp add: cl_def)
  consider (other) "\<not> is_message f" | (room) q' where "is_message f" "try_send (Consumer_message ?x f) (?qs ! ?q) = Some q'"
    | (full) "is_message f" "try_send (Consumer_message ?x f) (?qs ! ?q) = None" by fastforce
  then show ?thesis
  proof cases
    case other
    then have "?cl' = cl\<lparr>cl_spawned := cl_spawned cl @ [f]\<rparr>" using stuck by (simp add: Client_handler_def is_message_def)
    with other inv upd show ?thesis
      by (intro exI [of _ zs]) (simp add: dv_inv_def dv_view_def mcs_messages_def cl_def)
  next
    case room
    then have cl': "?cl' = cl\<lparr>st_Queues := ?qs[?q := q']\<rparr>"
      using Client_handler_message [OF assms(3) stuck x(3), of q' pc "conn_sender pc"] Q x(6) by (simp add: cl_def)
    have q': "ch_buf q' = ch_buf (?qs ! ?q) @ [Consumer_message x0 f]" "ch_receivers q' = 0"
      using room(2) x(5) msg by (auto simp: try_send_def split: if_splits)
    have "ra_out ?s @ ch_buf q' = buf0 @ map (\<lambda>(f, _). Consumer_message x0 f) (filter snd (zs @ [(f, True)]))"
      using hist(1) q'(1) by simp
    with room(1) q'(2) upd x hist(2) drop show ?thesis
      by (intro exI [of _ "zs @ [(f, True)]"])
        (simp add: dv_inv_def dv_view_def mcs_messages_def cl')
  next
    case full
    note fl = Client_handler_full [OF assms(3) [OF full(1)] stuck x(3,4), of pc "conn_sender pc", unfolded Q Let_def, OF full(2)]
    have ov: "list_ex (\<lambda>mid. Equal_MessageIdData pc mid (frame_mid g)) (Consumer_Overflow (the_Consumer k ?cl'))"
      if "(g, False) \<in> set (zs @ [(f, False)])" for g
      using that drop [of g] fl assms(4) by (auto simp: overflow_add_ex)
    show ?thesis
      using full(1) fl upd x hist ov
      by (intro exI [of _ "zs @ [(f, False)]"])
        (simp add: dv_inv_def dv_view_def mcs_messages_def, simp add: cl_def)
  qed
qed

lemma dv_inv_signal:
  assumes "dv_inv pc c k i x0 buf0 zs d"
  shows "dv_inv pc c k i x0 buf0 zs (d\<lparr>dv_ra := dv_upd c (Client_overflow_taken k) (ra_case pc highwater SelOverflow (dv_ra d))\<rparr>)"
proof -
  define s where "s = ra_case pc highwater SelOverflow (dv_ra d)"
  have "dv_inv pc c k i x0 buf0 zs (d\<lparr>dv_ra := s\<rparr>)"
    using dv_inv_ra [OF assms, of "RaCase SelOverflow" highwater] by (simp add: s_def ra_step_def)
  moreover from this have "c < length (wd_clients (snd (ra_world s)))" by (simp add: dv_inv_def dv_view_def)
  note upd = dv_upd_view [OF this refl, of "Client_overflow_taken k"]
  ultimately show ?thesis
    unfolding s_def [symmetric] using upd
    by (simp add: dv_inv_def dv_view_def mcs_messages_def Client_overflow_taken_def Client_async_err_def)
qed

lemma dv_inv_step:
  assumes "dv_inv pc c k i x0 buf0 zs d"
    and "\<And>f. ev = DvFrame f \<Longrightarrow> (is_message f \<longrightarrow> message_frame_for i f) \<and> Equal_MessageIdData pc (frame_mid f) (frame_mid f)"
    and "\<And>f. ev = DvOther f \<Longrightarrow> dv_keeps c f"
  shows "\<exists>zs'. dv_inv pc c k i x0 buf0 zs' (dv_step pc c k highwater ev d)"
proof (cases ev)
  case (DvFrame f)
  with assms(1) dv_inv_frame [OF assms(1), of f] assms(2) show ?thesis by (auto simp: dv_step_def Let_def)
next
  case DvSignal
  with assms(1) dv_inv_signal [OF assms(1)] show ?thesis by (auto simp: dv_step_def Let_def)
next
  case (DvOther f)
  with assms(3) [OF DvOther] have "dv_inv pc c k i x0 buf0 zs (d\<lparr>dv_ra := (dv_ra d)\<lparr>ra_world := f (ra_world (dv_ra d))\<rparr>\<rparr>)"
    by (intro dv_inv_cong [OF assms(1)]) (simp_all add: dv_keeps_def)
  with DvOther show ?thesis by (auto simp: dv_step_def Let_def ra_step_def)
qed (use assms(1) dv_inv_ra [OF assms(1)] in \<open>auto simp: dv_step_def Let_def\<close>)

lemma dv_inv_run:
  assumes "dv_inv pc c k i x0 buf0 zs d"
    and "\<And>f. DvFrame f \<in> set evs \<Longrightarrow> (is_message f \<longrightarrow> message_frame_for i f) \<and> Equal_MessageIdData pc (frame_mid f) (frame_mid f)"
    and "\<And>f. DvOther f \<in> set evs \<Longrightarrow> dv_keeps c f"
  shows "\<exists>zs'. dv_inv pc c k i x0 buf0 zs' (fold (dv_step pc c k highwater) evs d)"
  using assms
proof (induction evs arbitrary: zs d)
  case (Cons ev evs)
  obtain zs1 where "dv_inv pc c k i x0 buf0 zs1 (dv_step pc c k highwater ev d)"
    using dv_inv_step [OF Cons.prems(1), of ev highwater] Cons.prems(2,3) by fastforce
  from Cons.IH [OF this] Cons.prems(2,3) show ?case by simp
qed auto

section \<open>Properties\<close>

text \<open>
  C5. No message is lost between the connection and the application. However the read loop of a
  client, \<open>ReceiveAsync\<close> and other uses of the client are interleaved: each MESSAGE frame for the consumer
  that the read loop has taken is either kept or dropped; the kept ones are, in the order they
  arrived, what \<open>ReceiveAsync\<close> has forwarded followed by what is still in the queue (behind what was in
  it at the start), and the ids of the dropped ones are in the consumer's overflow list, from which
  they can be asked for again. A read loop that is blocked by a full queue is released as soon as
  \<open>ReceiveAsync\<close> is in its \<open>select\<close>.
\<close>

theorem no_message_lost:
  assumes "x0 = the_mcs_consumer (c, k) (snd s)" "c < length (wd_clients (snd s))" "k < length (st_Consumers (wd_clients (snd s) ! c))"
    and "sub_consumers (wd_clients (snd s) ! c) i = Some k" "Consumer_Queue x0 = mcs_queue (fst s)"
    and "mcs_queue (fst s) < length (wd_queues (snd s))" "ch_receivers (mcs_messages s) = 0"
    and "\<And>f. DvFrame f \<in> set evs \<Longrightarrow> (is_message f \<longrightarrow> message_frame_for i f) \<and> Equal_MessageIdData pc (frame_mid f) (frame_mid f)"
    and "\<And>f. DvOther f \<in> set evs \<Longrightarrow> dv_keeps c f"
    and "d = dv_run pc c k evs s" "r = dv_ra d"
  shows "\<exists>zs. map fst zs = filter is_message (dv_taken d) \<and>
    ra_out r @ ch_buf (mcs_messages (ra_world r)) =
      ch_buf (mcs_messages s) @ map (\<lambda>(f, _). Consumer_message x0 f) (filter snd zs) \<and>
    (\<forall>f. (f, False) \<in> set zs \<longrightarrow> list_ex (\<lambda>mid. Equal_MessageIdData pc mid (frame_mid f))
       (Consumer_Overflow (the_mcs_consumer (c, k) (snd (ra_world r))))) \<and>
    (\<forall>n. ra_phase r = RaSelect (c, k) n \<longrightarrow> \<not> cl_stuck (dv_client c (dv_ra (dv_step pc c k (ra_highwater s) DvSignal d))))"
proof -
  let ?d0 = "\<lparr>dv_ra = \<lparr>ra_phase = RaDrain, ra_world = s, ra_out = [], ra_acts = []\<rparr>, dv_taken = []\<rparr>"
  have "dv_inv pc c k i x0 (ch_buf (mcs_messages s)) [] ?d0"
    using assms(1-7) by (simp add: dv_inv_def dv_view_def dv_client_def the_mcs_consumer_def)
  from dv_inv_run [OF this assms(8,9)] obtain zs where inv: "dv_inv pc c k i x0 (ch_buf (mcs_messages s)) zs d"
    unfolding assms(10) dv_run_def by blast
  have c: "c < length (wd_clients (snd (ra_world (dv_ra d))))" using inv by (simp add: dv_inv_def dv_view_def)
  have "\<not> cl_stuck (dv_client c (dv_ra (dv_step pc c k (ra_highwater s) DvSignal d)))" if "ra_phase r = RaSelect (c, k) n" for n
  proof -
    let ?s = "ra_case pc (ra_highwater s) SelOverflow r"
    have "c < length (wd_clients (snd (ra_world ?s)))" using c that assms(11) by (simp add: ra_case_def)
    from dv_upd_view(1) [OF this refl, of "Client_overflow_taken k"] that assms(11) show ?thesis
      by (simp add: dv_step_def Let_def Client_overflow_taken_def Client_async_err_def)
  qed
  with inv assms(11) show ?thesis
    by (intro exI [of _ zs]) (simp add: dv_inv_def dv_view_def dv_client_def the_mcs_consumer_def)
qed

text \<open>A queue of one message: the first of two messages is kept, the second one is dropped.\<close>

definition demo_dv_client :: "Conn Client" where
  "demo_dv_client = demo_sub_client\<lparr>ps_Subscriptions := NewSubscriptions\<lparr>Subscriptions_Consumers := [0 \<mapsto> 0]\<rparr>\<rparr>"

definition demo_dv_world :: mcs_world where
  "demo_dv_world = (fst demo_mcs, NewClientPool\<lparr>wd_clients := [demo_dv_client], wd_queues := [make_chan 1]\<rparr>)"

abbreviation demo_dv :: delivery where
  "demo_dv \<equiv> dv_run demo_any_proto 0 0 [DvFrame demo_message, DvFrame demo_message, DvGo] demo_dv_world"

lemma demo_dv_state:
  "st_Consumers demo_dv_client = [newConsumer ''t'' 0 0]" "sub_consumers demo_dv_client 0 = Some 0" "\<not> cl_stuck demo_dv_client"
  "mcs_queue (fst demo_mcs) = 0"
  by (simp_all add: demo_dv_client_def demo_sub_client_def demo_pair_client_def new_Client_def demo_mcs_def NewManagedConsumer_def
      NewClientPool_def Let_def)

abbreviation demo_dv_queue :: "Message chan" where
  "demo_dv_queue \<equiv> (make_chan 1)\<lparr>ch_buf := [Consumer_message (newConsumer ''t'' 0 0) demo_message]\<rparr>"

lemma demo_dv_first:
  "Client_handler demo_any_proto (conn_sender demo_any_proto) demo_message (demo_dv_client\<lparr>st_Queues := [make_chan 1]\<rparr>) =
   demo_dv_client\<lparr>st_Queues := [demo_dv_queue]\<rparr>"
  by (subst Client_handler_message [OF demo_message_for, where c = 0 and q' = demo_dv_queue])
    (simp_all add: demo_dv_state Consumer_Messages_def newConsumer_def try_send_def make_chan_def)

lemma demo_dv_run:
  "dv_taken demo_dv = [demo_message, demo_message]"
  "ra_out (dv_ra demo_dv) @ ch_buf (mcs_messages (ra_world (dv_ra demo_dv))) = [Consumer_message (newConsumer ''t'' 0 0) demo_message]"
proof -
  let ?S = "conn_sender demo_any_proto"
  define cl where "cl = Client_handler demo_any_proto ?S demo_message (demo_dv_client\<lparr>st_Queues := [demo_dv_queue]\<rparr>)"
  have "st_Queues cl = [demo_dv_queue]"
    using Client_handler_full [OF demo_message_for, of "demo_dv_client\<lparr>st_Queues := [demo_dv_queue]\<rparr>" 0 demo_any_proto ?S]
    by (simp add: cl_def demo_dv_state Consumer_Messages_def newConsumer_def try_send_def make_chan_def Let_def)
  with demo_dv_first cl_def show "dv_taken demo_dv = [demo_message, demo_message]"
    "ra_out (dv_ra demo_dv) @ ch_buf (mcs_messages (ra_world (dv_ra demo_dv))) = [Consumer_message (newConsumer ''t'' 0 0) demo_message]"
    by (simp_all add: dv_run_def dv_step_def dv_upd_def dv_client_def demo_dv_world_def NewClientPool_def with_client_def
        demo_dv_state ra_step_def ra_go_def mcs_messages_def try_recv_def make_chan_def ra_forward_def upd_messages_def Let_def)
qed

theorem no_message_lost_witness:
  "ra_out (dv_ra demo_dv) @ ch_buf (mcs_messages (ra_world (dv_ra demo_dv))) = [Consumer_message (newConsumer ''t'' 0 0) demo_message] \<and>
   list_ex (\<lambda>mid. Equal_MessageIdData demo_any_proto mid (frame_mid demo_message))
     (Consumer_Overflow (the_mcs_consumer (0, 0) (snd (ra_world (dv_ra demo_dv)))))"
proof -
  have m: "is_message demo_message" by (rule is_message_for [OF demo_message_for])
  have b: "ch_buf (mcs_messages demo_dv_world) = []"
    by (simp add: demo_dv_world_def NewClientPool_def mcs_messages_def make_chan_def demo_dv_state)
  have eq: "Equal_MessageIdData demo_any_proto x x" for x by (simp add: demo_any_proto_def demo_proto_def)
  have "\<exists>zs. map fst zs = filter is_message (dv_taken demo_dv) \<and>
    ra_out (dv_ra demo_dv) @ ch_buf (mcs_messages (ra_world (dv_ra demo_dv))) =
      ch_buf (mcs_messages demo_dv_world) @ map (\<lambda>(f, _). Consumer_message (newConsumer ''t'' 0 0) f) (filter snd zs) \<and>
    (\<forall>f. (f, False) \<in> set zs \<longrightarrow> list_ex (\<lambda>mid. Equal_MessageIdData demo_any_proto mid (frame_mid f))
       (Consumer_Overflow (the_mcs_consumer (0, 0) (snd (ra_world (dv_ra demo_dv))))))"
    using no_message_lost [OF _ _ _ _ _ _ _ _ _ refl refl, of "newConsumer ''t'' 0 0" 0 0 demo_dv_world 0
        "[DvFrame demo_message, DvFrame demo_message, DvGo]" demo_any_proto] demo_message_for eq
    by (simp add: demo_dv_world_def NewClientPool_def demo_dv_state the_mcs_consumer_def mcs_messages_def make_chan_def newConsumer_def) blast
  then obtain zs where zs: "map fst zs = [demo_message, demo_message]"
    "[Consumer_message (newConsumer ''t'' 0 0) demo_message] = map (\<lambda>(f, _). Consumer_message (newConsumer ''t'' 0 0) f) (filter snd zs)"
    "\<forall>f. (f, False) \<in> set zs \<longrightarrow> list_ex (\<lambda>mid. Equal_MessageIdData demo_any_proto mid (frame_mid f))
       (Consumer_Overflow (the_mcs_consumer (0, 0) (snd (ra_world (dv_ra demo_dv)))))"
    unfolding demo_dv_run b append_Nil filter.simps if_P [OF m] by (elim exE conjE) (rule that)
  have "(demo_message, False) \<in> set zs" using zs(1,2) by (auto simp: map_eq_Cons_conv split: if_splits)
  with zs(3) demo_dv_run(2) show ?thesis by simp
qed

end
