(* ===== verification/SdkDelivery.thy ===== *)
theory SdkDelivery
  imports Sdk Delivery "HOL-Library.Sublist"
begin

text \<open>
  A consumer of the SDK as a whole, \<^verbatim>\<open>sdk/consumer.go\<close> on top of Delivery: the read loop of the client,
  \<open>ReceiveAsync\<close> of the managed consumer, and the loop of \<open>ReceiveAndHandle\<close>, which takes the messages
  from a channel of 228 and hands them to the user's handler. Shows that the handler is called with the
  payloads of the messages in the order in which they arrived, none twice and none left out.
\<close>

section \<open>The three goroutines together\<close>

text \<open>
  The loop has received the first \<open>sh_got\<close> of the messages \<open>ReceiveAsync\<close> has forwarded; the others are in the
  channel, or the last of them is in the hands of \<open>ReceiveAsync\<close>, which is blocked as long as the
  channel is full.
\<close>

record 'h sdk_handling =
  sh_dv :: delivery
  sh_sd :: "'h sdk_state"
  sh_got :: nat

definition sdk_queue_cap :: nat where
  "sdk_queue_cap = 228"

definition sh_pending :: "'h sdk_handling \<Rightarrow> Message list" where
  "sh_pending s = drop (sh_got s) (ra_out (dv_ra (sh_dv s)))"

text \<open>The loop sees the managed consumer and the pool as they are now, and its changes are written back.\<close>

definition sh_get :: "'h sdk_handling \<Rightarrow> 'h sdk_state" where
  "sh_get s =
     (case ra_world (dv_ra (sh_dv s)) of (csm, w) \<Rightarrow>
        (sh_sd s)\<lparr>sd_ci := (sd_ci (sh_sd s))\<lparr>ci_csm := csm\<rparr>, sd_pool := w\<rparr>)"

definition sh_put :: "'h sdk_state \<Rightarrow> 'h sdk_handling \<Rightarrow> 'h sdk_handling" where
  "sh_put sd s =
     s\<lparr>sh_sd := sd, sh_dv := (sh_dv s)\<lparr>dv_ra := (dv_ra (sh_dv s))\<lparr>ra_world := (ci_csm (sd_ci sd), sd_pool sd)\<rparr>\<rparr>\<rparr>"

datatype sh_event = ShDv dv_event | ShMsg | ShLoop sdk_event

text \<open>
  \<open>ShMsg\<close> receives the next message from the channel and tests the flag; \<open>ShLoop\<close> is any other step of the
  loop, the call of \<open>Handler\<close> among them, or a call of \<open>Stop\<close>. \<open>Handler\<close> reads the slot and the current
  consumer's id and activity and otherwise only writes to the connection; the others' steps during it,
  which are those of its environment, leave these alone below, so that a message that arrives during
  \<open>Handler\<close> may as well arrive before or after it.
  \<open>ReceiveAsync\<close> goes on while it is not blocked in its send, and sees a cancelled context when it is
  cancelled; the read loop and the others go on at any time.
\<close>

definition sh_enabled :: "dv_event \<Rightarrow> 'h sdk_handling \<Rightarrow> bool" where
  "sh_enabled ev s \<longleftrightarrow>
     (case ev of
        DvFrame _ \<Rightarrow> True
      | DvOther _ \<Rightarrow> True
      | DvCase (SelCtx _) \<Rightarrow> length (sh_pending s) \<le> sdk_queue_cap \<and> sd_ctxDone (sh_sd s)
      | _ \<Rightarrow> length (sh_pending s) \<le> sdk_queue_cap)"

definition sh_step :: "proto \<Rightarrow> 'h payload_handler \<Rightarrow> nat \<Rightarrow> nat \<Rightarrow> u32 \<Rightarrow> sh_event \<Rightarrow> 'h sdk_handling \<Rightarrow> 'h sdk_handling" where
  "sh_step pc handler c k highwater ev s =
     (if sd_panic (sh_sd s) \<noteq> None then s
      else
        (case ev of
           ShDv e \<Rightarrow> if sh_enabled e s then s\<lparr>sh_dv := dv_step pc c k highwater e (sh_dv s)\<rparr> else s
         | ShMsg \<Rightarrow>
             (case sh_pending s of
                [] \<Rightarrow> s
              | m # _ \<Rightarrow>
                  if sd_returned (sh_sd s) \<or> sd_busy (sh_sd s) \<noteq> None then s
                  else sh_put (sdk_step pc handler (SdMsg m) (sh_get s)) (s\<lparr>sh_got := sh_got s + 1\<rparr>))
         | ShLoop e \<Rightarrow>
             (case e of
                SdMsg _ \<Rightarrow> s
              | SdOther _ \<Rightarrow> s
              | _ \<Rightarrow> sh_put (sdk_step pc handler e (sh_get s)) s)))"

definition sh_start :: "consumerImpl \<Rightarrow> ClientPool \<Rightarrow> 'h \<Rightarrow> 'h sdk_handling" where
  "sh_start ci w h =
     \<lparr>sh_dv = \<lparr>dv_ra = \<lparr>ra_phase = RaDrain, ra_world = (ci_csm ci, w), ra_out = [], ra_acts = []\<rparr>, dv_taken = []\<rparr>,
      sh_sd = \<lparr>sd_ci = ci\<lparr>ci_cancelFunc := True\<rparr>, sd_pool = w, sd_handler = h, sd_ctxDone = False, sd_returned = False,
        sd_panic = None, sd_busy = None, sd_log = []\<rparr>,
      sh_got = 0\<rparr>"

definition sdk_receive ::
    "proto \<Rightarrow> 'h payload_handler \<Rightarrow> nat \<Rightarrow> nat \<Rightarrow> sh_event list \<Rightarrow> consumerImpl \<Rightarrow> ClientPool \<Rightarrow> 'h \<Rightarrow> 'h sdk_handling" where
  "sdk_receive pc handler c k evs ci w h =
     fold (sh_step pc handler c k (ra_highwater (ci_csm ci, w))) evs (sh_start ci w h)"

section \<open>What handling leaves alone\<close>

text \<open>What happens while the handler waits leaves the queue and the consumers of client \<open>c\<close> alone.\<close>

definition he_keeps :: "nat \<Rightarrow> handler_env \<Rightarrow> bool" where
  "he_keeps c he \<longleftrightarrow> dv_keeps c (he_between he) \<and> (\<forall>env \<in> set (he_id he) \<union> set (he_ack he). dv_keeps c (\<lambda>s. fst (env s)))"

lemma dv_keeps_Unactive: "dv_keeps c f \<Longrightarrow> dv_keeps c (\<lambda>s. snd (ManagedConsumer_Unactive f s))"
  by (auto simp: dv_keeps_def ManagedConsumer_Unactive_def Let_def split: option.split)

lemma dv_keeps_consumer_id_loop:
  assumes "\<And>env. env \<in> set envs \<Longrightarrow> dv_keeps c (\<lambda>s. fst (env s))"
  shows "dv_view c (s\<lparr>ra_world := snd (consumer_id_loop n envs v)\<rparr>) = dv_view c (s\<lparr>ra_world := v\<rparr>)"
  using assms
proof (induction n envs v rule: consumer_id_loop.induct)
  case (2 n envs v)
  show ?case
  proof (cases "mcs_consumer (fst v) = None \<and> envs \<noteq> []")
    case True
    then obtain env envs' where e: "mcs_consumer (fst v) = None" "envs = env # envs'" by (cases envs) auto
    obtain v1 k where v1: "env v = (v1, k)" by fastforce
    have step: "dv_view c (s\<lparr>ra_world := v1\<rparr>) = dv_view c (s\<lparr>ra_world := v\<rparr>)"
      using dv_keepsD [OF 2(2) [of env], where s = s and v = v] e v1 by simp
    show ?thesis
      using 2(1) [OF e v1 [symmetric]] 2(2) e v1 step by (cases k) simp_all
  qed (cases envs; auto split: option.split)
qed simp

lemma Handler_keeps:
  assumes "he_keeps c he" "consumerImpl_Handler pc he handler m v h = (e, acts, v', h')"
  shows "dv_view c (s\<lparr>ra_world := v'\<rparr>) = dv_view c (s\<lparr>ra_world := v\<rparr>)"
proof -
  let ?v1 = "snd (ManagedConsumer_Unactive (he_between he) v)"
  let ?v2 = "snd (ManagedConsumer_ConsumerID (he_id he) ?v1)"
  let ?v3 = "snd (ManagedConsumer_Ack pc (he_ack he) m ?v2)"
  have k1: "dv_view c (s\<lparr>ra_world := ?v1\<rparr>) = dv_view c (s\<lparr>ra_world := v\<rparr>)"
    using assms(1) by (intro dv_keepsD [OF dv_keeps_Unactive]) (simp add: he_keeps_def)
  have k2: "dv_view c (s\<lparr>ra_world := ?v2\<rparr>) = dv_view c (s\<lparr>ra_world := ?v1\<rparr>)"
    unfolding ManagedConsumer_ConsumerID_def using assms(1) by (intro dv_keeps_consumer_id_loop) (simp add: he_keeps_def)
  have k3: "dv_view c (s\<lparr>ra_world := ?v3\<rparr>) = dv_view c (s\<lparr>ra_world := ?v2\<rparr>)"
    using assms(1) by (intro dv_keepsD [OF dv_keeps_Ack]) (simp add: he_keeps_def)
  have "v' \<in> {v, ?v1, ?v2, ?v3}"
    using assms(2) by (auto simp: consumerImpl_Handler_def split: sum.splits go_error.splits prod.splits bool.splits option.splits if_splits)
  with k1 k2 k3 show ?thesis by auto
qed

section \<open>What the user's handler sees\<close>

text \<open>
  What \<open>Handler\<close> has done for a message: nothing where its batch cannot be decoded; otherwise the user's
  handler was called with its payloads one by one, in order, up to the first that fails, and the
  message was then acknowledged.
\<close>

definition handed_over :: "proto \<Rightarrow> Message \<Rightarrow> handler_act list \<Rightarrow> bool" where
  "handed_over pc m acts \<longleftrightarrow>
     (case handler_batch pc m of
        Inl _ \<Rightarrow> acts = []
      | Inr list \<Rightarrow>
          \<exists>hs r. acts = map (\<lambda>(p, e). Handled p e) hs @ [Acked r] \<and> hs \<noteq> [] \<and>
            map fst hs = take (length hs) (payloads m list) \<and> (\<forall>e \<in> set (butlast (map snd hs)). e = None) \<and>
            (length hs = length (payloads m list) \<or> snd (last hs) \<noteq> None))"

text \<open>The managed consumer keeps its consumer: the manager does not replace it meanwhile.\<close>

definition slot_kept :: "(mcs_world \<Rightarrow> mcs_world) \<Rightarrow> bool" where
  "slot_kept f \<longleftrightarrow> (\<forall>v. mcs_consumer (fst (f v)) = mcs_consumer (fst v))"

lemma slot_keptD: "slot_kept f \<Longrightarrow> mcs_consumer (fst (f v)) = mcs_consumer (fst v)"
  unfolding slot_kept_def by (rule spec)

lemma dv_keeps_consumer:
  assumes "dv_keeps c f"
  shows "the_mcs_consumer (c, k) (snd (f v)) = the_mcs_consumer (c, k) (snd v)"
proof -
  fix s :: ra_state
  show ?thesis using dv_keepsD [OF assms, where s = s and v = v] by (simp add: dv_view_def dv_client_def the_mcs_consumer_def)
qed

lemma Ack_current:
  assumes "mcs_consumer (fst v) = Some p"
  shows "\<exists>r v'. ManagedConsumer_Ack pc envs m v = (Some r, v') \<and> mcs_consumer (fst v') = Some p"
  using assms
  by (cases v; cases p) (auto simp: ManagedConsumer_Ack_def mcs_use_def flat_err_def acquire_obj split: prod.split)

lemma Handler_hands_over:
  assumes "mcs_consumer (fst v) = Some (c, k)" "he_keeps c he" "slot_kept (he_between he)"
    and "\<not> Consumer_Unactive (the_mcs_consumer (c, k) (snd v))"
    and "Message_ConsumerID m = Consumer_ConsumerID (the_mcs_consumer (c, k) (snd v))"
    and "consumerImpl_Handler pc he handler m v h = (e, acts, v', h')"
  shows "handed_over pc m acts \<and> mcs_consumer (fst v') = Some (c, k)"
proof (cases "handler_batch pc m")
  case (Inl err)
  with assms(1,6) show ?thesis by (cases err) (auto simp: consumerImpl_Handler_def handed_over_def)
next
  case (Inr list)
  define v1 where "v1 = he_between he v"
  have v1: "mcs_consumer (fst v1) = Some (c, k)" "the_mcs_consumer (c, k) (snd v1) = the_mcs_consumer (c, k) (snd v)"
    using assms(1,2) slot_keptD [OF assms(3)] dv_keeps_consumer [of c "he_between he" k v] by (simp_all add: he_keeps_def v1_def)
  have u: "ManagedConsumer_Unactive (he_between he) v = (Inr False, v1)"
    using assms(1,4) v1 by (simp add: ManagedConsumer_Unactive_def Let_def v1_def)
  have i: "ManagedConsumer_ConsumerID (he_id he) v1 = (Some (Message_ConsumerID m), v1)"
    using assms(5) v1 by (simp add: ManagedConsumer_ConsumerID_def eval_nat_numeral)
  obtain as1 h1 where hl: "handle_list handler m (payloads m list) h = (as1, h1)" by fastforce
  obtain r v2 where ack: "ManagedConsumer_Ack pc (he_ack he) m v1 = (Some r, v2)" "mcs_consumer (fst v2) = Some (c, k)"
    using Ack_current [OF v1(1)] by blast
  have "acts = as1 @ [Acked r]" "v' = v2" using assms(6) Inr u i hl ack by (simp_all add: consumerImpl_Handler_def)
  moreover have "payloads m list \<noteq> []" by (simp add: payloads_def)
  ultimately show ?thesis using handle_list_spec [OF hl] Inr ack(2) by (auto simp: handed_over_def)
qed

section \<open>The order of handling\<close>

lemma sh_get_simps [simp]:
  "sd_log (sh_get s) = sd_log (sh_sd s)" "sd_returned (sh_get s) = sd_returned (sh_sd s)" "sd_panic (sh_get s) = sd_panic (sh_sd s)"
  "sd_busy (sh_get s) = sd_busy (sh_sd s)"
  "(ci_csm (sd_ci (sh_get s)), sd_pool (sh_get s)) = ra_world (dv_ra (sh_dv s))"
  by (simp_all add: sh_get_def split: prod.split)

lemma sh_put_simps [simp]:
  "sh_sd (sh_put sd s) = sd" "sh_got (sh_put sd s) = sh_got s" "dv_taken (sh_dv (sh_put sd s)) = dv_taken (sh_dv s)"
  "dv_ra (sh_dv (sh_put sd s)) = (dv_ra (sh_dv s))\<lparr>ra_world := (ci_csm (sd_ci sd), sd_pool sd)\<rparr>"
  by (simp_all add: sh_put_def)

text \<open>The message the loop is at: it has been received, and \<open>Handler\<close> has not returned for it.\<close>

definition sd_held :: "'h sdk_state \<Rightarrow> Message list" where
  "sd_held s = (case sd_busy s of None \<Rightarrow> [] | Some m \<Rightarrow> [m])"

text \<open>A received message becomes the one the loop is at, or the loop ends with it.\<close>

lemma sdk_step_msg:
  assumes "sd_panic s = None" "\<not> sd_returned s" "sd_busy s = None"
  shows "let s' = sdk_step pc handler (SdMsg m) s in
    sd_log s' = sd_log s \<and> (ci_csm (sd_ci s'), sd_pool s') = (ci_csm (sd_ci s), sd_pool s) \<and>
    ((sd_returned s' \<or> sd_panic s' \<noteq> None) \<and> sd_held s' = [] \<or> \<not> sd_returned s' \<and> sd_held s' = [m])"
  using assms by (auto simp: sdk_step_def sd_finish_def sd_held_def Let_def split: sum.split)

text \<open>Handling moves it to the log.\<close>

lemma sdk_step_handle:
  assumes "sd_panic s = None" "sd_busy s = Some m"
  shows "let s' = sdk_step pc handler (SdHandle he) s in
    sd_returned s' = sd_returned s \<and> sd_held s' = [] \<and> (\<exists>acts e h. sd_log s' = sd_log s @ [(m, acts)] \<and>
      consumerImpl_Handler pc he handler m (ci_csm (sd_ci s), sd_pool s) (sd_handler s) = (e, acts, (ci_csm (sd_ci s'), sd_pool s'), h))"
  using assms by (auto simp: sdk_step_def sd_handle_def sd_held_def Let_def split: prod.split)

lemma sdk_step_loop:
  assumes "ev \<in> {SdCtxDone, SdCancel, SdStop} \<or> (\<exists>he. ev = SdHandle he) \<and> sd_busy s = None"
  shows "sd_log (sdk_step pc handler ev s) = sd_log s" "sd_returned s \<Longrightarrow> sd_returned (sdk_step pc handler ev s)"
    "sd_held (sdk_step pc handler ev s) = sd_held s" "sd_panic s \<noteq> None \<Longrightarrow> sd_panic (sdk_step pc handler ev s) \<noteq> None"
    "(ci_csm (sd_ci (sdk_step pc handler ev s)), sd_pool (sdk_step pc handler ev s)) = (ci_csm (sd_ci s), sd_pool s)"
  using assms by (auto simp: sdk_step_def sd_finish_def consumerImpl_Stop_def sd_held_def Let_def split: sum.split)

lemma dv_step_out: "\<exists>ms. ra_out (dv_ra (dv_step pc c k highwater ev d)) = ra_out (dv_ra d) @ ms"
  by (cases ev)
    (auto simp: dv_step_def dv_upd_def ra_step_def ra_go_def ra_case_def ra_forward_def ra_flow_def ra_restart_def Let_def
      split: ra_phase.split option.split prod.split ra_select.split)

lemma dv_step_slot:
  assumes "\<And>f. ev = DvOther f \<Longrightarrow> slot_kept f"
  shows "mcs_consumer (fst (ra_world (dv_ra (dv_step pc c k highwater ev d)))) = mcs_consumer (fst (ra_world (dv_ra d)))"
  using assms
  by (cases ev)
    (auto simp: dv_step_def dv_upd_def ra_step_def ra_go_def ra_case_def ra_forward_def ra_flow_def ra_restart_def Let_def
      upd_messages_def ManagedConsumer_async_err_def slot_keptD split: ra_phase.split option.split prod.split ra_select.split)

text \<open>
  The messages handled, with the one the loop is at, are a prefix of the messages forwarded, and all that
  were received while the loop runs; each of them was handed over.
\<close>

definition sh_inv :: "proto \<Rightarrow> nat \<Rightarrow> nat \<Rightarrow> 'h sdk_handling \<Rightarrow> bool" where
  "sh_inv pc c k s \<longleftrightarrow>
     sh_got s \<le> length (ra_out (dv_ra (sh_dv s))) \<and>
     prefix (map fst (sd_log (sh_sd s)) @ sd_held (sh_sd s)) (ra_out (dv_ra (sh_dv s))) \<and>
     (\<not> sd_returned (sh_sd s) \<and> sd_panic (sh_sd s) = None \<longrightarrow> length (sd_log (sh_sd s)) + length (sd_held (sh_sd s)) = sh_got s) \<and>
     mcs_consumer (fst (ra_world (dv_ra (sh_dv s)))) = Some (c, k) \<and>
     (\<forall>(m, acts) \<in> set (sd_log (sh_sd s)). handed_over pc m acts)"

lemma sh_inv_pending:
  assumes "sh_inv pc c k s" "\<not> sd_returned (sh_sd s)" "sd_panic (sh_sd s) = None"
  shows "map fst (sd_log (sh_sd s)) @ sd_held (sh_sd s) @ sh_pending s = ra_out (dv_ra (sh_dv s))"
proof -
  obtain rest where "ra_out (dv_ra (sh_dv s)) = map fst (sd_log (sh_sd s)) @ sd_held (sh_sd s) @ rest"
    using assms(1) by (auto simp: sh_inv_def prefix_def)
  moreover have "length (sd_log (sh_sd s)) + length (sd_held (sh_sd s)) = sh_got s" using assms by (simp add: sh_inv_def)
  ultimately show ?thesis by (simp add: sh_pending_def flip: append_assoc)
qed

lemma dv_inv_world:
  assumes "dv_inv pc c k i x0 buf0 zs d" "dv_view c ((dv_ra d)\<lparr>ra_world := v\<rparr>) = dv_view c (dv_ra d)"
  shows "dv_inv pc c k i x0 buf0 zs (d\<lparr>dv_ra := (dv_ra d)\<lparr>ra_world := v\<rparr>\<rparr>)"
  by (rule dv_inv_cong [OF assms(1)]) (simp_all add: assms(2))

lemma sh_put_dv: "sh_dv (sh_put sd s) = (sh_dv s)\<lparr>dv_ra := (dv_ra (sh_dv s))\<lparr>ra_world := (ci_csm (sd_ci sd), sd_pool sd)\<rparr>\<rparr>"
  by (simp add: sh_put_def)

text \<open>The current consumer is the one messages were kept for, so that the message the loop is at is for it.\<close>

lemma dv_inv_current:
  assumes "dv_inv pc c k i x0 buf0 zs d" "\<forall>m \<in> set buf0. Message_ConsumerID m = Consumer_ConsumerID x0"
  shows "Consumer_Unactive (the_mcs_consumer (c, k) (snd (ra_world (dv_ra d)))) = Consumer_Unactive x0"
    "m \<in> set (ra_out (dv_ra d)) \<Longrightarrow> Message_ConsumerID m = Consumer_ConsumerID (the_mcs_consumer (c, k) (snd (ra_world (dv_ra d))))"
proof -
  let ?x = "the_mcs_consumer (c, k) (snd (ra_world (dv_ra d)))"
  have x: "Consumer_Unactive ?x = Consumer_Unactive x0" "Consumer_ConsumerID ?x = Consumer_ConsumerID x0"
    and all: "ra_out (dv_ra d) @ ch_buf (mcs_messages (ra_world (dv_ra d))) = buf0 @ map (\<lambda>(f, _). Consumer_message x0 f) (filter snd zs)"
    using assms(1) by (simp_all add: dv_inv_def dv_view_def dv_client_def the_mcs_consumer_def)
  show "Consumer_Unactive ?x = Consumer_Unactive x0" by (rule x)
  show "Message_ConsumerID m = Consumer_ConsumerID ?x" if "m \<in> set (ra_out (dv_ra d))"
  proof -
    have "m \<in> set (buf0 @ map (\<lambda>(f, _). Consumer_message x0 f) (filter snd zs))" unfolding all [symmetric] using that by simp
    with assms(2) x(2) show ?thesis by (auto simp: Consumer_message_def)
  qed
qed

lemma sh_step_msg:
  assumes "sh_inv pc c k s" "dv_inv pc c k i x0 buf0 zs (sh_dv s)" "sd_panic (sh_sd s) = None" "\<not> sd_returned (sh_sd s)"
    and "sd_busy (sh_sd s) = None" "sh_pending s = m # ms"
    and "s' = sh_put (sdk_step pc handler (SdMsg m) (sh_get s)) (s\<lparr>sh_got := sh_got s + 1\<rparr>)"
  shows "sh_inv pc c k s' \<and> dv_inv pc c k i x0 buf0 zs (sh_dv s')"
proof -
  let ?sd = "sdk_step pc handler (SdMsg m) (sh_get s)"
  have out: "ra_out (dv_ra (sh_dv s)) = map fst (sd_log (sh_sd s)) @ m # ms" "length (sd_log (sh_sd s)) = sh_got s"
    using sh_inv_pending [OF assms(1,4,3)] assms(1,3-6) by (simp_all add: sh_inv_def sd_held_def)
  have sd: "sd_log ?sd = sd_log (sh_sd s)" "(ci_csm (sd_ci ?sd), sd_pool ?sd) = ra_world (dv_ra (sh_dv s))"
    "(sd_returned ?sd \<or> sd_panic ?sd \<noteq> None) \<and> sd_held ?sd = [] \<or> \<not> sd_returned ?sd \<and> sd_held ?sd = [m]"
    using sdk_step_msg [of "sh_get s" pc handler m] assms(3-5) unfolding Let_def sh_get_simps by blast+
  have "sh_inv pc c k s'" using assms(1) sd out by (auto simp: assms(7) sh_inv_def)
  moreover have "sh_dv s' = sh_dv s" using sd(2) by (simp add: assms(7) sh_put_dv)
  ultimately show ?thesis using assms(2) by simp
qed

lemma sh_step_handle:
  assumes "sh_inv pc c k s" "dv_inv pc c k i x0 buf0 zs (sh_dv s)" "sd_panic (sh_sd s) = None" "sd_busy (sh_sd s) = Some m"
    and "he_keeps c he" "slot_kept (he_between he)"
    and "\<not> Consumer_Unactive x0" "\<forall>m \<in> set buf0. Message_ConsumerID m = Consumer_ConsumerID x0"
    and "s' = sh_put (sdk_step pc handler (SdHandle he) (sh_get s)) s"
  shows "sh_inv pc c k s' \<and> dv_inv pc c k i x0 buf0 zs (sh_dv s')"
proof -
  let ?sd = "sdk_step pc handler (SdHandle he) (sh_get s)" and ?v = "ra_world (dv_ra (sh_dv s))"
  obtain acts e h where sd: "sd_returned ?sd = sd_returned (sh_sd s)" "sd_held ?sd = []" "sd_log ?sd = sd_log (sh_sd s) @ [(m, acts)]"
    "consumerImpl_Handler pc he handler m ?v (sd_handler (sh_get s)) = (e, acts, (ci_csm (sd_ci ?sd), sd_pool ?sd), h)"
    using sdk_step_handle [of "sh_get s" m pc handler he] assms(3,4) unfolding Let_def sh_get_simps by blast
  have held: "sd_held (sh_sd s) = [m]" using assms(4) by (simp add: sd_held_def)
  have slot: "mcs_consumer (fst ?v) = Some (c, k)" using assms(1) by (simp add: sh_inv_def)
  have "m \<in> set (ra_out (dv_ra (sh_dv s)))" using assms(1) held by (auto simp: sh_inv_def dest: set_mono_prefix)
  note cur = dv_inv_current(1) [OF assms(2,8)] dv_inv_current(2) [OF assms(2,8) this]
  have "handed_over pc m acts \<and> mcs_consumer (ci_csm (sd_ci ?sd)) = Some (c, k)"
    using Handler_hands_over [OF slot assms(5,6) _ cur(2) sd(4)] cur(1) assms(7) by simp
  with assms(1,3) sd(1-3) held have "sh_inv pc c k s'" by (auto simp: assms(9) sh_inv_def)
  moreover have "dv_view c ((dv_ra (sh_dv s))\<lparr>ra_world := (ci_csm (sd_ci ?sd), sd_pool ?sd)\<rparr>) = dv_view c (dv_ra (sh_dv s))"
    using Handler_keeps [OF assms(5) sd(4), of "dv_ra (sh_dv s)"] by simp
  ultimately show ?thesis using dv_inv_world [OF assms(2)] by (simp add: assms(9) sh_put_dv)
qed

lemma sh_step_loop:
  assumes "sh_inv pc c k s" "dv_inv pc c k i x0 buf0 zs (sh_dv s)"
    and "e \<in> {SdCtxDone, SdCancel, SdStop} \<or> (\<exists>he. e = SdHandle he) \<and> sd_busy (sh_sd s) = None"
    and "s' = sh_put (sdk_step pc handler e (sh_get s)) s"
  shows "sh_inv pc c k s' \<and> dv_inv pc c k i x0 buf0 zs (sh_dv s')"
proof -
  have "e \<in> {SdCtxDone, SdCancel, SdStop} \<or> (\<exists>he. e = SdHandle he) \<and> sd_busy (sh_get s) = None" using assms(3) by simp
  note loop = sdk_step_loop [OF this, where pc = pc and handler = handler]
  have held: "sd_held (sh_get s) = sd_held (sh_sd s)" by (simp add: sd_held_def)
  have "sh_dv s' = sh_dv s" unfolding assms(4) sh_put_dv loop(5) by simp
  moreover have "sd_panic (sdk_step pc handler e (sh_get s)) = None \<Longrightarrow> sd_panic (sh_sd s) = None" using loop(4) by fastforce
  then have "sh_inv pc c k s'"
    using assms(1) loop(1-3) loop(5) [unfolded sh_get_simps] held by (auto simp: assms(4) sh_inv_def)
  ultimately show ?thesis using assms(2) by simp
qed

text \<open>What the theorem below assumes of an event.\<close>

definition sh_event_ok :: "proto \<Rightarrow> nat \<Rightarrow> u64 \<Rightarrow> sh_event \<Rightarrow> bool" where
  "sh_event_ok pc c i ev \<longleftrightarrow>
     (case ev of
        ShDv (DvFrame f) \<Rightarrow> (is_message f \<longrightarrow> message_frame_for i f) \<and> Equal_MessageIdData pc (frame_mid f) (frame_mid f)
      | ShDv (DvOther f) \<Rightarrow> dv_keeps c f \<and> slot_kept f
      | ShLoop (SdHandle he) \<Rightarrow> he_keeps c he \<and> slot_kept (he_between he)
      | _ \<Rightarrow> True)"

lemma sh_step_inv:
  assumes "sh_inv pc c k s" "dv_inv pc c k i x0 buf0 zs (sh_dv s)" "sh_event_ok pc c i ev"
    and "\<not> Consumer_Unactive x0" "\<forall>m \<in> set buf0. Message_ConsumerID m = Consumer_ConsumerID x0"
  shows "\<exists>zs'. sh_inv pc c k (sh_step pc handler c k highwater ev s) \<and>
    dv_inv pc c k i x0 buf0 zs' (sh_dv (sh_step pc handler c k highwater ev s))"
proof (cases ev)
  case (ShDv e)
  let ?d = "dv_step pc c k highwater e (sh_dv s)"
  obtain ms where "ra_out (dv_ra ?d) = ra_out (dv_ra (sh_dv s)) @ ms" using dv_step_out by blast
  moreover have "mcs_consumer (fst (ra_world (dv_ra ?d))) = mcs_consumer (fst (ra_world (dv_ra (sh_dv s))))"
    by (rule dv_step_slot) (use assms(3) ShDv in \<open>simp add: sh_event_ok_def\<close>)
  ultimately have "sh_inv pc c k (s\<lparr>sh_dv := ?d\<rparr>)" using assms(1) by (auto simp: sh_inv_def)
  moreover have "\<exists>zs'. dv_inv pc c k i x0 buf0 zs' ?d"
    by (rule dv_inv_step [OF assms(2)]) (use assms(3) ShDv in \<open>simp_all add: sh_event_ok_def\<close>)
  ultimately show ?thesis using assms(1,2) ShDv by (auto simp: sh_step_def)
next
  case ShMsg
  show ?thesis
  proof (cases "sd_panic (sh_sd s) = None \<and> \<not> sd_returned (sh_sd s) \<and> sd_busy (sh_sd s) = None \<and> sh_pending s \<noteq> []")
    case True
    then obtain m ms where "sh_pending s = m # ms" by (cases "sh_pending s") auto
    with True ShMsg sh_step_msg [OF assms(1,2) _ _ _ this refl, of handler] show ?thesis by (auto simp: sh_step_def)
  qed (use assms(1,2) ShMsg in \<open>auto simp: sh_step_def split: list.split\<close>)
next
  case (ShLoop e)
  consider (none) "sd_panic (sh_sd s) \<noteq> None \<or> (\<exists>m. e = SdMsg m) \<or> (\<exists>f. e = SdOther f)"
    | (handle) he m where "sd_panic (sh_sd s) = None" "e = SdHandle he" "sd_busy (sh_sd s) = Some m"
    | (loop) "sd_panic (sh_sd s) = None" "e \<in> {SdCtxDone, SdCancel, SdStop} \<or> (\<exists>he. e = SdHandle he) \<and> sd_busy (sh_sd s) = None"
    by (cases e) auto
  then show ?thesis
  proof cases
    case none
    with assms(1,2) ShLoop show ?thesis by (auto simp: sh_step_def)
  next
    case handle
    with sh_step_handle [OF assms(1,2) handle(1,3) _ _ assms(4,5) refl, of he handler] assms(3) ShLoop show ?thesis
      by (auto simp: sh_step_def sh_event_ok_def)
  next
    case loop
    with sh_step_loop [OF assms(1,2) loop(2) refl, of handler] ShLoop show ?thesis by (auto simp: sh_step_def)
  qed
qed

lemma sh_run_inv:
  assumes "sh_inv pc c k s" "dv_inv pc c k i x0 buf0 zs (sh_dv s)" "\<forall>ev \<in> set evs. sh_event_ok pc c i ev"
    and "\<not> Consumer_Unactive x0" "\<forall>m \<in> set buf0. Message_ConsumerID m = Consumer_ConsumerID x0"
  shows "\<exists>zs'. sh_inv pc c k (fold (sh_step pc handler c k highwater) evs s) \<and>
    dv_inv pc c k i x0 buf0 zs' (sh_dv (fold (sh_step pc handler c k highwater) evs s))"
  using assms
proof (induction evs arbitrary: zs s)
  case (Cons ev evs)
  obtain zs1 where "sh_inv pc c k (sh_step pc handler c k highwater ev s)"
    "dv_inv pc c k i x0 buf0 zs1 (sh_dv (sh_step pc handler c k highwater ev s))"
    using sh_step_inv [OF Cons.prems(1,2) _ assms(4,5), of ev handler highwater] Cons.prems(3) by auto
  from Cons.IH [OF this] Cons.prems(3-5) show ?case by simp
qed auto

section \<open>Properties\<close>

text \<open>
  C6. Messages reach the user's handler in order and without gaps. However the read loop of the client,
  \<open>ReceiveAsync\<close>, the loop of \<open>ReceiveAndHandle\<close>, calls of \<open>Stop\<close> and cancellations are interleaved while one
  consumer lives and is active: the messages handled are, in the order of their arrival and each once, a
  beginning of the messages the read loop has kept; while the loop runs the rest of them are the one it is
  at, those in the SDK's channel and those in the consumer's queue. For each of them the user's handler was
  called with its payloads in order, up to the first that fails, and the message was acknowledged; only
  a message whose batch cannot be decoded is passed over. The id of every message that was not kept is
  in the overflow list.
\<close>

theorem sdk_handles_in_order:
  assumes "x0 = the_mcs_consumer (c, k) w" "c < length (wd_clients w)" "k < length (st_Consumers (wd_clients w ! c))"
    and "sub_consumers (wd_clients w ! c) i = Some k" "Consumer_Queue x0 = mcs_queue (ci_csm ci)"
    and "mcs_queue (ci_csm ci) < length (wd_queues w)" "ch_receivers (mcs_messages (ci_csm ci, w)) = 0"
    and "mcs_consumer (ci_csm ci) = Some (c, k)" "\<not> Consumer_Unactive x0"
    and "\<forall>m \<in> set (ch_buf (mcs_messages (ci_csm ci, w))). Message_ConsumerID m = Consumer_ConsumerID x0"
    and "\<forall>ev \<in> set evs. sh_event_ok pc c i ev"
    and "t = sdk_receive pc handler c k evs ci w h"
  shows "\<exists>zs rest. map fst zs = filter is_message (dv_taken (sh_dv t)) \<and>
    map fst (sd_log (sh_sd t)) @ rest =
      ch_buf (mcs_messages (ci_csm ci, w)) @ map (\<lambda>(f, _). Consumer_message x0 f) (filter snd zs) \<and>
    (\<forall>(m, acts) \<in> set (sd_log (sh_sd t)). handed_over pc m acts) \<and>
    (\<not> sd_returned (sh_sd t) \<and> sd_panic (sh_sd t) = None \<longrightarrow>
      rest = sd_held (sh_sd t) @ sh_pending t @ ch_buf (mcs_messages (ra_world (dv_ra (sh_dv t))))) \<and>
    (\<forall>f. (f, False) \<in> set zs \<longrightarrow> list_ex (\<lambda>mid. Equal_MessageIdData pc mid (frame_mid f))
       (Consumer_Overflow (the_mcs_consumer (c, k) (snd (ra_world (dv_ra (sh_dv t)))))))"
proof -
  let ?buf0 = "ch_buf (mcs_messages (ci_csm ci, w))"
  have "sh_inv pc c k (sh_start ci w h)" "dv_inv pc c k i x0 ?buf0 [] (sh_dv (sh_start ci w h))"
    using assms(1-8) by (simp_all add: sh_start_def sh_inv_def sd_held_def dv_inv_def dv_view_def dv_client_def the_mcs_consumer_def)
  from sh_run_inv [OF this assms(11,9,10)] obtain zs where inv: "sh_inv pc c k t" "dv_inv pc c k i x0 ?buf0 zs (sh_dv t)"
    unfolding assms(12) sdk_receive_def by blast
  let ?r = "dv_ra (sh_dv t)"
  obtain fwd where fwd: "ra_out ?r = map fst (sd_log (sh_sd t)) @ fwd" using inv(1) by (auto simp: sh_inv_def prefix_def)
  moreover have "fwd = sd_held (sh_sd t) @ sh_pending t" if "\<not> sd_returned (sh_sd t)" "sd_panic (sh_sd t) = None"
    using sh_inv_pending [OF inv(1) that] fwd by simp
  moreover have "\<forall>(m, acts) \<in> set (sd_log (sh_sd t)). handed_over pc m acts" using inv(1) by (simp add: sh_inv_def)
  ultimately show ?thesis
    using inv(2) by (intro exI [of _ zs] exI [of _ "fwd @ ch_buf (mcs_messages (ra_world ?r))"])
      (simp add: dv_inv_def dv_view_def dv_client_def the_mcs_consumer_def)
qed

text \<open>A consumer with a queue of one: a message arrives, is forwarded and handled.\<close>

definition demo_sh_ci :: consumerImpl where
  "demo_sh_ci = demo_ci\<lparr>ci_csm := fst demo_dv_world\<rparr>"

abbreviation demo_sh_events :: "sh_event list" where
  "demo_sh_events \<equiv> [ShDv (DvFrame demo_message), ShDv DvGo, ShMsg, ShLoop (SdHandle demo_he)]"

abbreviation demo_sh :: "bytes list sdk_handling" where
  "demo_sh \<equiv> sdk_receive demo_any_proto (\<lambda>m p h. (None, p # h)) 0 0 demo_sh_events demo_sh_ci (snd demo_dv_world) []"

lemma demo_sh_handled:
  "map fst (sd_log (sh_sd demo_sh)) = [Consumer_message (newConsumer ''t'' 0 0) demo_message]"
proof -
  have ci: "ci_stopFlag demo_ci = 0" by (simp add: demo_ci_def new_consumerImpl_def split: prod.split)
  show ?thesis
    using demo_dv_first
    by (simp add: sdk_receive_def sh_start_def sh_step_def sh_enabled_def sh_pending_def sdk_queue_cap_def dv_step_def dv_upd_def
        dv_client_def demo_dv_world_def demo_sh_ci_def NewClientPool_def with_client_def demo_dv_state ra_step_def ra_go_def
        mcs_messages_def try_recv_def make_chan_def ra_forward_def upd_messages_def sh_get_def sh_put_def sdk_step_def ci
        sd_handle_def Let_def split: prod.split)
qed

theorem sdk_handles_in_order_witness:
  "\<exists>e r. sd_log (sh_sd demo_sh) = [(Consumer_message (newConsumer ''t'' 0 0) demo_message, [Handled [7] e, Acked r])]"
proof -
  let ?m = "Consumer_message (newConsumer ''t'' 0 0) demo_message"
  have eq: "Equal_MessageIdData demo_any_proto x x" for x by (simp add: demo_any_proto_def demo_proto_def)
  have ev: "\<forall>ev \<in> set demo_sh_events. sh_event_ok demo_any_proto 0 0 ev"
    by (simp add: sh_event_ok_def demo_message_for eq he_keeps_def slot_kept_def demo_he_def dv_keeps_def)
  have p: "newConsumer ''t'' 0 0 = the_mcs_consumer (0, 0) (snd demo_dv_world)" "0 < length (wd_clients (snd demo_dv_world))"
    "0 < length (st_Consumers (wd_clients (snd demo_dv_world) ! 0))" "sub_consumers (wd_clients (snd demo_dv_world) ! 0) 0 = Some 0"
    "Consumer_Queue (newConsumer ''t'' 0 0) = mcs_queue (ci_csm demo_sh_ci)"
    "mcs_queue (ci_csm demo_sh_ci) < length (wd_queues (snd demo_dv_world))"
    "ch_receivers (mcs_messages (ci_csm demo_sh_ci, snd demo_dv_world)) = 0"
    "mcs_consumer (ci_csm demo_sh_ci) = Some (0, 0)" "\<not> Consumer_Unactive (newConsumer ''t'' 0 0)"
    "\<forall>m \<in> set (ch_buf (mcs_messages (ci_csm demo_sh_ci, snd demo_dv_world))). Message_ConsumerID m = Consumer_ConsumerID (newConsumer ''t'' 0 0)"
    by (simp_all add: demo_sh_ci_def demo_dv_world_def NewClientPool_def demo_dv_state the_mcs_consumer_def mcs_messages_def
        make_chan_def newConsumer_def) (simp add: demo_mcs_def)
  have "\<forall>(m, acts) \<in> set (sd_log (sh_sd demo_sh)). handed_over demo_any_proto m acts"
    using sdk_handles_in_order [OF p ev refl, of "\<lambda>m p h. (None, p # h)" "[]"] by blast
  moreover obtain acts where "sd_log (sh_sd demo_sh) = [(?m, acts)]" using demo_sh_handled by (auto simp: map_eq_Cons_conv)
  moreover have "handler_batch demo_any_proto ?m = Inr []" "payloads ?m [] = [[7]]"
    by (simp_all add: handler_batch_def payloads_def Consumer_message_def demo_message_def payload_frame_def demo_meta_def
        new_MessageMetadata_def Let_def)
  ultimately show ?thesis by (auto simp: handed_over_def Suc_le_eq take_Cons' map_eq_Cons_conv)
qed

end
