(* ===== verification/FlowControl.thy ===== *)
theory FlowControl
  imports Delivery
begin

text \<open>
  Flow control of \<open>ReceiveAsync\<close> (\<^verbatim>\<open>core/manage/managed_consumer.go\<close>) beside the read loop of the
  client that fills its queue: with a broker that keeps to the permits it was given, the queue never
  overflows and the flow never dries up.
\<close>

section \<open>Permits\<close>

text \<open>The permits \<open>ReceiveAsync\<close> has asked for, and how often it has taken up a consumer.\<close>

fun granted :: "ra_act list \<Rightarrow> nat" where
  "granted [] = 0"
| "granted (ActStart n # acts) = unat n + granted acts"
| "granted (ActFlow n # acts) = unat n + granted acts"
| "granted (_ # acts) = granted acts"

definition starts :: "ra_act list \<Rightarrow> nat" where
  "starts acts = length (filter (\<lambda>a. case a of ActStart _ \<Rightarrow> True | _ \<Rightarrow> False) acts)"

lemma starts_simps [simp]:
  "starts [] = 0" "starts (ActStart n # acts) = Suc (starts acts)" "starts (ActFlow n # acts) = starts acts"
  "starts (ActDrained # acts) = starts acts" "starts (ActMsg # acts) = starts acts" "starts (ActOverflow # acts) = starts acts"
  by (simp_all add: starts_def)

text \<open>A broker that never sends more messages than \<open>ReceiveAsync\<close> has given it permits for.\<close>

definition messages_taken :: "delivery \<Rightarrow> nat" where
  "messages_taken d = length (filter is_message (dv_taken d))"

fun permitted :: "proto \<Rightarrow> nat \<Rightarrow> nat \<Rightarrow> u32 \<Rightarrow> dv_event list \<Rightarrow> delivery \<Rightarrow> bool" where
  "permitted pc c k highwater [] d = True"
| "permitted pc c k highwater (ev # evs) d =
     ((case ev of DvFrame f \<Rightarrow> is_message f \<longrightarrow> messages_taken d < granted (ra_acts (dv_ra d)) | _ \<Rightarrow> True) \<and>
      permitted pc c k highwater evs (dv_step pc c k highwater ev d))"

section \<open>While nothing is dropped\<close>

text \<open>The consumer is unchanged, and every message that was taken is forwarded or in the queue.\<close>

definition dv_clean :: "nat \<Rightarrow> nat \<Rightarrow> u64 \<Rightarrow> Consumer \<Rightarrow> nat \<Rightarrow> delivery \<Rightarrow> bool" where
  "dv_clean c k i x0 cap d \<longleftrightarrow>
     (case dv_view c (dv_ra d) of
        (q, nq, nc, subs, cs, stuck, all, receivers) \<Rightarrow>
          q < nq \<and> c < nc \<and> Subscriptions_Consumers subs i = Some k \<and> k < length cs \<and> receivers = 0 \<and>
          cs ! k = x0 \<and> Consumer_Queue x0 = q \<and> \<not> stuck \<and>
          all = map (Consumer_message x0) (filter is_message (dv_taken d))) \<and>
     ch_cap (mcs_messages (ra_world (dv_ra d))) = cap"

lemma dv_clean_count:
  "dv_clean c k i x0 cap d \<Longrightarrow>
   messages_taken d = length (ra_out (dv_ra d)) + length (ch_buf (mcs_messages (ra_world (dv_ra d))))"
  unfolding dv_clean_def dv_view_def messages_taken_def
  by (auto simp del: length_append simp: length_append [symmetric])

lemma dv_clean_cong:
  "dv_clean c k i x0 cap d \<Longrightarrow> dv_view c (dv_ra d') = dv_view c (dv_ra d) \<Longrightarrow> dv_taken d' = dv_taken d \<Longrightarrow>
   ch_cap (mcs_messages (ra_world (dv_ra d'))) = ch_cap (mcs_messages (ra_world (dv_ra d))) \<Longrightarrow> dv_clean c k i x0 cap d'"
  by (simp add: dv_clean_def)

lemma dv_clean_frame:
  assumes "dv_clean c k i x0 cap d" "is_message f \<Longrightarrow> message_frame_for i f"
    and "is_message f \<Longrightarrow> length (ch_buf (mcs_messages (ra_world (dv_ra d)))) < cap"
  shows "dv_clean c k i x0 cap
    (d\<lparr>dv_ra := dv_upd c (Client_handler pc (conn_sender pc) f) (dv_ra d), dv_taken := dv_taken d @ [f]\<rparr>)"
proof -
  let ?s = "dv_ra d"
  let ?q = "mcs_queue (fst (ra_world ?s))" and ?qs = "wd_queues (snd (ra_world ?s))"
  define cl where "cl = (dv_client c ?s)\<lparr>st_Queues := ?qs\<rparr>"
  let ?cl' = "Client_handler pc (conn_sender pc) f cl"
  from assms(1) have x: "?q < length ?qs" "c < length (wd_clients (snd (ra_world ?s)))" "sub_consumers cl i = Some k"
    "k < length (st_Consumers cl)" "ch_receivers (?qs ! ?q) = 0" "the_Consumer k cl = x0" "Consumer_Queue x0 = ?q" "\<not> cl_stuck cl"
    and all: "ra_out ?s @ ch_buf (?qs ! ?q) = map (Consumer_message x0) (filter is_message (dv_taken d))"
    and cap: "ch_cap (?qs ! ?q) = cap"
    by (auto simp: dv_clean_def dv_view_def cl_def mcs_messages_def)
  note upd = dv_upd_view [OF x(2), of ?cl' "Client_handler pc (conn_sender pc) f", folded cl_def, OF refl]
  have Q: "Consumer_Messages k cl = ?qs ! ?q" using x(6,7) by (simp add: Consumer_Messages_def cl_def)
  show ?thesis
  proof (cases "is_message f")
    case False
    then have "?cl' = cl\<lparr>cl_spawned := cl_spawned cl @ [f]\<rparr>" using x(8) by (simp add: Client_handler_def is_message_def)
    with False assms(1) upd show ?thesis by (simp add: dv_clean_def dv_view_def mcs_messages_def cl_def)
  next
    case True
    then have "try_send (Consumer_message x0 f) (?qs ! ?q) \<noteq> None"
      using assms(3) cap by (simp add: try_send_None mcs_messages_def)
    then obtain q' where q': "try_send (Consumer_message x0 f) (?qs ! ?q) = Some q'" by blast
    then have cl': "?cl' = cl\<lparr>st_Queues := ?qs[?q := q']\<rparr>"
      using Client_handler_message [OF assms(2) [OF True] x(8,3), of q' pc "conn_sender pc"] Q x(6,7) by (simp add: cl_def)
    have "ch_buf q' = ch_buf (?qs ! ?q) @ [Consumer_message x0 f]" "ch_receivers q' = 0" "ch_cap q' = cap"
      using q' x(5) cap by (auto simp: try_send_def split: if_splits)
    with True upd x all show ?thesis
      by (simp add: dv_clean_def dv_view_def mcs_messages_def cl')
  qed
qed

text \<open>The steps of \<open>ReceiveAsync\<close> keep the capacity of the queue.\<close>

definition cap_kept :: "(mcs_world \<Rightarrow> mcs_world) \<Rightarrow> bool" where
  "cap_kept f \<longleftrightarrow> (\<forall>v. ch_cap (mcs_messages (f v)) = ch_cap (mcs_messages v))"

lemma cap_keptD: "cap_kept f \<Longrightarrow> ch_cap (mcs_messages (f v)) = ch_cap (mcs_messages v)"
  unfolding cap_kept_def by blast

lemma cap_ra:
  assumes "mcs_queue (fst (ra_world s)) < length (wd_queues (snd (ra_world s)))" "\<And>f. ev \<noteq> RaOther f"
  shows "ch_cap (mcs_messages (ra_world (ra_step pc highwater ev s))) = ch_cap (mcs_messages (ra_world s))"
proof -
  have fw: "ch_cap (mcs_messages (ra_world (ra_forward msg q ph act s))) = ch_cap (mcs_messages (ra_world s))"
    if "try_recv (mcs_messages (ra_world s)) = Some (msg, q)" for msg q ph act
    using that assms(1) by (auto simp: ra_forward_def mcs_messages_upd try_recv_def split: list.splits)
  have fl: "ch_cap (mcs_messages (ra_world (ra_flow pc n p act s))) = ch_cap (mcs_messages (ra_world s))" for n p act
    using with_client_Flow_queues [of "fst p" "conn_sender pc" n "snd p" "snd (ra_world s)"]
    by (cases "ra_world s"; cases "with_client (fst p) (Consumer_Flow (conn_sender pc) n (snd p)) (snd (ra_world s))")
      (auto simp: ra_flow_def mcs_messages_def split: option.splits)
  have rs: "mcs_messages (ra_world (ra_restart e s)) = mcs_messages (ra_world s)" for e
    by (simp add: ra_restart_def mcs_messages_def)
  show ?thesis
  proof (cases ev)
    case (RaOther f)
    with assms(2) show ?thesis by blast
  qed (use fw fl rs in \<open>simp_all add: ra_step_def ra_go_def ra_case_def split: ra_phase.split ra_select.split option.split prod.split\<close>)
qed

section \<open>The count of permits\<close>

text \<open>The count of permits: what has been asked for, of a high-water mark \<open>h\<close>.\<close>

definition flow_count :: "nat \<Rightarrow> ra_state \<Rightarrow> bool" where
  "flow_count h s \<longleftrightarrow>
     granted (ra_acts s) \<le> h + length (ra_out s) \<and> (starts (ra_acts s) = 0 \<longrightarrow> granted (ra_acts s) = 0) \<and>
     (case ra_phase s of
        RaSelect p n \<Rightarrow> starts (ra_acts s) \<noteq> 0 \<and> granted (ra_acts s) + unat n = h + length (ra_out s) \<and> unat n < h
      | RaReflow p n \<Rightarrow> starts (ra_acts s) \<noteq> 0 \<and> granted (ra_acts s) + unat n = h + length (ra_out s) \<and> unat n = h
      | _ \<Rightarrow> True)"

lemma unat_Suc_less: "n < (m :: u32) \<Longrightarrow> unat (n + 1) = Suc (unat n)"
proof -
  assume "n < m"
  from uint_Suc [OF this] have "int (unat (n + 1)) = int (Suc (unat n))" by simp
  then show ?thesis by (simp only: of_nat_eq_iff)
qed

lemma flow_count_flow:
  assumes "flow_count (unat highwater) s" "starts (ra_acts (ra_flow pc n p act s)) \<le> 1"
    and "starts (ra_acts s) = 0 \<Longrightarrow> ra_out s = []"
    and "ra_phase s = RaFlow p \<and> n = highwater \<and> act = ActStart n \<or> ra_phase s = RaReflow p n \<and> act = ActFlow n"
  shows "flow_count (unat highwater) (ra_flow pc n p act s)"
proof (cases "\<exists>w1. with_client (fst p) (Consumer_Flow (conn_sender pc) n (snd p)) (snd (ra_world s)) = (None, w1)")
  case True
  then obtain cl cl' :: "Conn Client" where "Consumer_Flow (conn_sender pc) n (snd p) cl = (None, cl')"
    by (auto simp: with_client_def split: prod.splits)
  then have "0 < n" by (rule Consumer_Flow_pos)
  then have "0 < unat n" by (simp add: word_less_nat_alt)
  with True assms show ?thesis
    by (auto simp: flow_count_def ra_flow_def split: prod.splits)
next
  case False
  with assms(1) show ?thesis by (auto simp: flow_count_def ra_flow_def split: prod.splits option.splits ra_phase.splits)
qed

lemma flow_count_msg:
  assumes "flow_count (unat highwater) s" "ra_phase s = RaSelect p n"
  shows "flow_count (unat highwater)
    (ra_forward msg q (if n + 1 \<ge> highwater then RaReflow p (n + 1) else RaSelect p (n + 1)) ActMsg s)"
proof -
  have n: "unat n < unat highwater" using assms by (simp add: flow_count_def)
  then have "unat (n + 1) = Suc (unat n)" by (intro unat_Suc_less) (simp add: word_less_nat_alt)
  with assms n show ?thesis
    by (auto simp: flow_count_def ra_forward_def word_le_nat_alt not_le)
qed

lemma flow_count_step:
  assumes "flow_count (unat highwater) s" "starts (ra_acts (ra_step pc highwater ev s)) \<le> 1"
    and "starts (ra_acts s) = 0 \<Longrightarrow> ra_out s = []" "ev \<noteq> RaCase SelOverflow"
  shows "flow_count (unat highwater) (ra_step pc highwater ev s)"
proof (cases ev)
  case RaGo
  show ?thesis
  proof (cases "ra_phase s")
    case (RaFlow p)
    with RaGo flow_count_flow [OF assms(1), of pc highwater p "ActStart highwater"] assms(2,3) show ?thesis
      by (simp add: ra_step_def ra_go_def)
  next
    case (RaReflow p n)
    with RaGo flow_count_flow [OF assms(1), of pc n p "ActFlow n"] assms(2,3) show ?thesis
      by (simp add: ra_step_def ra_go_def)
  qed (use RaGo assms(1) in \<open>auto simp: ra_step_def ra_go_def flow_count_def ra_forward_def split: option.splits prod.splits\<close>)
next
  case (RaCase sel)
  show ?thesis
  proof (cases "\<exists>p n. ra_phase s = RaSelect p n \<and> sel = SelMsg")
    case True
    then obtain p n where pn: "ra_phase s = RaSelect p n" "sel = SelMsg" by blast
    with RaCase flow_count_msg [OF assms(1) pn(1)] assms(1) show ?thesis
      by (cases "try_recv (mcs_messages (ra_world s))") (auto simp: ra_step_def ra_case_def)
  next
    case False
    with RaCase assms(1,4) show ?thesis
      by (auto simp: ra_step_def ra_case_def flow_count_def ra_restart_def
          split: ra_phase.splits ra_select.splits option.splits)
  qed
next
  case (RaOther f)
  with assms(1) show ?thesis by (cases "ra_phase s") (simp_all add: ra_step_def flow_count_def)
qed

text \<open>Actions are only added.\<close>

lemma starts_mono: "starts (ra_acts s) \<le> starts (ra_acts (ra_step pc highwater ev s))"
proof -
  have fl: "starts (ra_acts s) \<le> starts (ra_acts (ra_flow pc n p (ActStart m) s))"
    "starts (ra_acts s) \<le> starts (ra_acts (ra_flow pc n p (ActFlow m) s))" for n p m
    by (auto simp: ra_flow_def split: prod.split option.split)
  show ?thesis
    by (cases ev) (auto simp: ra_step_def ra_go_def ra_case_def ra_forward_def ra_restart_def fl
        split: ra_phase.split ra_select.split option.split prod.split)
qed

lemma granted_mono: "granted (ra_acts s) \<le> granted (ra_acts (ra_step pc highwater ev s))"
proof -
  have fl: "granted (ra_acts s) \<le> granted (ra_acts (ra_flow pc n p (ActStart m) s))"
    "granted (ra_acts s) \<le> granted (ra_acts (ra_flow pc n p (ActFlow m) s))" for n p m
    by (auto simp: ra_flow_def split: prod.split option.split)
  show ?thesis
    by (cases ev) (auto simp: ra_step_def ra_go_def ra_case_def ra_forward_def ra_restart_def fl
        split: ra_phase.split ra_select.split option.split prod.split)
qed

definition flow_ok :: "nat \<Rightarrow> nat \<Rightarrow> u64 \<Rightarrow> Consumer \<Rightarrow> nat \<Rightarrow> u32 \<Rightarrow> delivery \<Rightarrow> bool" where
  "flow_ok c k i x0 cap highwater d \<longleftrightarrow>
     (starts (ra_acts (dv_ra d)) \<le> 1 \<longrightarrow>
        dv_clean c k i x0 cap d \<and> flow_count (unat highwater) (dv_ra d) \<and> messages_taken d \<le> granted (ra_acts (dv_ra d)))"

text \<open>What is in the queue never exceeds the high-water mark.\<close>

lemma flow_room:
  assumes "dv_clean c k i x0 cap d" "flow_count h (dv_ra d)"
  shows "messages_taken d \<le> granted (ra_acts (dv_ra d)) \<Longrightarrow> length (ch_buf (mcs_messages (ra_world (dv_ra d)))) \<le> h"
    "messages_taken d < granted (ra_acts (dv_ra d)) \<Longrightarrow> length (ch_buf (mcs_messages (ra_world (dv_ra d)))) < h"
    "starts (ra_acts (dv_ra d)) = 0 \<Longrightarrow> messages_taken d \<le> granted (ra_acts (dv_ra d)) \<Longrightarrow> ra_out (dv_ra d) = []"
  using dv_clean_count [OF assms(1)] assms(2) by (auto simp: flow_count_def)

lemma flow_ok_ra:
  assumes "flow_ok c k i x0 cap highwater d" "\<And>f. ev \<noteq> RaOther f" "ev \<noteq> RaCase SelOverflow"
  shows "flow_ok c k i x0 cap highwater (d\<lparr>dv_ra := ra_step pc highwater ev (dv_ra d)\<rparr>)"
  unfolding flow_ok_def
proof (intro impI)
  let ?s = "dv_ra d"
  assume st: "starts (ra_acts (dv_ra (d\<lparr>dv_ra := ra_step pc highwater ev ?s\<rparr>))) \<le> 1"
  with starts_mono [of ?s pc highwater ev] have "starts (ra_acts ?s) \<le> 1" by simp
  with assms(1) have ok: "dv_clean c k i x0 cap d" "flow_count (unat highwater) ?s" "messages_taken d \<le> granted (ra_acts ?s)"
    by (simp_all add: flow_ok_def)
  have q: "mcs_queue (fst (ra_world ?s)) < length (wd_queues (snd (ra_world ?s)))"
    using ok(1) by (simp add: dv_clean_def dv_view_def)
  have "dv_clean c k i x0 cap (d\<lparr>dv_ra := ra_step pc highwater ev ?s\<rparr>)"
    by (rule dv_clean_cong [OF ok(1)]) (use dv_view_ra [OF q assms(2)] cap_ra [OF q assms(2)] in simp_all)
  moreover have "flow_count (unat highwater) (ra_step pc highwater ev ?s)"
    by (rule flow_count_step) (use ok st flow_room(3) [OF ok(1,2)] assms(3) in simp_all)
  ultimately show "dv_clean c k i x0 cap (d\<lparr>dv_ra := ra_step pc highwater ev ?s\<rparr>) \<and>
      flow_count (unat highwater) (dv_ra (d\<lparr>dv_ra := ra_step pc highwater ev ?s\<rparr>)) \<and>
      messages_taken (d\<lparr>dv_ra := ra_step pc highwater ev ?s\<rparr>) \<le> granted (ra_acts (dv_ra (d\<lparr>dv_ra := ra_step pc highwater ev ?s\<rparr>)))"
    using ok(3) granted_mono [of ?s pc highwater ev] by (simp add: messages_taken_def)
qed

lemma flow_ok_step:
  assumes "flow_ok c k i x0 cap highwater d" "unat highwater \<le> cap"
    and "\<And>f. ev = DvFrame f \<Longrightarrow> is_message f \<Longrightarrow> message_frame_for i f \<and> messages_taken d < granted (ra_acts (dv_ra d))"
    and "\<And>f. ev = DvOther f \<Longrightarrow> dv_keeps c f \<and> cap_kept f"
  shows "flow_ok c k i x0 cap highwater (dv_step pc c k highwater ev d)"
proof (cases ev)
  case (DvFrame f)
  show ?thesis
  proof (cases "starts (ra_acts (dv_ra d)) \<le> 1")
    case True
    with assms(1) have ok: "dv_clean c k i x0 cap d" "flow_count (unat highwater) (dv_ra d)"
      "messages_taken d \<le> granted (ra_acts (dv_ra d))"
      by (simp_all add: flow_ok_def)
    have "\<not> cl_stuck (dv_client c (dv_ra d))" using ok(1) by (simp add: dv_clean_def dv_view_def)
    then have st: "dv_step pc c k highwater ev d =
        d\<lparr>dv_ra := dv_upd c (Client_handler pc (conn_sender pc) f) (dv_ra d), dv_taken := dv_taken d @ [f]\<rparr>" (is "_ = ?d")
      using DvFrame by (simp add: dv_step_def Let_def)
    have "dv_clean c k i x0 cap ?d"
      by (rule dv_clean_frame [OF ok(1)]) (use assms(2,3) DvFrame flow_room(2) [OF ok(1,2)] in \<open>force+\<close>)
    moreover have "flow_count (unat highwater) (dv_ra ?d)"
      using ok(2) by (cases "ra_phase (dv_ra d)") (simp_all add: flow_count_def dv_upd_def)
    moreover have "messages_taken ?d \<le> granted (ra_acts (dv_ra ?d))"
      using ok(3) assms(3) [OF DvFrame] by (auto simp: messages_taken_def dv_upd_def Suc_le_eq)
    ultimately show ?thesis unfolding st flow_ok_def by blast
  next
    case False
    with DvFrame show ?thesis by (auto simp: dv_step_def Let_def flow_ok_def dv_upd_def)
  qed
next
  case DvSignal
  show ?thesis
  proof (cases "starts (ra_acts (dv_ra d)) \<le> 1")
    case True
    with assms(1) have "\<not> cl_stuck (dv_client c (dv_ra d))" by (simp add: flow_ok_def dv_clean_def dv_view_def)
    with DvSignal assms(1) show ?thesis by (simp add: dv_step_def Let_def)
  next
    case False
    with DvSignal show ?thesis by (auto simp: dv_step_def Let_def flow_ok_def dv_upd_def ra_case_def)
  qed
next
  case (DvOther f)
  let ?d = "d\<lparr>dv_ra := (dv_ra d)\<lparr>ra_world := f (ra_world (dv_ra d))\<rparr>\<rparr>"
  have "dv_clean c k i x0 cap ?d" if "dv_clean c k i x0 cap d"
    by (rule dv_clean_cong [OF that]) (use assms(4) [OF DvOther] in \<open>simp_all add: dv_keeps_def cap_keptD\<close>)
  moreover have "flow_count (unat highwater) (dv_ra ?d)" if "flow_count (unat highwater) (dv_ra d)"
    using that by (cases "ra_phase (dv_ra d)") (simp_all add: flow_count_def)
  ultimately show ?thesis using assms(1) DvOther by (simp add: flow_ok_def dv_step_def Let_def ra_step_def messages_taken_def)
qed (use assms(1) flow_ok_ra [OF assms(1)] in \<open>auto simp: dv_step_def Let_def\<close>)

lemma flow_ok_run:
  assumes "flow_ok c k i x0 cap highwater d" "unat highwater \<le> cap" "permitted pc c k highwater evs d"
    and "\<And>f. DvFrame f \<in> set evs \<Longrightarrow> is_message f \<Longrightarrow> message_frame_for i f"
    and "\<And>f. DvOther f \<in> set evs \<Longrightarrow> dv_keeps c f \<and> cap_kept f"
  shows "flow_ok c k i x0 cap highwater (fold (dv_step pc c k highwater) evs d)"
  using assms(1,3-5)
proof (induction evs arbitrary: d)
  case (Cons ev evs)
  have "flow_ok c k i x0 cap highwater (dv_step pc c k highwater ev d)"
    by (rule flow_ok_step [OF Cons.prems(1) assms(2)]) (use Cons.prems(2-4) in auto)
  from Cons.IH [OF this] Cons.prems(2-4) show ?case by simp
qed simp

lemma highwater_cap: "unat (ra_highwater s) \<le> ch_cap (mcs_messages s) div 2"
  by (simp add: ra_highwater_def unat_div unsigned_of_nat take_bit_nat_eq_self take_bit_eq_mod div_le_mono)

section \<open>Properties\<close>

text \<open>
  C12. Flow control keeps the queue from overflowing. \<open>ReceiveAsync\<close> and the read loop of the client run
  side by side, interleaved in any way and with other uses of the client; the queue is empty at the
  start, \<open>ReceiveAsync\<close> takes up the consumer once, and the broker sends no more messages than the
  permits that \<open>ReceiveAsync\<close> has asked for up to then (nobody else asks for any). Then no message is
  ever dropped and the read loop never blocks: every message taken from the connection is, in the
  order of arrival, forwarded or still in the queue, the queue holds no more than half its capacity,
  and the consumer's overflow is untouched. And the flow does not dry up: while \<open>ReceiveAsync\<close> waits
  with an empty queue, the broker has a permit left.
\<close>

theorem flow_prevents_overflow:
  assumes "x0 = the_mcs_consumer (c, k) (snd s)" "c < length (wd_clients (snd s))" "k < length (st_Consumers (wd_clients (snd s) ! c))"
    and "sub_consumers (wd_clients (snd s) ! c) i = Some k" "Consumer_Queue x0 = mcs_queue (fst s)"
    and "mcs_queue (fst s) < length (wd_queues (snd s))" "ch_receivers (mcs_messages s) = 0" "ch_buf (mcs_messages s) = []"
    and "\<not> cl_stuck (wd_clients (snd s) ! c)"
    and "\<And>f. DvFrame f \<in> set evs \<Longrightarrow> is_message f \<Longrightarrow> message_frame_for i f"
    and "\<And>f. DvOther f \<in> set evs \<Longrightarrow> dv_keeps c f \<and> cap_kept f"
    and "permitted pc c k (ra_highwater s) evs \<lparr>dv_ra = \<lparr>ra_phase = RaDrain, ra_world = s, ra_out = [], ra_acts = []\<rparr>, dv_taken = []\<rparr>"
    and "d = dv_run pc c k evs s" "r = dv_ra d" "starts (ra_acts r) \<le> 1"
  shows "ra_out r @ ch_buf (mcs_messages (ra_world r)) = map (Consumer_message x0) (filter is_message (dv_taken d)) \<and>
    length (ch_buf (mcs_messages (ra_world r))) \<le> ch_cap (mcs_messages s) div 2 \<and>
    the_mcs_consumer (c, k) (snd (ra_world r)) = x0 \<and> \<not> cl_stuck (dv_client c r) \<and>
    (\<forall>p n. ra_phase r = RaSelect p n \<longrightarrow> ch_buf (mcs_messages (ra_world r)) = [] \<longrightarrow>
       length (filter is_message (dv_taken d)) < granted (ra_acts r))"
proof -
  let ?d0 = "\<lparr>dv_ra = \<lparr>ra_phase = RaDrain, ra_world = s, ra_out = [], ra_acts = []\<rparr>, dv_taken = []\<rparr>"
  let ?cap = "ch_cap (mcs_messages s)"
  have le: "unat (ra_highwater s) \<le> ?cap div 2" by (rule highwater_cap)
  have "flow_ok c k i x0 ?cap (ra_highwater s) ?d0"
    using assms(1-9)
    by (simp add: flow_ok_def dv_clean_def flow_count_def dv_view_def dv_client_def the_mcs_consumer_def messages_taken_def)
  from flow_ok_run [OF this _ assms(12,10,11)] le have "flow_ok c k i x0 ?cap (ra_highwater s) d"
    unfolding assms(13) dv_run_def by simp
  with assms(14,15) have ok: "dv_clean c k i x0 ?cap d" "flow_count (unat (ra_highwater s)) r"
    "messages_taken d \<le> granted (ra_acts r)" by (simp_all add: flow_ok_def)
  have "length (ch_buf (mcs_messages (ra_world r))) \<le> ?cap div 2"
    using flow_room(1) [OF ok(1), of "unat (ra_highwater s)"] ok(2,3) le assms(14) by simp
  moreover have "messages_taken d < granted (ra_acts r)"
    if "ra_phase r = RaSelect p n" "ch_buf (mcs_messages (ra_world r)) = []" for p n
    using dv_clean_count [OF ok(1)] ok(2) that assms(14) by (simp add: flow_count_def)
  ultimately show ?thesis
    using ok(1) assms(14) by (auto simp: dv_clean_def dv_view_def dv_client_def the_mcs_consumer_def messages_taken_def)
qed

text \<open>An empty queue of four: \<open>ReceiveAsync\<close> asks for two messages, one comes and is forwarded.\<close>

definition demo_flow_world :: mcs_world where
  "demo_flow_world = (fst demo_mcs, NewClientPool\<lparr>wd_clients := [demo_dv_client], wd_queues := [make_chan 4]\<rparr>)"

abbreviation demo_flow_start :: delivery where
  "demo_flow_start \<equiv> \<lparr>dv_ra = \<lparr>ra_phase = RaDrain, ra_world = demo_flow_world, ra_out = [], ra_acts = []\<rparr>, dv_taken = []\<rparr>"

definition demo_flow_evs :: "dv_event list" where
  "demo_flow_evs = [DvGo, DvGo, DvGo, DvFrame demo_message, DvCase SelMsg]"

lemma demo_flow_highwater: "ra_highwater demo_flow_world = 2"
  by (simp add: ra_highwater_def mcs_messages_def demo_flow_world_def demo_dv_state NewClientPool_def make_chan_def)

lemma demo_flow_go:
  "\<exists>w. dv_step demo_any_proto 0 0 2 DvGo (dv_step demo_any_proto 0 0 2 DvGo (dv_step demo_any_proto 0 0 2 DvGo demo_flow_start)) =
    \<lparr>dv_ra = \<lparr>ra_phase = RaSelect (0, 0) 0, ra_world = (fst demo_mcs, w), ra_out = [], ra_acts = [ActStart 2]\<rparr>, dv_taken = []\<rparr> \<and>
    \<not> cl_stuck (wd_clients w ! 0)"
proof -
  have "ep_S (demo_dv_client\<lparr>st_Queues := [make_chan 4]\<rparr>) = ep_S demo_pair_client"
    by (simp add: demo_dv_client_def demo_sub_client_def)
  from demo_flow [OF _ this, of 2 0] obtain cl where
    "Consumer_Flow (conn_sender demo_any_proto) 2 0 (demo_dv_client\<lparr>st_Queues := [make_chan 4]\<rparr>) =
     (None, demo_dv_client\<lparr>st_Queues := [make_chan 4], ep_S := cl\<rparr>)" by auto
  moreover have "mcs_consumer (fst demo_mcs) = Some (0, 0)" by (simp add: demo_mcs_def)
  ultimately show ?thesis
    by (simp add: dv_step_def ra_step_def ra_go_def mcs_messages_def demo_flow_world_def NewClientPool_def demo_dv_state
        try_recv_def make_chan_def ra_flow_def with_client_def Let_def)
qed

lemma starts_msg: "starts (ra_acts (ra_case pc highwater SelMsg s)) = starts (ra_acts s)"
  by (simp add: ra_case_def ra_forward_def split: ra_phase.split option.split prod.split)

abbreviation demo_flow_run :: delivery where
  "demo_flow_run \<equiv> dv_run demo_any_proto 0 0 demo_flow_evs demo_flow_world"

theorem flow_prevents_overflow_witness:
  "ra_out (dv_ra demo_flow_run) @ ch_buf (mcs_messages (ra_world (dv_ra demo_flow_run))) =
     [Consumer_message (newConsumer ''t'' 0 0) demo_message] \<and> \<not> cl_stuck (dv_client 0 (dv_ra demo_flow_run))"
proof -
  obtain w where go: "dv_step demo_any_proto 0 0 2 DvGo (dv_step demo_any_proto 0 0 2 DvGo (dv_step demo_any_proto 0 0 2 DvGo demo_flow_start)) =
    \<lparr>dv_ra = \<lparr>ra_phase = RaSelect (0, 0) 0, ra_world = (fst demo_mcs, w), ra_out = [], ra_acts = [ActStart 2]\<rparr>, dv_taken = []\<rparr>"
    "\<not> cl_stuck (wd_clients w ! 0)" using demo_flow_go by blast
  have m: "is_message demo_message" by (rule is_message_for [OF demo_message_for])
  have run: "starts (ra_acts (dv_ra demo_flow_run)) \<le> 1" "dv_taken demo_flow_run = [demo_message]"
    using go by (simp_all add: demo_flow_evs_def dv_run_def demo_flow_highwater)
      (simp_all add: dv_step_def dv_client_def dv_upd_def ra_step_def starts_msg)
  have perm: "permitted demo_any_proto 0 0 2 demo_flow_evs demo_flow_start"
    using go(1) m by (simp add: demo_flow_evs_def messages_taken_def)
  have w: "newConsumer ''t'' 0 0 = the_mcs_consumer (0, 0) (snd demo_flow_world)" "0 < length (wd_clients (snd demo_flow_world))"
    "0 < length (st_Consumers (wd_clients (snd demo_flow_world) ! 0))" "sub_consumers (wd_clients (snd demo_flow_world) ! 0) 0 = Some 0"
    "Consumer_Queue (newConsumer ''t'' 0 0) = mcs_queue (fst demo_flow_world)"
    "mcs_queue (fst demo_flow_world) < length (wd_queues (snd demo_flow_world))"
    "ch_receivers (mcs_messages demo_flow_world) = 0" "ch_buf (mcs_messages demo_flow_world) = []"
    "\<not> cl_stuck (wd_clients (snd demo_flow_world) ! 0)"
    by (simp_all add: demo_flow_world_def NewClientPool_def demo_dv_state the_mcs_consumer_def mcs_messages_def make_chan_def newConsumer_def)
  have fr: "DvFrame f \<in> set demo_flow_evs \<Longrightarrow> is_message f \<Longrightarrow> message_frame_for 0 f" for f
    using demo_message_for by (auto simp: demo_flow_evs_def)
  have ot: "DvOther f \<in> set demo_flow_evs \<Longrightarrow> dv_keeps 0 f \<and> cap_kept f" for f
    by (simp add: demo_flow_evs_def)
  from flow_prevents_overflow [OF w fr ot perm [folded demo_flow_highwater] refl refl run(1)] run(2) m show ?thesis by simp
qed

end
