(* ===== verification/EndToEnd.thy ===== *)
theory EndToEnd
  imports Exchange
begin

text \<open>
  A client and the server of \<^verbatim>\<open>core/srv/server.go\<close> together: sending a message, subscribing and pinging, through
  the encoded bytes in both directions, the loops that read them and the dispatcher.
\<close>

section \<open>One exchange\<close>

text \<open>If the bytes a client has written since are one frame, the server's answer to it is what the client reads.\<close>

lemma server_env_one:
  assumes "encodable pc f" "Server_handleFrame srv f = Inr (Some g)" "encodable pc g"
    and "length (ch_buf (Server_Received srv)) < ch_cap (Server_Received srv)"
    and "wr_out (Conn_W (ep_S v)) = out @ frame_wire pc f"
  shows "server_env pc srv (length out) mk v = client_env pc (conn_sender pc) [g] id mk v"
  using server_frames_one [OF assms(1-4)] by (simp add: server_env_def assms(5))

text \<open>What the server does with the bytes \<open>bs\<close>.\<close>

definition server_after :: "proto \<Rightarrow> Server \<Rightarrow> bytes \<Rightarrow> Server" where
  "server_after pc srv bs = fst (snd (Server_serve pc srv \<lparr>rd_data = bs, rd_err = EOF\<rparr> new_buffer))"

lemma server_after_one:
  assumes "encodable pc f" "Server_handleFrame srv f = Inr (Some g)" "encodable pc g"
    and "length (ch_buf (Server_Received srv)) < ch_cap (Server_Received srv)" "chan_inv (Server_Received srv)"
  shows "chan_history (Server_Received (server_after pc srv (frame_wire pc f))) = chan_history (Server_Received srv) @ [f]"
proof -
  obtain ch where ch: "try_send f (Server_Received srv) = Some ch"
    using assms(4) by (cases "try_send f (Server_Received srv)") (simp_all add: try_send_def split: if_splits)
  from Server_serve_one [OF assms(1-3) this, of EOF] try_send_history [OF ch assms(5)] show ?thesis
    by (simp add: server_after_def)
qed

section \<open>Sending\<close>

lemma Server_handle_send:
  "Server_handleFrame srv (payload_frame (Producer_send_cmd pid sq) meta payload) = Inr (Some (receipt_frame pid sq))"
  by (simp add: Server_handleFrame_def payload_frame_def Producer_send_cmd_def BaseCommand_GetType_def
      BaseCommand_GetSend_def receipt_frame_def new_CommandSend_def)

text \<open>
  C8. A message gets to the server: \<open>Send\<close> of a producer whose connection leads to the server returns the
  receipt with the producer's id and the sequence id of this message, and the server has received
  exactly one more frame, which carries the payload and the producer's metadata.
\<close>

theorem send_end_to_end:
  fixes w :: "(Conn, 'z) Client_scheme"
  assumes "dreach s" "ds_d s = ep_Dispatcher w" "cl_spawned w = []" "\<not> cl_stuck w"
    and "x = the_Producer p w" "p < length (st_Producers w)" "\<not> Producer_IsClosed x" "Producer_traceHook x = None"
    and "sq = MonotonicID_ID (Producer_SeqID x)" "disp_lookup (KProdSeq (Producer_ProducerID x) sq) (ep_Dispatcher w) = None"
    and "f = payload_frame (Producer_send_cmd (Producer_ProducerID x) sq) (Producer_metadata t (Producer_ProducerName x) sq) payload"
    and "frame_valid pc f" "encodable pc (receipt_frame (Producer_ProducerID x) sq)"
    and "length (ch_buf (Server_Received srv)) < ch_cap (Server_Received srv)" "chan_inv (Server_Received srv)"
    and "Conn_SendPayloadCmd pc (Producer_send_cmd (Producer_ProducerID x) sq)
      (Producer_metadata t (Producer_ProducerName x) sq) payload (ep_S w) = (None, c)"
    and "out = wr_out (Conn_W (ep_S w))"
    and "Producer_Send (conn_sender pc) t (server_env pc srv (length out) (send_wake_of e)) p payload w = (r, w')"
  shows "(\<exists>m. r = Inr (Some m) \<and> CommandSendReceipt_ProducerId m = Some (Producer_ProducerID x) \<and>
      CommandSendReceipt_SequenceId m = Some sq) \<and>
    chan_history (Server_Received (server_after pc srv (drop (length out) (wr_out (Conn_W c))))) =
      chan_history (Server_Received srv) @ [f]"
proof -
  let ?g = "receipt_frame (Producer_ProducerID x) sq" and ?k = "KProdSeq (Producer_ProducerID x) sq"
  obtain b where "writeFrame_buf pc f new_buffer (ep_S w) = (None, b, c)"
    using assms(11,16) by (auto simp: Conn_SendPayloadCmd_def split: prod.splits)
  from this assms(12) have c: "encodable pc f" "wr_out (Conn_W c) = out @ frame_wire pc f"
    unfolding assms(17) by (cases rule: writeFrame_buf_wire; simp)+
  have h: "Server_handleFrame srv f = Inr (Some ?g)" unfolding assms(11) by (rule Server_handle_send)
  have env: "server_env pc srv (length out) (send_wake_of e) v = client_env pc (conn_sender pc) [?g] id (send_wake_of e) v"
    if "ep_S v = c" for v :: "(Conn, 'z) Client_scheme"
    by (rule server_env_one [OF c(1) h assms(13,14)]) (simp add: that c(2))
  have "r = Producer_send_result (Producer_ProducerID x) sq (send_wake_of e (find (\<lambda>f. frame_key f = Some ?k) (cl_spawned w @ [?g])))"
    by (rule Producer_Send_answer [OF assms(1,2,5-9) refl assms(10) _ _ _ env assms(18)])
      (use assms(3,4,16) in \<open>simp_all add: conn_sender_def no_messages_def\<close>)
  then have "r = Inr (BaseCommand_GetSendReceipt (Frame_BaseCmd ?g))"
    using assms(3) by (simp add: send_wake_of_def)
  with server_after_one [OF c(1) h assms(13-15)] show ?thesis
    by (simp add: c(2) receipt_frame_def simple_frame_def BaseCommand_GetSendReceipt_def)
qed

text \<open>A codec for the two commands of the exchange and the metadata of the message.\<close>

definition demo_send_frame :: Frame where
  "demo_send_frame = payload_frame (Producer_send_cmd 0 0) (Producer_metadata 0 '''' 0) [9]"

definition demo_send_proto :: proto where
  "demo_send_proto =
     (let q = Producer_send_cmd 0 0; a = the (Frame_BaseCmd (receipt_frame 0 0)); m = Producer_metadata 0 '''' 0 in
      demo_proto\<lparr>
        Marshal_BaseCommand := (\<lambda>c. if c = Some q then Inr [1] else if c = Some a then Inr [2] else Inl (ErrProto ''unsupported'')),
        Unmarshal_BaseCommand := (\<lambda>b. if b = [1] then (q, None) else if b = [2] then (a, None)
          else (new_BaseCommand, Some (ErrProto ''unsupported''))),
        Marshal_MessageMetadata := (\<lambda>x. if x = m then Inr [3] else Inl (ErrProto ''unsupported'')),
        Unmarshal_MessageMetadata := (\<lambda>b. if b = [3] then (m, None) else (new_MessageMetadata, Some (ErrProto ''unsupported'')))\<rparr>)"

definition demo_send_client :: "Conn Client" where
  "demo_send_client = demo_pair_client\<lparr>st_Producers := [NewProducer 0]\<rparr>"

abbreviation demo_server_send :: "(go_error + CommandSendReceipt option) \<times> Conn Client" where
  "demo_server_send \<equiv> Producer_Send (conn_sender demo_send_proto)
     0 (server_env demo_send_proto (NewServer ''b'') 0 (send_wake_of Canceled)) 0 [9] demo_send_client"

lemma demo_send_ne: "Producer_send_cmd 0 0 \<noteq> the (Frame_BaseCmd (receipt_frame 0 0))"
  by (simp add: Producer_send_cmd_def receipt_frame_def simple_frame_def new_BaseCommand_def)

lemma demo_send_encodable:
  "encodable demo_send_proto demo_send_frame" "encodable demo_send_proto (receipt_frame 0 0)"
proof -
  have valid: "frame_valid demo_send_proto demo_send_frame"
    by (simp add: frame_valid_def demo_send_frame_def payload_frame_def demo_send_proto_def Let_def proto_cmd_ok_def
        proto_meta_ok_def encoded_size_def)
  have "fst (Frame_Encode demo_send_proto demo_send_frame new_buffer) = None"
    by (subst Frame_Encode_payload [where cmd = "[1]" and m = "Producer_metadata 0 '''' 0" and meta = "[3]"])
      (simp_all add: demo_send_frame_def payload_frame_def demo_send_proto_def Let_def MaxFrameSize_def new_buffer_def)
  with valid show "encodable demo_send_proto demo_send_frame" by (simp add: encodable_def)
  obtain a where a: "receipt_frame 0 0 = simple_frame a" by (simp add: receipt_frame_def)
  then have "Producer_send_cmd 0 0 \<noteq> a" using demo_send_ne by (simp add: simple_frame_def)
  then show "encodable demo_send_proto (receipt_frame 0 0)"
    unfolding a encodable_def frame_valid_def demo_send_proto_def Let_def simple_frame_def
    by (simp add: proto_cmd_ok_def encoded_size_def Frame_Encode_def Frame_totalSize_def MaxFrameSize_def new_buffer_def)
qed

theorem send_end_to_end_witness:
  "\<exists>m. fst demo_server_send = Inr (Some m) \<and> CommandSendReceipt_SequenceId m = Some 0"
proof -
  let ?w = demo_send_client
  let ?send = "Conn_SendPayloadCmd demo_send_proto (Producer_send_cmd 0 0) (Producer_metadata 0 '''' 0) [9] (ep_S ?w)"
  have w: "cl_spawned ?w = []" "\<not> cl_stuck ?w" "ep_Dispatcher ?w = NewFrameDispatcher" "wr_out (Conn_W (ep_S ?w)) = []"
    "st_Producers ?w = [NewProducer 0]"
    by (simp_all add: demo_send_client_def demo_pair_client_def new_Client_def new_buffer_def)
  have snt: "?send = (None, snd ?send)"
    using demo_send_encodable(1)
    by (auto simp: Conn_SendPayloadCmd_def writeFrame_buf_def encodable_def demo_send_client_def demo_pair_client_def new_Client_def
        demo_send_frame_def Write_def new_buffer_def split: prod.splits option.splits)
  show ?thesis
    using send_end_to_end [OF dreach.init, of ?w "NewProducer 0" 0 0 demo_send_frame 0 "[9]" demo_send_proto "NewServer ''b''"
        "snd ?send" "[]" Canceled "fst demo_server_send" "snd demo_server_send"] snt demo_send_encodable
    by (auto simp: w NewProducer_def NewServer_def make_chan_def dstate_init_def NewFrameDispatcher_def encodable_def
        demo_send_frame_def chan_inv_def)
qed

section \<open>Subscribing\<close>

text \<open>Handling the answer to a request changes nothing but the dispatcher, and reports an error at most.\<close>

lemma client_env_keeps:
  assumes "frame_key g = Some k" "cl_spawned v = []" "\<not> cl_stuck v"
  shows "ps_Subscriptions (fst (client_env pc S [g] id mk v)) = ps_Subscriptions v"
    "st_Consumers (fst (client_env pc S [g] id mk v)) = st_Consumers v"
proof -
  have "BaseCommand_GetType (Frame_BaseCmd g) \<noteq> BaseCommand_MESSAGE" using assms(1) frame_key_message by fastforce
  then have "Client_handler pc S g v = v\<lparr>cl_spawned := [g]\<rparr>" using assms(2,3) by (simp add: Client_handler_def)
  then show "ps_Subscriptions (fst (client_env pc S [g] id mk v)) = ps_Subscriptions v"
    "st_Consumers (fst (client_env pc S [g] id mk v)) = st_Consumers v"
    using assms(1)
    by (simp_all add: client_env_def Let_def Client_run_spawned_def Client_handleFrame_def Client_route_key ep_notify_def
        Client_async_err_def split: option.split prod.split)
qed

lemma Server_handle_subscribe:
  "Server_handleFrame srv (simple_frame (Pubsub_subscribe_cmd rid cid topic sub subType pos)) = Inr (Some (success_frame rid))"
  by (simp add: Server_handleFrame_def simple_frame_def Pubsub_subscribe_cmd_def BaseCommand_GetType_def
      BaseCommand_GetSubscribe_def success_frame_def new_CommandSubscribe_def)

text \<open>
  C9. A subscription at the server: \<open>Subscribe\<close> of a client whose connection leads to the server returns the new
  consumer, which the client's subscriptions hold under its id, and the server has received exactly
  the SUBSCRIBE command.
\<close>

theorem subscribe_end_to_end:
  fixes w :: "(Conn, 'z) Client_scheme"
  assumes "dreach s" "ds_d s = ep_Dispatcher w" "cl_spawned w = []" "\<not> cl_stuck w"
    and "rid = MonotonicID_ID (ep_ReqID w)" "Dispatcher_ReqIDs (ep_Dispatcher w) rid = None"
    and "cid = MonotonicID_ID (ps_ConsumerID w)" "i = length (st_Consumers w)"
    and "cmd = Pubsub_subscribe_cmd rid cid topic sub subType pos"
    and "frame_valid pc (simple_frame cmd)" "encodable pc (success_frame rid)"
    and "length (ch_buf (Server_Received srv)) < ch_cap (Server_Received srv)" "chan_inv (Server_Received srv)"
    and "Conn_SendSimpleCmd pc cmd (ep_S w) = (None, c)" "out = wr_out (Conn_W (ep_S w))"
    and "Pubsub_Subscribe (conn_sender pc) (server_env pc srv (length out) (lookup_wake e)) topic sub subType pos queue w = (r, w')"
  shows "r = Inr i \<and> sub_consumers w' cid = Some i \<and> the_Consumer i w' = newConsumer topic cid queue \<and>
    chan_history (Server_Received (server_after pc srv (drop (length out) (wr_out (Conn_W c))))) =
      chan_history (Server_Received srv) @ [simple_frame cmd]"
proof -
  let ?g = "success_frame rid" and ?k = "KReq rid"
  let ?S = "conn_sender pc" and ?env = "server_env pc srv (length out) (lookup_wake e)"
  let ?w0 = "(snd (ep_Next w))\<lparr>ps_ConsumerID := (ps_ConsumerID w)\<lparr>MonotonicID_ID := cid + 1\<rparr>\<rparr>"
  let ?send = "subscribe_send ?S id cmd topic cid queue i"
  note wire = Conn_SendSimpleCmd_wire [OF assms(14,10), folded assms(15)]
  have h: "Server_handleFrame srv (simple_frame cmd) = Inr (Some ?g)" unfolding assms(9) by (rule Server_handle_subscribe)
  have env: "?env v = client_env pc ?S [?g] id (lookup_wake e) v" if "ep_S v = c" for v :: "(Conn, 'z) Client_scheme"
    by (rule server_env_one [OF wire(1) h assms(11,12)]) (simp add: that wire(2))
  have req: "request ?k ?send ?env (subscribe_handle rid i) ?w0 = (r, w')"
    using assms(16) unfolding assms(5,7,8,9) by (simp add: Pubsub_Subscribe_request Let_def)
  have snt: "fst (?send v) = None" "ep_S (snd (?send v)) = c" if "ep_S v = ep_S w" for v :: "(Conn, 'z) Client_scheme"
    using that assms(14) by (simp_all add: subscribe_send_def ep_send_def conn_sender_def subscribed_def Subscriptions_AddConsumer_def)
  have spw: "cl_spawned (snd (?send v)) = cl_spawned v" "cl_stuck (snd (?send v)) = cl_stuck v"
    "ep_Dispatcher (snd (?send v)) = ep_Dispatcher v" for v :: "(Conn, 'z) Client_scheme"
    by (simp_all add: subscribe_send_def ep_send_def subscribed_def Subscriptions_AddConsumer_def Subscriptions_DelConsumer_def
        upd_consumers_def
        split: prod.split option.split)
  have look: "disp_lookup ?k (ep_Dispatcher ?w0) = None" using assms(6) by simp
  have "r = fst (subscribe_handle rid i (lookup_wake e (find (\<lambda>f. frame_key f = Some ?k) (cl_spawned ?w0 @ [?g]))) ?w0)"
    by (rule request_answer [OF assms(1) _ look _ spw(3,1,2) _ _ _ _ _ req, where pc = pc and S = ?S and fs = "[?g]" and perm = id])
      (use assms(2-4) snt env in \<open>simp_all add: no_messages_def subscribe_handle_def Subscriptions_DelConsumer_def upd_consumers_def Let_def
         split: wake.split\<close>)
  then have r: "r = Inr i" using assms(3) by (simp add: lookup_wake_def subscribe_handle_def)
  from look req have "sub_consumers w' cid = Some i \<and> the_Consumer i w' = newConsumer topic cid queue"
  proof (cases rule: request_cases)
    case (answered h d w1 w2 wk w3)
    note w1 = subscribe_send_None [OF answered(1)]
    let ?v = "ep_disp (resp_await h) w1"
    have v: "ep_S ?v = c" "cl_spawned ?v = []" "\<not> cl_stuck ?v"
      using snt(2) [of "?w0\<lparr>ep_Dispatcher := d\<rparr>"] spw(1,2) [of "?w0\<lparr>ep_Dispatcher := d\<rparr>"] assms(3,4) answered(1)
      by (simp_all add: ep_disp_def)
    have "sub_consumers w1 cid = Some i" "the_Consumer i w1 = newConsumer topic cid queue"
      by (subst w1, use assms(8) in simp)+
    moreover have "client_env pc ?S [?g] id (lookup_wake e) ?v = (w2, wk)" using env [OF v(1)] answered(2) by simp
    note client_env_keeps [OF frame_key_success v(2,3), where pc = pc and S = ?S and mk = "lookup_wake e", of rid, unfolded this fst_conv]
    ultimately have "sub_consumers w2 cid = Some i \<and> the_Consumer i w2 = newConsumer topic cid queue" by simp
    with subscribe_handle_cases [OF answered(3)] r answered(4) show ?thesis by simp
  qed (use r in simp)
  with r server_after_one [OF wire(1) h assms(11-13)] show ?thesis by (simp add: wire(2))
qed

text \<open>A codec for a command and its answer.\<close>

definition pair_proto :: "BaseCommand \<Rightarrow> BaseCommand \<Rightarrow> proto" where
  "pair_proto q a =
     demo_proto\<lparr>
       Marshal_BaseCommand := (\<lambda>c. if c = Some q then Inr [1] else if c = Some a then Inr [2] else Inl (ErrProto ''unsupported'')),
       Unmarshal_BaseCommand := (\<lambda>b. if b = [1] then (q, None) else if b = [2] then (a, None)
         else (new_BaseCommand, Some (ErrProto ''unsupported'')))\<rparr>"

lemma pair_proto_encodable:
  assumes "q \<noteq> a"
  shows "encodable (pair_proto q a) (simple_frame q)" "encodable (pair_proto q a) (simple_frame a)"
  using assms unfolding encodable_def frame_valid_def pair_proto_def simple_frame_def
  by (simp_all add: proto_cmd_ok_def encoded_size_def Frame_Encode_def Frame_totalSize_def MaxFrameSize_def new_buffer_def)

definition demo_subscribe_cmd :: BaseCommand where
  "demo_subscribe_cmd = Pubsub_subscribe_cmd 0 0 ''t'' ''s'' CommandSubscribe_Shared CommandSubscribe_Latest"

definition demo_subscribe_proto :: proto where
  "demo_subscribe_proto = pair_proto demo_subscribe_cmd (the (Frame_BaseCmd (success_frame 0)))"

abbreviation demo_server_subscribe :: "(go_error + nat) \<times> Conn Client" where
  "demo_server_subscribe \<equiv> Pubsub_Subscribe (conn_sender demo_subscribe_proto)
     (server_env demo_subscribe_proto (NewServer ''b'') 0 (lookup_wake Canceled)) ''t'' ''s'' CommandSubscribe_Shared CommandSubscribe_Latest 0
     demo_pair_client"

theorem subscribe_end_to_end_witness:
  "fst demo_server_subscribe = Inr 0 \<and> sub_consumers (snd demo_server_subscribe) 0 = Some 0"
proof -
  let ?w = demo_pair_client
  let ?send = "Conn_SendSimpleCmd demo_subscribe_proto demo_subscribe_cmd (ep_S ?w)"
  have w: "cl_spawned ?w = []" "\<not> cl_stuck ?w" "ep_Dispatcher ?w = NewFrameDispatcher" "wr_out (Conn_W (ep_S ?w)) = []"
    "MonotonicID_ID (ep_ReqID ?w) = 0" "MonotonicID_ID (ps_ConsumerID ?w) = 0" "st_Consumers ?w = []"
    by (simp_all add: demo_pair_client_def new_Client_def new_buffer_def)
  have "demo_subscribe_cmd \<noteq> the (Frame_BaseCmd (success_frame 0))"
    by (simp add: demo_subscribe_cmd_def Pubsub_subscribe_cmd_def success_frame_def simple_frame_def new_BaseCommand_def)
  from pair_proto_encodable [OF this] have enc: "encodable demo_subscribe_proto (simple_frame demo_subscribe_cmd)"
    "encodable demo_subscribe_proto (success_frame 0)"
    by (simp_all add: demo_subscribe_proto_def success_frame_def simple_frame_def)
  have snt: "?send = (None, snd ?send)"
    using enc(1)
    by (auto simp: Conn_SendSimpleCmd_def writeFrame_buf_def encodable_def demo_pair_client_def new_Client_def
        Write_def new_buffer_def split: prod.splits option.splits)
  show ?thesis
    using subscribe_end_to_end [OF dreach.init, of ?w 0 0 0 demo_subscribe_cmd "''t''" "''s''" CommandSubscribe_Shared
        CommandSubscribe_Latest demo_subscribe_proto "NewServer ''b''" "snd ?send" "[]" Canceled 0
        "fst demo_server_subscribe" "snd demo_server_subscribe"] snt enc
    by (auto simp: w NewServer_def make_chan_def dstate_init_def NewFrameDispatcher_def encodable_def demo_subscribe_cmd_def
        chan_inv_def)
qed

section \<open>Pinging\<close>

lemma server_frames_none:
  assumes "encodable pc f" "Server_handleFrame srv f = Inr None"
    and "length (ch_buf (Server_Received srv)) < ch_cap (Server_Received srv)"
  shows "server_frames pc srv (frame_wire pc f) = []"
proof -
  obtain ch where "try_send f (Server_Received srv) = Some ch"
    using assms(3) by (cases "try_send f (Server_Received srv)") (simp_all add: try_send_def split: if_splits)
  moreover have "Frame_Decode pc new_Frame \<lparr>rd_data = frame_wire pc f, rd_err = EOF\<rparr> = (None, f, \<lparr>rd_data = [], rd_err = EOF\<rparr>)"
    using encodable_decode [OF assms(1), of "[]" EOF] by simp
  ultimately have "snd (snd (Server_serve pc srv \<lparr>rd_data = frame_wire pc f, rd_err = EOF\<rparr> new_buffer)) = new_buffer"
    by (subst Server_serve.simps)
      (simp add: assms(2) Server_serve.simps [of _ _ "\<lparr>rd_data = [], rd_err = EOF\<rparr>"] Frame_Decode_Nil)
  then show ?thesis
    using read_loop_wires_all [of "[]" pc "\<lambda>f fs. fs @ [f]" EOF "[]"]
    by (simp add: server_frames_def case_prod_beta new_buffer_def)
qed

definition pong_frame :: Frame where
  "pong_frame = simple_frame (new_BaseCommand\<lparr>BaseCommand_Type := Some BaseCommand_PONG, BaseCommand_Pong := Some CommandPong\<rparr>)"

lemma frame_key_pong [simp]: "frame_key pong_frame = Some KGlobal"
  by (simp add: frame_key_def pong_frame_def simple_frame_def BaseCommand_GetType_def)

lemma pong_type [simp]: "BaseCommand_GetType (Frame_BaseCmd pong_frame) = BaseCommand_PONG"
  by (simp add: pong_frame_def simple_frame_def BaseCommand_GetType_def)

lemma Server_handle_ping:
  "Server_handleFrame srv (simple_frame Pinger_ping_cmd) = Inr (if Server_ignorePings srv then None else Some pong_frame)"
  by (simp add: Server_handleFrame_def simple_frame_def Pinger_ping_cmd_def BaseCommand_GetType_def pong_frame_def)

text \<open>
  A ping of the server: it succeeds, and after \<open>SetIgnorePings\<close> it ends with the context, which is how
  the managed client finds that its connection is dead.
\<close>

theorem ping_end_to_end:
  fixes w :: "(Conn, 'z) Client_scheme"
  assumes "dreach s" "ds_d s = ep_Dispatcher w" "cl_spawned w = []" "\<not> cl_stuck w" "disp_lookup KGlobal (ep_Dispatcher w) = None"
    and "frame_valid pc (simple_frame Pinger_ping_cmd)" "encodable pc pong_frame"
    and "length (ch_buf (Server_Received srv)) < ch_cap (Server_Received srv)"
    and "Conn_SendSimpleCmd pc Pinger_ping_cmd (ep_S w) = (None, c)"
    and "Client_Ping (conn_sender pc) (server_env pc srv (length (wr_out (Conn_W (ep_S w)))) (lookup_wake e)) w = (r, w')"
  shows "r = (if Server_ignorePings srv then Inl (ErrCtx e) else Inr ())"
proof -
  let ?S = "conn_sender pc" and ?n = "length (wr_out (Conn_W (ep_S w)))"
  let ?fs = "if Server_ignorePings srv then [] else [pong_frame]"
  let ?send = "ep_send ?S Pinger_ping_cmd"
  let ?res = "\<lambda>wk :: wake. case wk of WakeCtx e \<Rightarrow> Inl (ErrCtx e) | WakeResp _ \<Rightarrow> Inr ()"
  note wire = Conn_SendSimpleCmd_wire [OF assms(9,6)]
  have fs: "server_frames pc srv (drop ?n (wr_out (Conn_W c))) = ?fs"
    using server_frames_one [OF wire(1) _ assms(7,8)] server_frames_none [OF wire(1) _ assms(8)]
    by (simp add: wire(2) Server_handle_ping)
  have env: "server_env pc srv ?n (lookup_wake e) (ep_disp (resp_await h) (snd (?send (w\<lparr>ep_Dispatcher := d\<rparr>)))) =
      client_env pc ?S ?fs id (lookup_wake e) (ep_disp (resp_await h) (snd (?send (w\<lparr>ep_Dispatcher := d\<rparr>))))" for h d
    using assms(9) by (simp add: server_env_def fs ep_send_def conn_sender_def del: drop_append)
  have req: "request KGlobal ?send (server_env pc srv ?n (lookup_wake e)) (\<lambda>wk v. (?res wk, v)) w = (r, w')"
    using assms(10) by (simp add: Client_Ping_def Pinger_Ping_def)
  have "r = ?res (lookup_wake e (find (\<lambda>f. frame_key f = Some KGlobal) (cl_spawned w @ ?fs)))"
    by (rule request_answer [OF assms(1,2,5) _ _ _ _ _ _ _ _ env req])
      (use assms(3,4,9) in \<open>simp_all add: ep_send_def conn_sender_def case_prod_beta no_messages_def\<close>)
  with assms(3) show ?thesis by (simp add: lookup_wake_def)
qed

end
