(* ===== verification/Listener.thy ===== *)
theory Listener
  imports Server
begin

text \<open>
  The two listening test servers: the accept loop of \<^verbatim>\<open>core/conn/mockserver.go\<close>, which hands the
  connections to the test, and that of \<^verbatim>\<open>core/srv/server.go\<close>, which serves them. The network is
  the events: what \<^verbatim>\<open>Accept\<close> returns next. A context that is cancelled closes the listener and every
  connection, each in a goroutine of its own.
\<close>

section \<open>The mock TCP listener\<close>

text \<open>
  The accepted connections are in \<open>mps_accepted\<close> and are referred to by their position. The accepting
  goroutine is in \<open>Accept\<close>, blocked in a send to one of the two channels, or has returned.
\<close>

datatype mps_phase = MpsAccept | MpsSendConn nat | MpsSendErr go_error | MpsReturned

record MockPulsarServer =
  mps_Addr :: string
  mps_Errs :: "go_error chan"
  mps_Conns :: "nat chan"
  mps_accepted :: "Conn list"
  mps_phase :: mps_phase
  mps_ctxDone :: bool
  mps_listening :: bool
  mps_netClosed :: "nat set"

definition NewMockPulsarServer :: "(go_error + string) \<Rightarrow> go_error + MockPulsarServer" where
  "NewMockPulsarServer listen =
     (case listen of
        Inl err \<Rightarrow> Inl err
      | Inr addr \<Rightarrow>
          Inr \<lparr>mps_Addr = ''pulsar://'' @ addr, mps_Errs = make_chan 0, mps_Conns = make_chan 1, mps_accepted = [],
               mps_phase = MpsAccept, mps_ctxDone = False, mps_listening = True, mps_netClosed = {}\<rparr>)"

datatype mps_event =
    MpsAccepted reader writer "go_error option"
  | MpsAcceptErr go_error
  | MpsGo
  | MpsRecvConn
  | MpsRecvErr
  | MpsCancel
  | MpsCloseListener
  | MpsCloseConn nat

text \<open>
  \<open>MpsGo\<close> lets a blocked send go through where it can: the channel of connections has room for one,
  and a send of an error waits for a receiver, which \<open>MpsRecvErr\<close> is.
\<close>

definition mps_step :: "mps_event \<Rightarrow> MockPulsarServer \<Rightarrow> MockPulsarServer" where
  "mps_step ev s =
     (case ev of
        MpsAccepted rc w ce \<Rightarrow>
          if mps_phase s = MpsAccept \<and> mps_listening s
          then s\<lparr>mps_accepted := mps_accepted s @ [new_Conn rc w ce], mps_phase := MpsSendConn (length (mps_accepted s))\<rparr>
          else s
      | MpsAcceptErr err \<Rightarrow> if mps_phase s = MpsAccept then s\<lparr>mps_phase := MpsSendErr err\<rparr> else s
      | MpsGo \<Rightarrow>
          (case mps_phase s of
             MpsSendConn c \<Rightarrow>
               (case try_send c (mps_Conns s) of
                  None \<Rightarrow> s
                | Some ch \<Rightarrow> s\<lparr>mps_Conns := ch, mps_phase := MpsAccept\<rparr>)
           | _ \<Rightarrow> s)
      | MpsRecvConn \<Rightarrow>
          (case try_recv (mps_Conns s) of None \<Rightarrow> s | Some (c, ch) \<Rightarrow> s\<lparr>mps_Conns := ch\<rparr>)
      | MpsRecvErr \<Rightarrow>
          (case mps_phase s of
             MpsSendErr err \<Rightarrow>
               s\<lparr>mps_Errs := (mps_Errs s)\<lparr>ch_taken := ch_taken (mps_Errs s) @ [err]\<rparr>, mps_phase := MpsReturned\<rparr>
           | _ \<Rightarrow> s)
      | MpsCancel \<Rightarrow> s\<lparr>mps_ctxDone := True\<rparr>
      | MpsCloseListener \<Rightarrow> if mps_ctxDone s then s\<lparr>mps_listening := False\<rparr> else s
      | MpsCloseConn c \<Rightarrow>
          if mps_ctxDone s \<and> c < length (mps_accepted s) then s\<lparr>mps_netClosed := insert c (mps_netClosed s)\<rparr> else s)"

text \<open>
  The connections handed over so far, those in the channel and the one being sent are exactly the
  accepted ones, in order.
\<close>

definition mps_inv :: "MockPulsarServer \<Rightarrow> bool" where
  "mps_inv s \<longleftrightarrow>
     chan_inv (mps_Conns s) \<and> ch_cap (mps_Conns s) = 1 \<and> ch_receivers (mps_Conns s) = 0 \<and>
     chan_history (mps_Conns s) @ (case mps_phase s of MpsSendConn c \<Rightarrow> [c] | _ \<Rightarrow> []) = [0..<length (mps_accepted s)] \<and>
     (mps_netClosed s \<noteq> {} \<longrightarrow> mps_ctxDone s) \<and> (\<not> mps_listening s \<longrightarrow> mps_ctxDone s) \<and>
     length (ch_taken (mps_Errs s)) = (if mps_phase s = MpsReturned then 1 else 0)"

lemma NewMockPulsarServer_inv: "NewMockPulsarServer listen = Inr s \<Longrightarrow> mps_inv s"
  by (auto simp: NewMockPulsarServer_def mps_inv_def chan_history_def make_chan_def chan_inv_def split: sum.splits)

lemma try_send_receivers: "try_send v c = Some c' \<Longrightarrow> ch_receivers c = 0 \<Longrightarrow> ch_receivers c' = 0"
  by (auto simp: try_send_def split: if_splits)

lemma try_recv_simps:
  "try_recv c = Some (v, c') \<Longrightarrow> ch_cap c' = ch_cap c" "try_recv c = Some (v, c') \<Longrightarrow> ch_receivers c' = ch_receivers c"
  by (auto simp: try_recv_def split: list.splits)

lemma mps_step_inv: "mps_inv s \<Longrightarrow> mps_inv (mps_step ev s)"
  by (cases ev)
    (auto simp: mps_inv_def mps_step_def try_recv_history try_recv_simps try_send_cap try_send_receivers try_send_history
       intro: try_send_inv try_recv_inv split: mps_phase.splits option.splits prod.splits if_splits)

lemma mps_run_inv: "mps_inv s \<Longrightarrow> mps_inv (fold mps_step evs s)"
  by (induction evs arbitrary: s) (simp_all add: mps_step_inv)

lemma mps_hands_over:
  assumes "NewMockPulsarServer listen = Inr s0" "s = fold mps_step evs s0"
  shows "\<exists>n. ch_taken (mps_Conns s) = [0..<n] \<and> n \<le> length (mps_accepted s) \<and> length (mps_accepted s) \<le> n + 2"
proof -
  have inv: "mps_inv s" using mps_run_inv [OF NewMockPulsarServer_inv [OF assms(1)]] assms(2) by simp
  let ?n = "length (ch_taken (mps_Conns s))"
  let ?rest = "ch_buf (mps_Conns s) @ (case mps_phase s of MpsSendConn c \<Rightarrow> [c] | _ \<Rightarrow> [])"
  have all: "ch_taken (mps_Conns s) @ ?rest = [0..<length (mps_accepted s)]"
    using inv by (simp add: mps_inv_def chan_history_def)
  have "length (ch_taken (mps_Conns s) @ ?rest) = length (mps_accepted s)" unfolding all by simp
  moreover have "length ?rest \<le> 2"
    using inv by (auto simp: mps_inv_def chan_inv_def split: mps_phase.split)
  moreover from this calculation have "ch_taken (mps_Conns s) = [0..<?n]"
    using arg_cong [OF all, of "take ?n"] by (simp add: take_upt)
  ultimately show ?thesis by (intro exI [of _ ?n]) simp
qed

section \<open>The accept loop of the server\<close>

text \<open>
  Closing a network connection: nothing more is read from it or written to it. A connection that is
  no longer in the map was closed by \<open>CloseAll\<close>, and its goroutine gets an error when it reads.
\<close>

definition net_close :: "Conn \<Rightarrow> Conn" where
  "net_close c = c\<lparr>Conn_Rc := \<lparr>rd_data = [], rd_err = ErrNet ''use of closed network connection''\<rparr>,
     Conn_W := (Conn_W c)\<lparr>wr_room := Some 0, wr_err := ErrNet ''use of closed network connection''\<rparr>\<rparr>"

record server_run =
  sr_srv :: Server
  sr_accepting :: bool
  sr_ctxDone :: bool
  sr_listening :: bool
  sr_serving :: "string list"
  sr_panic :: "go_error option"

definition start_Server :: "(go_error + string) \<Rightarrow> go_error + server_run" where
  "start_Server listen =
     (case listen of
        Inl err \<Rightarrow> Inl err
      | Inr addr \<Rightarrow>
          Inr \<lparr>sr_srv = NewServer addr, sr_accepting = True, sr_ctxDone = False, sr_listening = True, sr_serving = [],
               sr_panic = None\<rparr>)"

datatype server_event =
    SvAccepted string Conn
  | SvAcceptErr
  | SvServe string
  | SvCancel
  | SvCloseListener
  | SvCloseConn string
  | SvTest "Server \<Rightarrow> Server"

text \<open>The goroutine of one connection, from its first frame to its cleanup.\<close>

definition Server_conn :: "proto \<Rightarrow> string \<Rightarrow> Server \<Rightarrow> go_error option \<times> Server" where
  "Server_conn pc remoteAddr srv =
     (case map_of (Server_conns srv) remoteAddr of
        None \<Rightarrow> (None, Server_cleanup remoteAddr srv)
      | Some c \<Rightarrow>
          (case Server_serve pc srv (Conn_Rc c) (Conn_W c) of
             (Some panic, srv1, _) \<Rightarrow> (Some panic, srv1)
           | (None, srv1, _) \<Rightarrow> (None, Server_cleanup remoteAddr srv1)))"

definition server_step :: "proto \<Rightarrow> server_event \<Rightarrow> server_run \<Rightarrow> server_run" where
  "server_step pc ev s =
     (if sr_panic s \<noteq> None then s
      else
        (case ev of
           SvAccepted remoteAddr c \<Rightarrow>
             if sr_accepting s \<and> sr_listening s
             then s\<lparr>sr_srv := Server_Accept remoteAddr c (sr_srv s), sr_serving := sr_serving s @ [remoteAddr]\<rparr>
             else s
         | SvAcceptErr \<Rightarrow> s\<lparr>sr_accepting := False\<rparr>
         | SvServe remoteAddr \<Rightarrow>
             if remoteAddr \<in> set (sr_serving s)
             then (case Server_conn pc remoteAddr (sr_srv s) of
                     (e, srv) \<Rightarrow> s\<lparr>sr_srv := srv, sr_serving := remove1 remoteAddr (sr_serving s), sr_panic := e\<rparr>)
             else s
         | SvCancel \<Rightarrow> s\<lparr>sr_ctxDone := True\<rparr>
         | SvCloseListener \<Rightarrow> if sr_ctxDone s then s\<lparr>sr_listening := False\<rparr> else s
         | SvCloseConn remoteAddr \<Rightarrow>
             if sr_ctxDone s
             then s\<lparr>sr_srv := (sr_srv s)\<lparr>Server_conns :=
                    map (\<lambda>(a, c). (a, if a = remoteAddr then net_close c else c)) (Server_conns (sr_srv s))\<rparr>\<rparr>
             else s
         | SvTest f \<Rightarrow> s\<lparr>sr_srv := f (sr_srv s)\<rparr>))"

text \<open>Serving changes only the channel of received frames.\<close>

lemma Server_serve_keeps:
  "Server_serve pc srv r w = (e, srv', w') \<Longrightarrow> \<exists>ch. srv' = srv\<lparr>Server_Received := ch\<rparr>"
proof (induction pc srv r w arbitrary: e srv' w' rule: Server_serve.induct)
  case (1 pc srv r w)
  have keep: "\<exists>ch. srv = srv\<lparr>Server_Received := ch\<rparr>" by (intro exI [of _ "Server_Received srv"]) simp
  obtain e1 f r' where dec: "Frame_Decode pc new_Frame r = (e1, f, r')" by (metis prod_cases3)
  show ?case
  proof (cases "e1 = None \<and> (\<exists>resp w1 ch. Server_handleFrame srv f = Inr resp \<and>
      (case resp of None \<Rightarrow> (None, w) | Some rf \<Rightarrow> Frame_Encode pc rf w) = (None, w1) \<and>
      try_send f (Server_Received srv) = Some ch)")
    case True
    then obtain resp w1 ch where h: "e1 = None" "Server_handleFrame srv f = Inr resp"
      "(case resp of None \<Rightarrow> (None, w) | Some rf \<Rightarrow> Frame_Encode pc rf w) = (None, w1)"
      "try_send f (Server_Received srv) = Some ch" by blast
    from 1(2) h dec have "Server_serve pc (srv\<lparr>Server_Received := ch\<rparr>) r' w1 = (e, srv', w')"
      by (subst (asm) Server_serve.simps) simp
    from 1(1) [OF dec [symmetric] h(1) refl h(2) h(3) [symmetric] refl h(4) this] show ?thesis by fastforce
  next
    case False
    with 1(2) dec keep show ?thesis
      by (subst (asm) Server_serve.simps) (auto split: option.splits sum.splits prod.splits)
  qed
qed

definition conn_addrs :: "Server \<Rightarrow> string set" where
  "conn_addrs srv = set (map fst (Server_conns srv))"

lemma conn_addrs_simps [simp]:
  "conn_addrs (Server_cleanup a srv) = conn_addrs srv - {a}"
  "conn_addrs (Server_Accept a c srv) = insert a (conn_addrs srv)"
  "conn_addrs (srv\<lparr>Server_Received := ch\<rparr>) = conn_addrs srv"
  "conn_addrs (srv\<lparr>Server_conns := map (\<lambda>(b, c). (b, g b c)) (Server_conns srv)\<rparr>) = conn_addrs srv"
  by (simp_all add: conn_addrs_def Server_cleanup_def Server_Accept_def delete_keys update_keys case_prod_unfold comp_def
      insert_absorb del: set_map)

definition keeps_conns :: "(Server \<Rightarrow> Server) \<Rightarrow> bool" where
  "keeps_conns f \<longleftrightarrow> (\<forall>srv. conn_addrs (f srv) \<subseteq> conn_addrs srv)"

definition served_inv :: "server_run \<Rightarrow> bool" where
  "served_inv s \<longleftrightarrow> sr_panic s = None \<longrightarrow> conn_addrs (sr_srv s) \<subseteq> set (sr_serving s)"

lemma Server_conn_keeps:
  assumes "Server_conn pc a srv = (None, srv')"
  shows "conn_addrs srv' = conn_addrs srv - {a}"
  using assms by (auto simp: Server_conn_def dest!: Server_serve_keeps split: option.splits prod.splits)

lemma served_step:
  assumes "served_inv s" "\<And>f. ev = SvTest f \<Longrightarrow> keeps_conns f"
  shows "served_inv (server_step pc ev s)"
proof (cases "sr_panic s")
  case None
  with assms(1) have sub: "conn_addrs (sr_srv s) \<subseteq> set (sr_serving s)" by (simp add: served_inv_def)
  show ?thesis
  proof (cases ev)
    case (SvAccepted a c)
    with None sub show ?thesis
      by (auto simp: server_step_def served_inv_def)
  next
    case (SvServe a)
    show ?thesis
    proof (cases "a \<in> set (sr_serving s) \<and> fst (Server_conn pc a (sr_srv s)) = None")
      case True
      then obtain srv' where "Server_conn pc a (sr_srv s) = (None, srv')" by (metis prod.collapse)
      moreover from Server_conn_keeps [OF this] sub have "conn_addrs srv' \<subseteq> set (remove1 a (sr_serving s))"
        by auto (metis in_set_remove1 subsetD)
      ultimately show ?thesis using SvServe None True by (auto simp: server_step_def served_inv_def)
    qed (use SvServe None assms(1) in \<open>auto simp: server_step_def served_inv_def split: prod.split\<close>)
  next
    case (SvTest f)
    with assms(2) [OF SvTest] None sub show ?thesis by (auto simp: server_step_def served_inv_def keeps_conns_def)
  qed (use None sub in \<open>auto simp: server_step_def served_inv_def\<close>)
qed (use assms(1) in \<open>simp add: server_step_def\<close>)

lemma server_conns_served:
  assumes "start_Server listen = Inr s0" "\<And>f. SvTest f \<in> set evs \<Longrightarrow> keeps_conns f"
    and "s = fold (server_step pc) evs s0" "sr_panic s = None" "sr_serving s = []"
  shows "Server_conns (sr_srv s) = []"
proof -
  have "served_inv s0" using assms(1) by (auto simp: start_Server_def served_inv_def NewServer_def conn_addrs_def split: sum.splits)
  then have "served_inv (fold (server_step pc) evs s0)"
    using assms(2) by (induction evs arbitrary: s0) (simp_all add: served_step)
  with assms(3-5) show ?thesis by (simp add: served_inv_def conn_addrs_def)
qed

end
