(* ===== verification/Flags.thy ===== *)
theory Flags
  imports Prelude
begin

text \<open>
  Go's \<^verbatim>\<open>flag\<close> package as the two programs \<^verbatim>\<open>cmd/cli\<close> and \<^verbatim>\<open>pkg/fuzz/corpus-gen\<close> use it: flags that are
  strings, booleans, integers or durations, and the parsing of the arguments of a program. A flag sets one
  field of the program's arguments. Strings are strings of bytes.
\<close>

section \<open>Values\<close>

definition ParseBool :: "string \<Rightarrow> bool option" where
  "ParseBool s =
     (if s \<in> {''1'', ''t'', ''T'', ''true'', ''TRUE'', ''True''} then Some True
      else if s \<in> {''0'', ''f'', ''F'', ''false'', ''FALSE'', ''False''} then Some False
      else None)"

subsection \<open>Integers\<close>

definition int_digit :: "char \<Rightarrow> nat option" where
  "int_digit c =
     (let n = of_char c :: nat; l = of_char (lower_char c) :: nat in
      if is_digit c then Some (n - 48) else if 97 \<le> l \<and> l \<le> 122 then Some (l - 97 + 10) else None)"

text \<open>
  \<^verbatim>\<open>strconv.ParseInt\<close> with base 0: the base is that of the prefix, and underscores may stand between the
  digits and behind the prefix. \<open>None\<close> is a syntax error or a value out of range.
\<close>

definition base_prefix :: "string \<Rightarrow> nat \<times> string" where
  "base_prefix s =
     (if hd s \<noteq> CHR ''0'' then (10, s)
      else if length s \<ge> 3 \<and> lower_char (s ! 1) = CHR ''b'' then (2, drop 2 s)
      else if length s \<ge> 3 \<and> lower_char (s ! 1) = CHR ''o'' then (8, drop 2 s)
      else if length s \<ge> 3 \<and> lower_char (s ! 1) = CHR ''x'' then (16, drop 2 s)
      else (8, drop 1 s))"

fun uint_digits :: "nat \<Rightarrow> nat \<Rightarrow> string \<Rightarrow> nat option" where
  "uint_digits base n [] = Some n"
| "uint_digits base n (c # cs) =
     (if c = CHR ''_'' then uint_digits base n cs
      else
        (case int_digit c of
           None \<Rightarrow> None
         | Some d \<Rightarrow>
             if d \<ge> base then None
             else let n1 = n * base + d in if n1 \<ge> 2 ^ 64 then None else uint_digits base n1 cs))"

datatype us_seen = UsBegin | UsDigit | UsUnderscore | UsOther

fun underscores_ok :: "bool \<Rightarrow> us_seen \<Rightarrow> string \<Rightarrow> bool" where
  "underscores_ok hex i [] = (i \<noteq> UsUnderscore)"
| "underscores_ok hex i (c # cs) =
     (if is_digit c \<or> hex \<and> lower_char c \<in> {CHR ''a'', CHR ''b'', CHR ''c'', CHR ''d'', CHR ''e'', CHR ''f''}
      then underscores_ok hex UsDigit cs
      else if c = CHR ''_'' then i = UsDigit \<and> underscores_ok hex UsUnderscore cs
      else i \<noteq> UsUnderscore \<and> underscores_ok hex UsOther cs)"

definition underscoreOK :: "string \<Rightarrow> bool" where
  "underscoreOK s =
     (if length s \<ge> 2 \<and> hd s = CHR ''0'' \<and> lower_char (s ! 1) \<in> {CHR ''b'', CHR ''o'', CHR ''x''}
      then underscores_ok (lower_char (s ! 1) = CHR ''x'') UsDigit (drop 2 s)
      else underscores_ok False UsBegin s)"

definition ParseUint :: "string \<Rightarrow> nat option" where
  "ParseUint s =
     (if s = '''' then None
      else
        (case base_prefix s of (base, digits) \<Rightarrow>
          (case uint_digits base 0 digits of
             None \<Rightarrow> None
           | Some n \<Rightarrow> if CHR ''_'' \<in> set digits \<and> \<not> underscoreOK s then None else Some n)))"

definition ParseInt :: "string \<Rightarrow> int option" where
  "ParseInt s =
     (if s = '''' then None
      else
        (let neg = (hd s = CHR ''-''); s1 = (if hd s \<in> {CHR ''-'', CHR ''+''} then tl s else s) in
         case ParseUint s1 of
           None \<Rightarrow> None
         | Some un \<Rightarrow>
             if \<not> neg \<and> un \<ge> 2 ^ 63 \<or> neg \<and> un > 2 ^ 63 then None
             else Some (if neg then - int un else int un)))"

subsection \<open>Durations\<close>

text \<open>
  \<^verbatim>\<open>time.ParseDuration\<close> in nanoseconds. The sums are of 64 bits. What a fraction adds is computed in
  floating point: it is the parameter \<open>frac\<close>, on the digits as a number, their power of ten and the unit.
\<close>

fun leadingInt :: "nat \<Rightarrow> string \<Rightarrow> (nat \<times> string) option" where
  "leadingInt x [] = Some (x, [])"
| "leadingInt x (c # cs) =
     (if \<not> is_digit c then Some (x, c # cs)
      else if x > 2 ^ 63 div 10 then None
      else let x1 = x * 10 + (of_char c - 48) in if x1 > 2 ^ 63 then None else leadingInt x1 cs)"

fun leadingFraction :: "nat \<Rightarrow> nat \<Rightarrow> bool \<Rightarrow> string \<Rightarrow> nat \<times> nat \<times> string" where
  "leadingFraction x scale over [] = (x, scale, [])"
| "leadingFraction x scale over (c # cs) =
     (if \<not> is_digit c then (x, scale, c # cs)
      else if over \<or> x > (2 ^ 63 - 1) div 10 then leadingFraction x scale True cs
      else let y = x * 10 + (of_char c - 48) in
           if y > 2 ^ 63 then leadingFraction x scale True cs else leadingFraction y (scale * 10) over cs)"

definition unitMap :: "string \<Rightarrow> nat option" where
  "unitMap u =
     map_of
       [(''ns'', 1), (''us'', 1000), ([char_of (194 :: nat), char_of (181 :: nat), CHR ''s''], 1000),
        ([char_of (206 :: nat), char_of (188 :: nat), CHR ''s''], 1000), (''ms'', 1000000), (''s'', 1000000000),
        (''m'', 60000000000), (''h'', 3600000000000)] u"

definition is_number_char :: "char \<Rightarrow> bool" where
  "is_number_char c \<longleftrightarrow> c = CHR ''.'' \<or> is_digit c"

text \<open>One round of the loop: a number and its unit, and what is left.\<close>

definition duration_part :: "(nat \<Rightarrow> nat \<Rightarrow> nat \<Rightarrow> nat) \<Rightarrow> string \<Rightarrow> (nat \<times> string) option" where
  "duration_part frac s =
     (if s = '''' \<or> \<not> is_number_char (hd s) then None
      else
        (case leadingInt 0 s of
           None \<Rightarrow> None
         | Some (v, s1) \<Rightarrow>
             (let (f, scale, s2, post) =
                    (if s1 \<noteq> '''' \<and> hd s1 = CHR ''.''
                     then (case leadingFraction 0 1 False (tl s1) of (f, scale, s2) \<Rightarrow> (f, scale, s2, length s2 \<noteq> length (tl s1)))
                     else (0, 1, s1, False));
                  u = takeWhile (\<lambda>c. \<not> is_number_char c) s2
              in if length s1 = length s \<and> \<not> post then None
                 else if u = '''' then None
                 else
                   (case unitMap u of
                      None \<Rightarrow> None
                    | Some unit \<Rightarrow>
                        if v > 2 ^ 63 div unit then None
                        else
                          (let v1 = (if f > 0 then (v * unit + frac f scale unit) mod 2 ^ 64 else v * unit) in
                           if f > 0 \<and> v1 > 2 ^ 63 then None else Some (v1, dropWhile (\<lambda>c. \<not> is_number_char c) s2))))))"

lemma leadingInt_length: "leadingInt x s = Some (v, s') \<Longrightarrow> length s' \<le> length s"
  by (induction x s rule: leadingInt.induct) (auto simp: Let_def split: if_splits)

lemma leadingFraction_length: "leadingFraction x scale over s = (f, scale', s') \<Longrightarrow> length s' \<le> length s"
  by (induction x scale over s rule: leadingFraction.induct) (fastforce simp: Let_def split: if_splits)+

lemma duration_part_length:
  assumes "duration_part frac s = Some (v, s')"
  shows "length s' < length s"
proof -
  obtain x s1 where s1: "leadingInt 0 s = Some (x, s1)"
    using assms by (cases "leadingInt 0 s") (auto simp: duration_part_def split: if_splits)
  obtain f scale s3 where s3: "leadingFraction 0 1 False (tl s1) = (f, scale, s3)" by (metis prod_cases3)
  define s2 where "s2 = (if s1 \<noteq> '''' \<and> hd s1 = CHR ''.'' then s3 else s1)"
  have "length s2 \<le> length s"
    using leadingInt_length [OF s1] leadingFraction_length [OF s3] by (auto simp: s2_def)
  moreover have "takeWhile (\<lambda>c. \<not> is_number_char c) s2 \<noteq> []" "s' = dropWhile (\<lambda>c. \<not> is_number_char c) s2"
    using assms s1 s3 by (auto simp: duration_part_def s2_def Let_def case_prod_beta split: if_splits option.splits)
  moreover have "length s2 = length (takeWhile (\<lambda>c. \<not> is_number_char c) s2) + length (dropWhile (\<lambda>c. \<not> is_number_char c) s2)"
    by (metis length_append takeWhile_dropWhile_id)
  ultimately show ?thesis by (simp flip: length_greater_0_conv)
qed

function duration_loop :: "(nat \<Rightarrow> nat \<Rightarrow> nat \<Rightarrow> nat) \<Rightarrow> nat \<Rightarrow> string \<Rightarrow> nat option" where
  "duration_loop frac d s =
     (if s = '''' then Some d
      else
        (case duration_part frac s of
           None \<Rightarrow> None
         | Some (v, s1) \<Rightarrow>
             (let d1 = (d + v) mod 2 ^ 64 in if d1 > 2 ^ 63 then None else duration_loop frac d1 s1)))"
  by pat_completeness auto
termination
  by (relation "measure (\<lambda>(frac, d, s). length s)") (auto dest!: sym [of _ "duration_part _ _"] intro: duration_part_length)

declare duration_loop.simps [simp del]

definition ParseDuration :: "(nat \<Rightarrow> nat \<Rightarrow> nat \<Rightarrow> nat) \<Rightarrow> string \<Rightarrow> int option" where
  "ParseDuration frac s =
     (let neg = (s \<noteq> '''' \<and> hd s = CHR ''-''); s1 = (if s \<noteq> '''' \<and> hd s \<in> {CHR ''-'', CHR ''+''} then tl s else s) in
      if s1 = ''0'' then Some 0
      else if s1 = '''' then None
      else
        (case duration_loop frac 0 s1 of
           None \<Rightarrow> None
         | Some d \<Rightarrow> if neg then Some (- int d) else if d \<ge> 2 ^ 63 then None else Some (int d)))"

section \<open>Flags\<close>

text \<open>\<open>Set\<close> parses the value and stores it; \<open>None\<close> is its error.\<close>

record 'a go_flag =
  gf_Name :: string
  gf_IsBool :: bool
  gf_Set :: "string \<Rightarrow> 'a \<Rightarrow> 'a option"

definition StringVar :: "string \<Rightarrow> (string \<Rightarrow> 'a \<Rightarrow> 'a) \<Rightarrow> 'a go_flag" where
  "StringVar name upd = \<lparr>gf_Name = name, gf_IsBool = False, gf_Set = (\<lambda>v a. Some (upd v a))\<rparr>"

definition BoolVar :: "string \<Rightarrow> (bool \<Rightarrow> 'a \<Rightarrow> 'a) \<Rightarrow> 'a go_flag" where
  "BoolVar name upd = \<lparr>gf_Name = name, gf_IsBool = True, gf_Set = (\<lambda>v a. map_option (\<lambda>b. upd b a) (ParseBool v))\<rparr>"

definition IntVar :: "string \<Rightarrow> (int \<Rightarrow> 'a \<Rightarrow> 'a) \<Rightarrow> 'a go_flag" where
  "IntVar name upd = \<lparr>gf_Name = name, gf_IsBool = False, gf_Set = (\<lambda>v a. map_option (\<lambda>i. upd i a) (ParseInt v))\<rparr>"

definition DurationVar :: "(nat \<Rightarrow> nat \<Rightarrow> nat \<Rightarrow> nat) \<Rightarrow> string \<Rightarrow> (int \<Rightarrow> 'a \<Rightarrow> 'a) \<Rightarrow> 'a go_flag" where
  "DurationVar frac name upd =
     \<lparr>gf_Name = name, gf_IsBool = False, gf_Set = (\<lambda>v a. map_option (\<lambda>i. upd i a) (ParseDuration frac v))\<rparr>"

section \<open>Parsing\<close>

datatype flag_error = FlagSyntax string | FlagUndefined string | FlagNeedsArg string | FlagInvalid string string | FlagHelp

text \<open>The name and the value behind the first equals sign, which is not the first character.\<close>

definition split_flag :: "string \<Rightarrow> string \<times> string option" where
  "split_flag name =
     (let n = takeWhile (\<lambda>c. c \<noteq> CHR ''='') (tl name) in
      (hd name # n, case drop (length n) (tl name) of [] \<Rightarrow> None | _ # v \<Rightarrow> Some v))"

text \<open>One argument: whether a flag was seen, what is left of the arguments, and the fields.\<close>

definition flag_set ::
    "'a go_flag \<Rightarrow> string \<Rightarrow> string list \<Rightarrow> 'a \<Rightarrow> flag_error + bool \<times> string list \<times> 'a" where
  "flag_set fl value args a =
     (case gf_Set fl value a of None \<Rightarrow> Inl (FlagInvalid (gf_Name fl) value) | Some a1 \<Rightarrow> Inr (True, args, a1))"

definition flag_parseOne ::
    "'a go_flag list \<Rightarrow> string list \<Rightarrow> 'a \<Rightarrow> flag_error + bool \<times> string list \<times> 'a" where
  "flag_parseOne flags args a =
     (case args of
        [] \<Rightarrow> Inr (False, [], a)
      | s # rest \<Rightarrow>
          if length s < 2 \<or> hd s \<noteq> CHR ''-'' then Inr (False, args, a)
          else if s = ''--'' then Inr (False, rest, a)
          else
            (let name0 = (if s ! 1 = CHR ''-'' then drop 2 s else drop 1 s) in
             if name0 = '''' \<or> hd name0 \<in> {CHR ''-'', CHR ''=''} then Inl (FlagSyntax s)
             else
               (case split_flag name0 of (name, value) \<Rightarrow>
                 (case find (\<lambda>fl. gf_Name fl = name) flags of
                    None \<Rightarrow> Inl (if name = ''help'' \<or> name = ''h'' then FlagHelp else FlagUndefined name)
                  | Some fl \<Rightarrow>
                      if gf_IsBool fl
                      then flag_set fl (case value of Some v \<Rightarrow> v | None \<Rightarrow> ''true'') rest a
                      else
                        (case (value, rest) of
                           (Some v, _) \<Rightarrow> flag_set fl v rest a
                         | (None, v # rest') \<Rightarrow> flag_set fl v rest' a
                         | (None, []) \<Rightarrow> Inl (FlagNeedsArg name))))))"

lemma flag_set_Inr: "flag_set fl v args a = Inr (b, args', a') \<Longrightarrow> b \<and> args' = args \<and> gf_Set fl v a = Some a'"
  by (simp add: flag_set_def split: option.splits)

lemma flag_parseOne_length: "flag_parseOne flags args a = Inr (True, args', a') \<Longrightarrow> length args' < length args"
  by (auto simp: flag_parseOne_def Let_def dest!: flag_set_Inr split: list.splits if_splits prod.splits option.splits)

function flag_Parse :: "'a go_flag list \<Rightarrow> string list \<Rightarrow> 'a \<Rightarrow> flag_error + string list \<times> 'a" where
  "flag_Parse flags args a =
     (case flag_parseOne flags args a of
        Inl e \<Rightarrow> Inl e
      | Inr (seen, args1, a1) \<Rightarrow> if seen then flag_Parse flags args1 a1 else Inr (args1, a1))"
  by pat_completeness auto
termination
  by (relation "measure (\<lambda>(flags, args, a). length args)") (auto dest!: sym [of _ "flag_parseOne _ _ _"] intro: flag_parseOne_length)

declare flag_Parse.simps [simp del]

section \<open>Numbers are read as they are printed\<close>

definition digits_from :: "nat \<Rightarrow> string \<Rightarrow> nat" where
  "digits_from x s = foldl (\<lambda>n c. 10 * n + (of_char c - 48)) x s"

lemma digits_from_simps [simp]:
  "digits_from x [] = x" "digits_from x (c # cs) = digits_from (10 * x + (of_char c - 48)) cs"
  by (simp_all add: digits_from_def)

lemma digits_from_ge: "x \<le> digits_from x s"
proof (induction s arbitrary: x)
  case (Cons c cs)
  have "x \<le> 10 * x + (of_char c - 48)" by simp
  also have "\<dots> \<le> digits_from (10 * x + (of_char c - 48)) cs" by (rule Cons)
  finally show ?case by simp
qed simp

lemma digits_from_show_nat [simp]: "digits_from 0 (show_nat n) = n"
  using digits_value_show_nat [of n] by (simp add: digits_from_def digits_value_def)

lemma leadingInt_digits:
  assumes "\<forall>c \<in> set ds. is_digit c" "digits_from x ds \<le> 2 ^ 63" "rest = [] \<or> \<not> is_digit (hd rest)"
  shows "leadingInt x (ds @ rest) = Some (digits_from x ds, rest)"
  using assms
proof (induction ds arbitrary: x)
  case Nil
  then show ?case by (cases rest) auto
next
  case (Cons c ds)
  have "10 * x + (of_char c - 48) \<le> digits_from x (c # ds)" using digits_from_ge by simp
  with Cons.prems(2) have "10 * x + (of_char c - 48) \<le> 2 ^ 63" by simp
  moreover from this have "x \<le> 2 ^ 63 div 10" by linarith
  ultimately show ?case using Cons by (simp add: Let_def mult.commute)
qed

lemma uint_digits_decimal:
  assumes "\<forall>c \<in> set ds. is_digit c" "digits_from x ds < 2 ^ 64"
  shows "uint_digits 10 x ds = Some (digits_from x ds)"
  using assms
proof (induction ds arbitrary: x)
  case (Cons c ds)
  have "10 * x + (of_char c - 48) \<le> digits_from x (c # ds)" using digits_from_ge by simp
  with Cons.prems(2) have "10 * x + (of_char c - 48) < 2 ^ 64" by simp
  moreover have "c \<noteq> CHR ''_''" "int_digit c = Some (of_char c - 48)" "of_char c - 48 < (10 :: nat)"
    using Cons.prems(1) by (auto simp: is_digit_def int_digit_def Let_def)
  ultimately show ?case using Cons by (simp add: Let_def mult.commute)
qed simp

lemma ParseUint_show_nat:
  assumes "n < 2 ^ 64"
  shows "ParseUint (show_nat n) = Some n"
proof (cases "n = 0")
  case True
  moreover have "ParseUint (show_nat 0) = Some 0" by code_simp
  ultimately show ?thesis by simp
next
  case False
  then have b: "base_prefix (show_nat n) = (10, show_nat n)" using show_nat_hd [of n] by (simp add: base_prefix_def)
  have d: "\<forall>c \<in> set (show_nat n). is_digit c" using show_nat_digits by blast
  then have "CHR ''_'' \<notin> set (show_nat n)" by (auto simp: is_digit_def)
  with b uint_digits_decimal [OF d, of 0] assms show ?thesis by (simp add: ParseUint_def)
qed

lemma digit_not_sign: "is_digit c \<Longrightarrow> c \<noteq> CHR ''-'' \<and> c \<noteq> CHR ''+''"
  by (auto simp: is_digit_def)

lemma show_nat_not_sign: "hd (show_nat n) \<noteq> CHR ''-''" "hd (show_nat n) \<noteq> CHR ''+''"
  using digit_not_sign [OF show_nat_digits [of "hd (show_nat n)" n]] by simp_all

theorem ParseInt_show_int:
  assumes "- (2 ^ 63) \<le> i" "i < 2 ^ 63"
  shows "ParseInt (show_int i) = Some i"
proof (cases "i < 0")
  case True
  then have "ParseUint (show_nat (nat (- i))) = Some (nat (- i))" using assms by (intro ParseUint_show_nat) simp
  with True assms show ?thesis by (auto simp: ParseInt_def show_int_def Let_def)
next
  case False
  then have "ParseUint (show_nat (nat i)) = Some (nat i)" using assms by (intro ParseUint_show_nat) simp
  with False assms show ?thesis by (auto simp: ParseInt_def show_int_def Let_def show_nat_not_sign)
qed

lemma duration_part_ns:
  assumes "n \<le> 2 ^ 63"
  shows "duration_part frac (show_nat n @ ''ns'') = Some (n, '''')"
proof -
  have d: "\<forall>c \<in> set (show_nat n). is_digit c" using show_nat_digits by blast
  then have hd: "is_number_char (hd (show_nat n @ ''ns''))" by (simp add: is_number_char_def)
  have l: "leadingInt 0 (show_nat n @ ''ns'') = Some (n, ''ns'')"
    using leadingInt_digits [OF d, of 0 "''ns''"] assms by (simp add: is_digit_def)
  have u: "takeWhile (\<lambda>c. \<not> is_number_char c) ''ns'' = ''ns''" "dropWhile (\<lambda>c. \<not> is_number_char c) ''ns'' = ''''"
    by (simp_all add: is_number_char_def is_digit_def)
  show ?thesis
    unfolding duration_part_def l using hd u assms by (simp add: unitMap_def)
qed

theorem ParseDuration_show_int:
  assumes "- (2 ^ 63) \<le> i" "i < 2 ^ 63"
  shows "ParseDuration frac (show_int i @ ''ns'') = Some i"
proof -
  have loop: "duration_loop frac 0 (show_nat n @ ''ns'') = Some n" if "n \<le> 2 ^ 63" for n
    using duration_part_ns [OF that] that
    by (subst duration_loop.simps) (simp, subst duration_loop.simps, simp)
  have ne: "show_nat n @ ''ns'' \<noteq> ''0''" for n by (simp add: append_eq_Cons_conv)
  show ?thesis
  proof (cases "i < 0")
    case True
    with loop [of "nat (- i)"] ne assms show ?thesis by (simp add: ParseDuration_def show_int_def Let_def)
  next
    case False
    with loop [of "nat i"] ne assms show ?thesis by (simp add: ParseDuration_def show_int_def Let_def show_nat_not_sign)
  qed
qed

section \<open>Arguments of the form -name=value\<close>

lemma split_flag_assign:
  assumes "n \<noteq> ''''" "CHR ''='' \<notin> set n"
  shows "split_flag (n @ ''='' @ v) = (n, Some v)"
proof -
  have "takeWhile (\<lambda>c. c \<noteq> CHR ''='') (tl n @ ''='' @ v) = tl n"
    using assms by (subst takeWhile_append2) (auto dest: list.set_sel(2))
  with assms show ?thesis by (simp add: split_flag_def)
qed

text \<open>An argument that sets a known flag is consumed, and sets that flag.\<close>

lemma flag_Parse_assign:
  assumes "find (\<lambda>fl. gf_Name fl = n) flags = Some fl" "gf_Set fl v a = Some a'"
    and "n \<noteq> ''''" "CHR ''='' \<notin> set n" "hd n \<noteq> CHR ''-''"
  shows "flag_Parse flags ((''-'' @ n @ ''='' @ v) # args) a = flag_Parse flags args a'"
proof -
  have "hd n \<noteq> CHR ''=''" using assms(3,4) by (metis list.set_sel(1))
  with assms split_flag_assign [OF assms(3,4), of v]
  have "flag_parseOne flags ((''-'' @ n @ ''='' @ v) # args) a = Inr (True, args, a')"
    by (cases n) (simp_all add: flag_parseOne_def flag_set_def Let_def)
  then show ?thesis by (subst flag_Parse.simps) simp
qed

lemma flag_Parse_end: "flag_Parse flags [] a = Inr ([], a)"
  by (subst flag_Parse.simps) (simp add: flag_parseOne_def)

end
