(* ===== verification/Cli.thy ===== *)
theory Cli
  imports ManagedConsumer Auth Flags
begin

text \<open>
  The command line client of \<^verbatim>\<open>cmd/cli/main.go\<close>: its arguments and their defaults, the
  configurations it makes of them, the payloads it reads or generates, its two loops and \<open>main\<close>.
  Reading and parsing certificates are parameters.
\<close>

record cli_args =
  arg_pulsar :: string
  arg_tlsCert :: string
  arg_tlsKey :: string
  arg_tlsCA :: string
  arg_tlsSkipVerify :: bool
  arg_name :: string
  arg_topic :: string
  arg_producer :: bool
  arg_message :: string
  arg_messageRate :: int
  arg_mode :: string

definition default_args :: cli_args where
  "default_args =
     \<lparr>arg_pulsar = ''localhost:6650'', arg_tlsCert = '''', arg_tlsKey = '''', arg_tlsCA = '''', arg_tlsSkipVerify = False,
      arg_name = ''demo'', arg_topic = ''persistent://sample/standalone/ns1/demo'', arg_producer = False,
      arg_message = ''--'', arg_messageRate = second, arg_mode = ''exclusive''\<rparr>"

text \<open>
  Registering a flag sets its field to the default: the field itself, except for the root certificate,
  whose default is the key.
\<close>

definition cli_register :: "cli_args \<Rightarrow> cli_args" where
  "cli_register args = args\<lparr>arg_tlsCA := arg_tlsKey args\<rparr>"

definition cli_flags :: "(nat \<Rightarrow> nat \<Rightarrow> nat \<Rightarrow> nat) \<Rightarrow> cli_args go_flag list" where
  "cli_flags frac =
     [StringVar ''pulsar'' (\<lambda>v a. a\<lparr>arg_pulsar := v\<rparr>),
      StringVar ''tls-cert'' (\<lambda>v a. a\<lparr>arg_tlsCert := v\<rparr>),
      StringVar ''tls-key'' (\<lambda>v a. a\<lparr>arg_tlsKey := v\<rparr>),
      StringVar ''tls-ca'' (\<lambda>v a. a\<lparr>arg_tlsCA := v\<rparr>),
      BoolVar ''tls-insecure'' (\<lambda>v a. a\<lparr>arg_tlsSkipVerify := v\<rparr>),
      StringVar ''name'' (\<lambda>v a. a\<lparr>arg_name := v\<rparr>),
      StringVar ''topic'' (\<lambda>v a. a\<lparr>arg_topic := v\<rparr>),
      BoolVar ''producer'' (\<lambda>v a. a\<lparr>arg_producer := v\<rparr>),
      StringVar ''message'' (\<lambda>v a. a\<lparr>arg_message := v\<rparr>),
      DurationVar frac ''rate'' (\<lambda>v a. a\<lparr>arg_messageRate := v\<rparr>),
      StringVar ''sub-mode'' (\<lambda>v a. a\<lparr>arg_mode := v\<rparr>)]"

definition toManageSubMode :: "string \<Rightarrow> SubscriptionMode" where
  "toManageSubMode mode =
     (if mode = ''shared'' then SubscriptionModeShard
      else if mode = ''exclusive'' then SubscriptionModeExclusive
      else if mode = ''failover'' then SubscriptionModeFailover
      else SubscriptionModeExclusive)"

definition cli_uses_tls :: "cli_args \<Rightarrow> bool" where
  "cli_uses_tls args \<longleftrightarrow> arg_tlsCert args \<noteq> '''' \<and> arg_tlsKey args \<noteq> ''''"

text \<open>
  The TLS configuration: \<open>Inl\<close> is the message with which the program exits, \<open>Inr\<close> the configuration
  and the line it prints. A key pair has its certificates in order, and \<open>mk\<close> makes the configuration.
\<close>

definition cli_tls ::
    "(string \<Rightarrow> string \<Rightarrow> go_error + bytes list) \<Rightarrow> (string \<Rightarrow> go_error + bytes) \<Rightarrow> (bytes \<Rightarrow> go_error + string) \<Rightarrow>
     (bool \<Rightarrow> bytes list \<Rightarrow> bytes option \<Rightarrow> tls_config) \<Rightarrow> cli_args \<Rightarrow> string + tls_config option \<times> string option" where
  "cli_tls LoadX509KeyPair ReadFile CommonName mk args =
     (if \<not> cli_uses_tls args then Inr (None, None)
      else
        (case LoadX509KeyPair (arg_tlsCert args) (arg_tlsKey args) of
           Inl err \<Rightarrow> Inl ''error loading certificates:''
         | Inr cert \<Rightarrow>
             (case (if arg_tlsCA args \<noteq> ''''
                    then (case ReadFile (arg_tlsCA args) of Inl err \<Rightarrow> Inl err | Inr rootCA \<Rightarrow> Inr (Some rootCA))
                    else Inr None) of
                Inl err \<Rightarrow> Inl ''error loading certificate authority:''
              | Inr rootCA \<Rightarrow>
                  (let tlsCfg = mk (arg_tlsSkipVerify args) cert rootCA in
                   case cert of
                     [] \<Rightarrow> Inl ''panic: index out of range''
                   | c # _ \<Rightarrow>
                       if length c > 0
                       then (case CommonName c of
                               Inl err \<Rightarrow> Inl ''error loading public certificate:''
                             | Inr name \<Rightarrow> Inr (Some tlsCfg, Some name))
                       else Inr (Some tlsCfg, None)))))"

definition cli_client_config :: "tls_config option \<Rightarrow> AsyncErrors \<Rightarrow> cli_args \<Rightarrow> ClientConfig" where
  "cli_client_config tlsCfg asyncErrs args =
     \<lparr>cfg_Addr = arg_pulsar args, cfg_phyAddr = '''', cfg_DialTimeout = 0, cfg_TLSConfig = tlsCfg, cfg_Errs = asyncErrs,
      cfg_PingFrequency = 0, cfg_PingTimeout = 0, cfg_ConnectTimeout = 0, cfg_InitialReconnectDelay = 0,
      cfg_MaxReconnectDelay = 0, cfg_AuthMethod = '''', cfg_AuthData = None\<rparr>"

definition cli_producer_config :: "tls_config option \<Rightarrow> AsyncErrors \<Rightarrow> cli_args \<Rightarrow> ProducerConfig" where
  "cli_producer_config tlsCfg asyncErrs args =
     \<lparr>pcfg_ClientConfig = cli_client_config tlsCfg asyncErrs args, pcfg_Topic = arg_topic args, pcfg_Name = arg_name args,
      pcfg_NewProducerTimeout = second, pcfg_InitialReconnectDelay = second, pcfg_MaxReconnectDelay = minute\<rparr>"

definition cli_consumer_config :: "tls_config option \<Rightarrow> AsyncErrors \<Rightarrow> cli_args \<Rightarrow> ConsumerConfig" where
  "cli_consumer_config tlsCfg asyncErrs args =
     \<lparr>ccfg_ClientConfig = cli_client_config tlsCfg asyncErrs args, ccfg_Topic = arg_topic args, ccfg_Name = arg_name args,
      ccfg_SubMode = toManageSubMode (arg_mode args), ccfg_Earliest = False, ccfg_QueueSize = 0,
      ccfg_NewConsumerTimeout = second, ccfg_InitialReconnectDelay = second, ccfg_MaxReconnectDelay = minute\<rparr>"

text \<open>The \<open>i\<close>-th generated message: the number with at least three digits, and the text.\<close>

definition cli_generated :: "cli_args \<Rightarrow> nat \<Rightarrow> string" where
  "cli_generated args i =
     (let d = show_nat i in replicate (3 - length d) (CHR ''0'') @ d @ '' '' @ arg_message args)"

text \<open>
  The payloads read from standard input: its lines, without line ends, as Go's \<^verbatim>\<open>bufio.Scanner\<close> finds
  them. A line that does not fit into the scanner's buffer of 64 KiB ends the scan.
\<close>

definition drop_cr :: "bytes \<Rightarrow> bytes" where
  "drop_cr l = (if l \<noteq> [] \<and> last l = 13 then butlast l else l)"

function scan_lines :: "bytes \<Rightarrow> bytes list" where
  "scan_lines data =
     (if data = [] then []
      else
        (let line = takeWhile (\<lambda>b. b \<noteq> 10) data; rest = dropWhile (\<lambda>b. b \<noteq> 10) data in
         if length line \<ge> 65536 then []
         else drop_cr line # (case rest of [] \<Rightarrow> [] | _ # rest' \<Rightarrow> scan_lines rest')))"
  by pat_completeness auto
termination
  by (relation "measure length")
    (auto dest!: arg_cong [where f = length] simp: Let_def Suc_le_eq [symmetric] length_dropWhile_le)

declare scan_lines.simps [simp del]

text \<open>
  The channel of payloads: its \<open>i\<close>-th one, counted from 0, or \<open>None\<close> where the channel is closed, at the end
  of the standard input. The ticker of the generated ones does not end.
\<close>

definition cli_messages :: "cli_args \<Rightarrow> bytes \<Rightarrow> nat \<Rightarrow> bytes option" where
  "cli_messages args stdin i =
     (if arg_message args = ''--''
      then (let lines = scan_lines stdin in if i < length lines then Some (lines ! i) else None)
      else Some (string_bytes (cli_generated args (i + 1))))"

section \<open>Producing\<close>

text \<open>
  What happens beside and in the loop: a signal cancels the context, once; the loop's \<open>select\<close> gets what the
  channel of payloads has next, with the interleaving of its sending, or the cancelled context. The
  errors the loop prints are the result; \<open>False\<close> says that it has not returned.
\<close>

datatype cli_produce_event =
    PrMessage i64 "(mp_world \<Rightarrow> mp_world \<times> acq_wake) list" "Conn Client \<Rightarrow> Conn Client \<times> send_wake"
  | PrSignal
  | PrDone

fun cli_produce ::
    "proto \<Rightarrow> (nat \<Rightarrow> bytes option) \<Rightarrow> nat \<Rightarrow> bool \<Rightarrow> cli_produce_event list \<Rightarrow> mp_world \<Rightarrow>
     bool \<times> go_error list \<times> mp_world" where
  "cli_produce pc messages i ctxDone [] s = (False, [], s)"
| "cli_produce pc messages i ctxDone (PrSignal # evs) s = cli_produce pc messages i True evs s"
| "cli_produce pc messages i ctxDone (PrDone # evs) s =
     (if ctxDone then (True, [], s) else cli_produce pc messages i ctxDone evs s)"
| "cli_produce pc messages i ctxDone (PrMessage unixTime envs env # evs) s =
     (case messages i of
        None \<Rightarrow> (True, [], s)
      | Some payload \<Rightarrow>
          (case ManagedProducer_Send pc unixTime envs env payload s of
             (None, s1) \<Rightarrow> (False, [], s1)
           | (Some (Inl err), s1) \<Rightarrow>
               (case cli_produce pc messages (i + 1) ctxDone evs s1 of (b, errs, s2) \<Rightarrow> (b, err # errs, s2))
           | (Some (Inr _), s1) \<Rightarrow> cli_produce pc messages (i + 1) ctxDone evs s1))"

section \<open>Consuming\<close>

datatype cli_consume_event =
    CoMsg Message "(mcs_world \<Rightarrow> mcs_world \<times> acq_wake) list"
  | CoSignal
  | CoDone

text \<open>The payloads printed and the errors of the acknowledgements.\<close>

fun cli_consume ::
    "proto \<Rightarrow> bool \<Rightarrow> cli_consume_event list \<Rightarrow> mcs_world \<Rightarrow> bool \<times> bytes list \<times> go_error list \<times> mcs_world" where
  "cli_consume pc ctxDone [] s = (False, [], [], s)"
| "cli_consume pc ctxDone (CoSignal # evs) s = cli_consume pc True evs s"
| "cli_consume pc ctxDone (CoDone # evs) s = (if ctxDone then (True, [], [], s) else cli_consume pc ctxDone evs s)"
| "cli_consume pc ctxDone (CoMsg msg envs # evs) s =
     (case ManagedConsumer_Ack pc envs msg s of
        (None, s1) \<Rightarrow> (False, [Message_Payload msg], [], s1)
      | (Some e, s1) \<Rightarrow>
          (case cli_consume pc ctxDone evs s1 of
             (b, ps, errs, s2) \<Rightarrow> (b, Message_Payload msg # ps, (case e of None \<Rightarrow> [] | Some err \<Rightarrow> [err]) @ errs, s2)))"

section \<open>main\<close>

datatype cli_result =
    CliUsage flag_error
  | CliExit string
  | CliProduced "bool \<times> go_error list \<times> mp_world"
  | CliConsumed "bool \<times> bytes list \<times> go_error list \<times> mcs_world"

text \<open>
  The managing goroutines of the producer or consumer run beside the loops, in the environments of the
  events. A ticker needs a positive period, or it panics.
\<close>

definition cli_start ::
    "proto \<Rightarrow> (string \<Rightarrow> string \<Rightarrow> go_error + bytes list) \<Rightarrow> (string \<Rightarrow> go_error + bytes) \<Rightarrow> (bytes \<Rightarrow> go_error + string) \<Rightarrow>
     (bool \<Rightarrow> bytes list \<Rightarrow> bytes option \<Rightarrow> tls_config) \<Rightarrow> bytes \<Rightarrow> cli_args \<Rightarrow> cli_produce_event list \<Rightarrow>
     cli_consume_event list \<Rightarrow> cli_result" where
  "cli_start pc LoadX509KeyPair ReadFile CommonName mk stdin args pevs cevs =
     (case cli_tls LoadX509KeyPair ReadFile CommonName mk args of
        Inl msg \<Rightarrow> CliExit msg
      | Inr (tlsCfg, _) \<Rightarrow>
          (let asyncErrs = Some (make_chan 8); mcp = NewClientPool in
           if arg_producer args
           then (if arg_message args \<noteq> ''--'' \<and> arg_messageRate args \<le> 0
                 then CliExit ''panic: non-positive interval for NewTicker''
                 else CliProduced (cli_produce pc (cli_messages args stdin) 0 False pevs
                        (NewManagedProducer (cli_producer_config tlsCfg asyncErrs args), mcp)))
           else CliConsumed (cli_consume pc False cevs (NewManagedConsumer (cli_consumer_config tlsCfg asyncErrs args) mcp))))"

text \<open>The program from its command line; arguments behind the flags are ignored.\<close>

definition cli_main ::
    "proto \<Rightarrow> (nat \<Rightarrow> nat \<Rightarrow> nat \<Rightarrow> nat) \<Rightarrow> (string \<Rightarrow> string \<Rightarrow> go_error + bytes list) \<Rightarrow> (string \<Rightarrow> go_error + bytes) \<Rightarrow>
     (bytes \<Rightarrow> go_error + string) \<Rightarrow> (bool \<Rightarrow> bytes list \<Rightarrow> bytes option \<Rightarrow> tls_config) \<Rightarrow> bytes \<Rightarrow> string list \<Rightarrow>
     cli_produce_event list \<Rightarrow> cli_consume_event list \<Rightarrow> cli_result" where
  "cli_main pc frac LoadX509KeyPair ReadFile CommonName mk stdin osArgs pevs cevs =
     (case flag_Parse (cli_flags frac) osArgs (cli_register default_args) of
        Inl e \<Rightarrow> CliUsage e
      | Inr (_, args) \<Rightarrow> cli_start pc LoadX509KeyPair ReadFile CommonName mk stdin args pevs cevs)"

section \<open>Lemmas\<close>

lemma toManageSubMode_valid:
  "toManageSubMode mode \<in> {SubscriptionModeExclusive, SubscriptionModeShard, SubscriptionModeFailover}"
  by (simp add: toManageSubMode_def)

text \<open>
  Reading from standard input the producer returns once it has tried to send every line, with at most
  one error for each of them, when no \<open>Send\<close> waits for ever; each \<open>Send\<close> has a timeout of a second.
\<close>

lemma cli_produce_returns:
  assumes "\<And>ut envs env payload s. PrMessage ut envs env \<in> set evs \<Longrightarrow>
      fst (ManagedProducer_Send pc ut envs env payload s) \<noteq> None"
    and "arg_message args = ''--''" "\<forall>ev \<in> set evs. \<exists>ut envs env. ev = PrMessage ut envs env" "length (scan_lines stdin) < i + length evs" "i \<le> length (scan_lines stdin)"
  shows "\<exists>errs s'. cli_produce pc (cli_messages args stdin) i ctxDone evs s = (True, errs, s') \<and> length errs \<le> length (scan_lines stdin) - i"
  using assms
proof (induction evs arbitrary: i s)
  case (Cons ev evs)
  from Cons.prems(3) obtain ut envs env where ev: "ev = PrMessage ut envs env" by auto
  show ?case
  proof (cases "i < length (scan_lines stdin)")
    case True
    obtain r s1 where send: "ManagedProducer_Send pc ut envs env (scan_lines stdin ! i) s = (Some r, s1)"
      using Cons.prems(1) [of ut envs env "scan_lines stdin ! i" s] ev
      by (cases "ManagedProducer_Send pc ut envs env (scan_lines stdin ! i) s") auto
    obtain errs s' where "cli_produce pc (cli_messages args stdin) (i + 1) ctxDone evs s1 = (True, errs, s')"
      "length errs \<le> length (scan_lines stdin) - (i + 1)"
      using Cons.IH [of "i + 1" s1] Cons.prems True by auto
    moreover have "cli_messages args stdin i = Some (scan_lines stdin ! i)"
      using True Cons.prems(2) by (simp add: cli_messages_def)
    ultimately show ?thesis using send ev True by (cases r) (auto intro!: exI)
  qed (use ev Cons.prems(2) in \<open>simp add: cli_messages_def Let_def\<close>)
qed simp

text \<open>What is printed are the payloads of the messages received, in order.\<close>

lemma cli_consume_prints:
  assumes "cli_consume pc ctxDone evs s = (b, ps, errs, s')"
  shows "\<exists>n. ps = take n (concat (map (\<lambda>ev. case ev of CoMsg msg _ \<Rightarrow> [Message_Payload msg] | _ \<Rightarrow> []) evs))"
  using assms
proof (induction pc ctxDone evs s arbitrary: b ps errs s' rule: cli_consume.induct)
  case (4 pc ctxDone msg envs evs s)
  obtain r s1 where ack: "ManagedConsumer_Ack pc envs msg s = (r, s1)" by (metis prod.collapse)
  show ?case
  proof (cases r)
    case None
    with 4(2) ack show ?thesis by (intro exI [of _ 1]) auto
  next
    case (Some e)
    obtain b1 ps1 errs1 s2 where rest: "cli_consume pc ctxDone evs s1 = (b1, ps1, errs1, s2)" by (metis prod_cases4)
    from 4(1) [OF ack [symmetric] _ rest] Some obtain n where
      "ps1 = take n (concat (map (\<lambda>ev. case ev of CoMsg msg _ \<Rightarrow> [Message_Payload msg] | _ \<Rightarrow> []) evs))" by blast
    with 4(2) ack Some rest show ?thesis by (intro exI [of _ "Suc n"]) simp
  qed
qed (auto split: if_splits)

text \<open>A signal ends both programs, as soon as their loop sees the cancelled context.\<close>

lemma cli_consume_signal: "\<exists>r. cli_consume pc ctxDone (CoSignal # CoDone # evs) s = (True, r)"
  by simp

text \<open>A line that is too long ends the input without an error: the program returns as at the end of the input.\<close>

lemma long_line_ends: "65536 \<le> length (takeWhile (\<lambda>b. b \<noteq> 10) data) \<Longrightarrow> scan_lines data = []"
  by (subst scan_lines.simps) (simp add: Let_def)

text \<open>Lines without line ends and carriage returns survive: printing them one per line and scanning is a round trip.\<close>

lemma scan_lines_print:
  assumes "\<forall>l \<in> set ls. 10 \<notin> set l \<and> (l = [] \<or> last l \<noteq> 13) \<and> length l < 65536"
  shows "scan_lines (concat (map (\<lambda>l. l @ [10]) ls)) = ls"
  using assms
proof (induction ls)
  case Nil
  then show ?case by (subst scan_lines.simps) simp
next
  case (Cons l ls)
  then have l: "takeWhile (\<lambda>b. b \<noteq> 10) (l @ 10 # xs) = l" "dropWhile (\<lambda>b. b \<noteq> 10) (l @ 10 # xs) = 10 # xs" for xs
    by (auto simp: takeWhile_append dropWhile_append)
  with Cons show ?case
    by (subst scan_lines.simps) (auto simp: Let_def drop_cr_def)
qed

section \<open>The command line\<close>

text \<open>The arguments as a command line, one flag each.\<close>

definition cli_command_line :: "cli_args \<Rightarrow> string list" where
  "cli_command_line a =
     [''-pulsar='' @ arg_pulsar a, ''-tls-cert='' @ arg_tlsCert a, ''-tls-key='' @ arg_tlsKey a, ''-tls-ca='' @ arg_tlsCA a,
      ''-tls-insecure='' @ (if arg_tlsSkipVerify a then ''true'' else ''false''), ''-name='' @ arg_name a,
      ''-topic='' @ arg_topic a, ''-producer='' @ (if arg_producer a then ''true'' else ''false''),
      ''-message='' @ arg_message a, ''-rate='' @ show_int (arg_messageRate a) @ ''ns'', ''-sub-mode='' @ arg_mode a]"

lemma cli_register_default [simp]: "cli_register default_args = default_args"
  by (simp add: cli_register_def default_args_def)

lemma cli_flag_steps:
  "flag_Parse (cli_flags frac) ((''-pulsar='' @ v) # args) b = flag_Parse (cli_flags frac) args (b\<lparr>arg_pulsar := v\<rparr>)"
  "flag_Parse (cli_flags frac) ((''-tls-cert='' @ v) # args) b = flag_Parse (cli_flags frac) args (b\<lparr>arg_tlsCert := v\<rparr>)"
  "flag_Parse (cli_flags frac) ((''-tls-key='' @ v) # args) b = flag_Parse (cli_flags frac) args (b\<lparr>arg_tlsKey := v\<rparr>)"
  "flag_Parse (cli_flags frac) ((''-tls-ca='' @ v) # args) b = flag_Parse (cli_flags frac) args (b\<lparr>arg_tlsCA := v\<rparr>)"
  "flag_Parse (cli_flags frac) ((''-name='' @ v) # args) b = flag_Parse (cli_flags frac) args (b\<lparr>arg_name := v\<rparr>)"
  "flag_Parse (cli_flags frac) ((''-topic='' @ v) # args) b = flag_Parse (cli_flags frac) args (b\<lparr>arg_topic := v\<rparr>)"
  "flag_Parse (cli_flags frac) ((''-message='' @ v) # args) b = flag_Parse (cli_flags frac) args (b\<lparr>arg_message := v\<rparr>)"
  "flag_Parse (cli_flags frac) ((''-sub-mode='' @ v) # args) b = flag_Parse (cli_flags frac) args (b\<lparr>arg_mode := v\<rparr>)"
  "flag_Parse (cli_flags frac) ((''-tls-insecure='' @ (if t then ''true'' else ''false'')) # args) b =
   flag_Parse (cli_flags frac) args (b\<lparr>arg_tlsSkipVerify := t\<rparr>)"
  "flag_Parse (cli_flags frac) ((''-producer='' @ (if t then ''true'' else ''false'')) # args) b =
   flag_Parse (cli_flags frac) args (b\<lparr>arg_producer := t\<rparr>)"
  by (subst flag_Parse.simps, simp add: flag_parseOne_def split_flag_def flag_set_def cli_flags_def StringVar_def BoolVar_def
        DurationVar_def ParseBool_def)+

lemma cli_flag_rate:
  assumes "- (2 ^ 63) \<le> i" "i < 2 ^ 63"
  shows "flag_Parse (cli_flags frac) ((''-rate='' @ show_int i @ ''ns'') # args) b =
    flag_Parse (cli_flags frac) args (b\<lparr>arg_messageRate := i\<rparr>)"
  using ParseDuration_show_int [OF assms]
  by (subst flag_Parse.simps) (simp add: flag_parseOne_def split_flag_def flag_set_def cli_flags_def StringVar_def BoolVar_def
        DurationVar_def)

text \<open>
  C40. Every value of the arguments can be given on the command line, and parsing it gives that value back,
  whatever the fields were before.
\<close>

theorem cli_flags_roundtrip:
  assumes "- (2 ^ 63) \<le> arg_messageRate a" "arg_messageRate a < 2 ^ 63"
  shows "flag_Parse (cli_flags frac) (cli_command_line a) b = Inr ([], a)"
  unfolding cli_command_line_def cli_flag_steps cli_flag_rate [OF assms] flag_Parse_end by simp

theorem cli_flags_roundtrip_witness:
  "flag_Parse (cli_flags (\<lambda>_ _ _. 0)) (cli_command_line (default_args\<lparr>arg_messageRate := - 5\<rparr>)) default_args =
   Inr ([], default_args\<lparr>arg_messageRate := - 5\<rparr>)"
  using cli_flags_roundtrip [of "default_args\<lparr>arg_messageRate := - 5\<rparr>"] by simp

lemma cli_no_arguments: "flag_Parse (cli_flags frac) [] (cli_register default_args) = Inr ([], default_args)"
  by (simp add: flag_Parse_end)

end
