(* ===== verification/Fuzz.thy ===== *)
theory Fuzz
  imports Conn
begin

text \<open>
  The fuzzing entry points of \<^verbatim>\<open>core/frame/frame_fuzz.go\<close>. \<open>FuzzReEncode\<close> panics where encoding what
  it has decoded, and decoding and encoding that again, does not give the same bytes.
\<close>

definition Fuzz :: "proto \<Rightarrow> bytes \<Rightarrow> nat" where
  "Fuzz pc bs =
     (case Frame_Decode pc new_Frame \<lparr>rd_data = bs, rd_err = EOF\<rparr> of
        (Some _, _, _) \<Rightarrow> 0
      | (None, _, _) \<Rightarrow> 1)"

definition FuzzReEncode :: "proto \<Rightarrow> bytes \<Rightarrow> go_error + nat" where
  "FuzzReEncode pc bs =
     (case Frame_Decode pc new_Frame \<lparr>rd_data = bs, rd_err = EOF\<rparr> of
        (Some _, _, _) \<Rightarrow> Inr 0
      | (None, original, _) \<Rightarrow>
          (case Frame_Encode pc original new_buffer of
             (Some _, _) \<Rightarrow> Inl (ErrPanic ''encode'')
           | (None, b) \<Rightarrow>
               (let originalEnc = wr_out b in
                case Frame_Decode pc new_Frame \<lparr>rd_data = originalEnc, rd_err = EOF\<rparr> of
                  (Some _, _, _) \<Rightarrow> Inl (ErrPanic ''decode'')
                | (None, reencoded, _) \<Rightarrow>
                    (case Frame_Encode pc reencoded new_buffer of
                       (Some _, _) \<Rightarrow> Inl (ErrPanic ''encode'')
                     | (None, b2) \<Rightarrow>
                         if originalEnc \<noteq> wr_out b2 then Inl (ErrPanic ''mismatch'') else Inr 1))))"

section \<open>Properties\<close>

text \<open>
  C38. Re-encoding is stable: for every input on which \<open>Fuzz\<close> rejects, \<open>FuzzReEncode\<close> returns 0; and
  where the decoded frame can be encoded and its messages survive the codec, \<open>FuzzReEncode\<close> does not
  panic and returns 1.
\<close>

theorem fuzz_reencode_stable:
  assumes "\<And>f r. Frame_Decode pc new_Frame \<lparr>rd_data = bs, rd_err = EOF\<rparr> = (None, f, r) \<Longrightarrow> encodable pc f"
  shows "FuzzReEncode pc bs = Inr (Fuzz pc bs)"
proof (cases "Frame_Decode pc new_Frame \<lparr>rd_data = bs, rd_err = EOF\<rparr>")
  case (fields e f r)
  show ?thesis
  proof (cases e)
    case None
    with assms fields have enc: "encodable pc f" by simp
    then obtain w where w: "Frame_Encode pc f new_buffer = (None, w)" by (metis encodable_def prod.collapse)
    have "Frame_Decode pc new_Frame \<lparr>rd_data = wr_out w, rd_err = EOF\<rparr> = (None, f, \<lparr>rd_data = [], rd_err = EOF\<rparr>)"
      using encodable_decode [OF enc, of "[]" EOF] w by (simp add: frame_wire_def)
    with None fields w show ?thesis by (simp add: FuzzReEncode_def Fuzz_def)
  qed (use fields in \<open>simp add: FuzzReEncode_def Fuzz_def\<close>)
qed

theorem fuzz_reencode_stable_witness:
  "FuzzReEncode demo_proto (frame_wire demo_proto (demo_frame [1, 2, 3])) = Inr 1"
proof -
  have enc: "encodable demo_proto (demo_frame [1, 2, 3])"
    using arg_cong [OF demo_frame_encodes [of "[1, 2, 3]"], of fst] by (simp add: encodable_def frame_valid_def)
  from encodable_decode [OF enc, of "[]" EOF]
  have dec: "Frame_Decode demo_proto new_Frame \<lparr>rd_data = frame_wire demo_proto (demo_frame [1, 2, 3]), rd_err = EOF\<rparr> =
      (None, demo_frame [1, 2, 3], \<lparr>rd_data = [], rd_err = EOF\<rparr>)" by simp
  from fuzz_reencode_stable [of demo_proto "frame_wire demo_proto (demo_frame [1, 2, 3])"] enc dec
  show ?thesis by (simp add: Fuzz_def)
qed

end
