(* ===== verification/Corpus.thy ===== *)
theory Corpus
  imports Fuzz Flags
begin

text \<open>
  The generator of the fuzzing corpus, \<^verbatim>\<open>pkg/fuzz/corpus-gen/main.go\<close>: it captures TCP packets and
  writes those that start with a frame to files. Capturing is the packet library's part: a packet is
  the payload of its TCP layer, if it has one, and its time. The file system is a state on which
  \<open>WriteFile\<close> is a parameter.
\<close>

section \<open>Paths\<close>

text \<open>
  Go's \<^verbatim>\<open>path.Clean\<close> and \<^verbatim>\<open>path.Join\<close>: the elements between slashes, without empty ones and dots,
  where two dots take back the element before them.
\<close>

fun split_path :: "string \<Rightarrow> string \<Rightarrow> string list" where
  "split_path acc [] = [rev acc]"
| "split_path acc (c # cs) = (if c = CHR ''/'' then rev acc # split_path [] cs else split_path (c # acc) cs)"

definition clean_elem :: "bool \<Rightarrow> string \<Rightarrow> string list \<Rightarrow> string list" where
  "clean_elem rooted e out =
     (if e = '''' \<or> e = ''.'' then out
      else if e = ''..''
      then (case out of
              [] \<Rightarrow> if rooted then [] else [e]
            | x # xs \<Rightarrow> if x = ''..'' then e # out else xs)
      else e # out)"

fun join_path :: "string list \<Rightarrow> string" where
  "join_path [] = ''''"
| "join_path [e] = e"
| "join_path (e # es) = e @ ''/'' @ join_path es"

definition path_Clean :: "string \<Rightarrow> string" where
  "path_Clean p =
     (if p = '''' then ''.''
      else
        (let rooted = (hd p = CHR ''/'');
             out = (if rooted then ''/'' else '''') @ join_path (rev (fold (clean_elem rooted) (split_path [] p) []))
         in if out = '''' then ''.'' else out))"

definition path_Join :: "string \<Rightarrow> string \<Rightarrow> string" where
  "path_Join dir file =
     (if dir = '''' then (if file = '''' then '''' else path_Clean file)
      else path_Clean (if file = '''' then dir else dir @ ''/'' @ file))"

section \<open>Packets\<close>

record captured_packet =
  pk_TCP :: "bytes option"
  pk_UnixNano :: int

text \<open>What becomes of a packet: nothing, an error and the data on the standard error, or a file.\<close>

datatype corpus_act = Skipped | Reported go_error bytes | Captured string BaseCommand_Type bytes

definition handlePacket ::
    "proto \<Rightarrow> (string \<Rightarrow> bytes \<Rightarrow> 'fs \<Rightarrow> go_error option \<times> 'fs) \<Rightarrow> string \<Rightarrow> captured_packet \<Rightarrow> 'fs \<Rightarrow>
     (go_error + corpus_act) \<times> 'fs" where
  "handlePacket pc WriteFile outputDir pkt fs =
     (case pk_TCP pkt of
        None \<Rightarrow> (Inl (ErrPanic ''nil pointer dereference''), fs)
      | Some data \<Rightarrow>
          if length data = 0 then (Inr Skipped, fs)
          else
            (case Frame_Decode pc new_Frame \<lparr>rd_data = data, rd_err = EOF\<rparr> of
               (Some err, _, _) \<Rightarrow> (Inr (Reported err data), fs)
             | (None, f, _) \<Rightarrow>
                 (let t = BaseCommand_GetType (Frame_BaseCmd f);
                      p = path_Join outputDir (show_int (pk_UnixNano pkt) @ ''-'' @ BaseCommand_Type_String t)
                  in case WriteFile p data fs of
                       (Some err, fs1) \<Rightarrow> (Inl (ErrPanic ''write''), fs1)
                     | (None, fs1) \<Rightarrow> (Inr (Captured p t data), fs1))))"

text \<open>The loop over the packets; a panic ends the program.\<close>

fun corpus_loop ::
    "proto \<Rightarrow> (string \<Rightarrow> bytes \<Rightarrow> 'fs \<Rightarrow> go_error option \<times> 'fs) \<Rightarrow> string \<Rightarrow> captured_packet list \<Rightarrow> 'fs \<Rightarrow>
     go_error option \<times> corpus_act list \<times> 'fs" where
  "corpus_loop pc WriteFile dir [] fs = (None, [], fs)"
| "corpus_loop pc WriteFile dir (pkt # pkts) fs =
     (case handlePacket pc WriteFile dir pkt fs of
        (Inl p, fs1) \<Rightarrow> (Some p, [], fs1)
      | (Inr a, fs1) \<Rightarrow> (case corpus_loop pc WriteFile dir pkts fs1 of (e, as, fs2) \<Rightarrow> (e, a # as, fs2)))"

section \<open>main\<close>

record corpus_args =
  ca_device :: string
  ca_port :: int
  ca_dir :: string

definition corpus_defaults :: corpus_args where
  "corpus_defaults = \<lparr>ca_device = ''lo0'', ca_port = 6650, ca_dir = ''corpus''\<rparr>"

text \<open>
  The capture library opens a device, with the size of a snapshot and promiscuous mode, takes a filter, and
  then gives the packets. The result is the panic the program ends with.
\<close>

definition corpus_start ::
    "proto \<Rightarrow> (string \<Rightarrow> nat \<Rightarrow> bool \<Rightarrow> go_error + 'dev) \<Rightarrow> (string \<Rightarrow> 'dev \<Rightarrow> go_error + 'dev) \<Rightarrow> ('dev \<Rightarrow> captured_packet list) \<Rightarrow>
     (string \<Rightarrow> bytes \<Rightarrow> 'fs \<Rightarrow> go_error option \<times> 'fs) \<Rightarrow> corpus_args \<Rightarrow> 'fs \<Rightarrow> go_error option \<times> corpus_act list \<times> 'fs" where
  "corpus_start pc OpenLive SetBPFFilter Packets WriteFile args fs =
     (case OpenLive (ca_device args) 1600 True of
        Inl err \<Rightarrow> (Some (ErrPanic ''open''), [], fs)
      | Inr handle \<Rightarrow>
          (case SetBPFFilter (''tcp and port '' @ show_int (ca_port args)) handle of
             Inl err \<Rightarrow> (Some (ErrPanic ''filter''), [], fs)
           | Inr handle1 \<Rightarrow> corpus_loop pc WriteFile (ca_dir args) (Packets handle1) fs))"

definition corpus_flags :: "corpus_args go_flag list" where
  "corpus_flags =
     [StringVar ''device'' (\<lambda>v a. a\<lparr>ca_device := v\<rparr>), IntVar ''port'' (\<lambda>v a. a\<lparr>ca_port := v\<rparr>),
      StringVar ''dir'' (\<lambda>v a. a\<lparr>ca_dir := v\<rparr>)]"

definition corpus_main ::
    "proto \<Rightarrow> (string \<Rightarrow> nat \<Rightarrow> bool \<Rightarrow> go_error + 'dev) \<Rightarrow> (string \<Rightarrow> 'dev \<Rightarrow> go_error + 'dev) \<Rightarrow> ('dev \<Rightarrow> captured_packet list) \<Rightarrow>
     (string \<Rightarrow> bytes \<Rightarrow> 'fs \<Rightarrow> go_error option \<times> 'fs) \<Rightarrow> string list \<Rightarrow> 'fs \<Rightarrow>
     flag_error + go_error option \<times> corpus_act list \<times> 'fs" where
  "corpus_main pc OpenLive SetBPFFilter Packets WriteFile osArgs fs =
     (case flag_Parse corpus_flags osArgs corpus_defaults of
        Inl e \<Rightarrow> Inl e
      | Inr (_, args) \<Rightarrow> Inr (corpus_start pc OpenLive SetBPFFilter Packets WriteFile args fs))"

section \<open>Lemmas\<close>

text \<open>Cleaning gives a path without empty elements, single dots or dots behind a name.\<close>

definition cleaned :: "bool \<Rightarrow> string list \<Rightarrow> bool" where
  "cleaned rooted out \<longleftrightarrow>
     (\<exists>names ups. out = names @ replicate ups ''..'' \<and> (rooted \<longrightarrow> ups = 0) \<and>
        (\<forall>e \<in> set names. e \<notin> {'''', ''.'', ''..''}))"

lemma clean_elem_cleaned:
  assumes "cleaned rooted out"
  shows "cleaned rooted (clean_elem rooted e out)"
proof -
  from assms obtain names ups where out: "out = names @ replicate ups ''..''" "rooted \<longrightarrow> ups = 0"
    "\<forall>e \<in> set names. e \<notin> {'''', ''.'', ''..''}" unfolding cleaned_def by blast
  show ?thesis
  proof (cases "e \<in> {'''', ''.'', ''..''}")
    case False
    with out show ?thesis unfolding cleaned_def clean_elem_def
      by (intro exI [of _ "e # names"] exI [of _ ups]) auto
  next
    case True
    show ?thesis
    proof (cases names)
      case Nil
      with out True show ?thesis unfolding cleaned_def clean_elem_def
        by (intro exI [of _ "[]"] exI [of _ "if e = ''..'' \<and> \<not> rooted then Suc ups else ups"]) (cases ups; auto)
    next
      case (Cons x xs)
      with out True show ?thesis unfolding cleaned_def clean_elem_def
        by (intro exI [of _ "if e = ''..'' then xs else names"] exI [of _ ups]) auto
    qed
  qed
qed

lemma path_Clean_elements: "cleaned rooted (fold (clean_elem rooted) es [])"
proof -
  have "cleaned rooted []" by (auto simp: cleaned_def)
  then have "cleaned rooted (fold (clean_elem rooted) es out)" if "cleaned rooted out" for out
    using that by (induction es arbitrary: out) (simp_all add: clean_elem_cleaned)
  then show ?thesis by (auto simp: cleaned_def)
qed

lemma handlePacket_captured:
  assumes "handlePacket pc WriteFile dir pkt fs = (Inr (Captured p t data), fs')"
  shows "pk_TCP pkt = Some data \<and> data \<noteq> [] \<and> Fuzz pc data = 1 \<and>
    p = path_Join dir (show_int (pk_UnixNano pkt) @ ''-'' @ BaseCommand_Type_String t) \<and>
    WriteFile p data fs = (None, fs')"
  using assms by (auto simp: handlePacket_def Fuzz_def Let_def split: option.splits prod.splits if_splits)

text \<open>
  Every file of the corpus is an input the fuzz function accepts, and the files are those of the
  captured packets, in order.
\<close>

theorem corpus_accepted_by_fuzz:
  assumes "corpus_loop pc WriteFile dir pkts fs = (e, as, fs')" "Captured p t data \<in> set as"
  shows "Fuzz pc data = 1 \<and> (\<exists>pkt \<in> set pkts. pk_TCP pkt = Some data \<and>
    p = path_Join dir (show_int (pk_UnixNano pkt) @ ''-'' @ BaseCommand_Type_String t))"
  using assms
proof (induction pkts arbitrary: fs as)
  case (Cons pkt pkts)
  obtain a fs1 as1 where h: "handlePacket pc WriteFile dir pkt fs = (Inr a, fs1)"
    "corpus_loop pc WriteFile dir pkts fs1 = (e, as1, fs')" "as = a # as1"
    using Cons.prems by (auto split: prod.splits sum.splits)
  show ?case
  proof (cases "a = Captured p t data")
    case True
    with handlePacket_captured h(1) show ?thesis by fastforce
  next
    case False
    with Cons.IH [OF h(2)] Cons.prems(2) h(3) show ?thesis by auto
  qed
qed simp

text \<open>The command line with these arguments is parsed to these arguments.\<close>

lemma corpus_flags_roundtrip:
  assumes "- (2 ^ 63) \<le> ca_port a" "ca_port a < 2 ^ 63"
  shows "flag_Parse corpus_flags [''-device='' @ ca_device a, ''-port='' @ show_int (ca_port a), ''-dir='' @ ca_dir a] b = Inr ([], a)"
proof -
  have "flag_Parse corpus_flags ((''-device='' @ v) # args) b = flag_Parse corpus_flags args (b\<lparr>ca_device := v\<rparr>)"
    "flag_Parse corpus_flags ((''-dir='' @ v) # args) b = flag_Parse corpus_flags args (b\<lparr>ca_dir := v\<rparr>)" for v args b
    by (subst flag_Parse.simps, simp add: flag_parseOne_def split_flag_def flag_set_def corpus_flags_def StringVar_def IntVar_def)+
  moreover have "flag_Parse corpus_flags ((''-port='' @ show_int (ca_port a)) # args) b =
      flag_Parse corpus_flags args (b\<lparr>ca_port := ca_port a\<rparr>)" for args b
    using ParseInt_show_int [OF assms]
    by (subst flag_Parse.simps) (simp add: flag_parseOne_def split_flag_def flag_set_def corpus_flags_def StringVar_def IntVar_def)
  ultimately show ?thesis by (simp only: flag_Parse_end) simp
qed

end
