(* ===== verification/Logging.thy ===== *)
theory Logging
  imports GoIO "HOL-Library.List_Lexorder" "HOL-Library.Char_ord" "HOL-Library.Multiset"
begin

text \<open>
  The logging wrapper of \<^verbatim>\<open>pkg/log/log.go\<close>: levels by name, the hook that finds the line that
  logged, and the format of a line. The call stack, the formatted time and the names of the levels come
  from the Go runtime and from logrus, and are parameters; strings are ASCII.
\<close>

section \<open>Levels\<close>

datatype log_level = FatalLevel | ErrorLevel | WarnLevel | InfoLevel | DebugLevel

definition defaultLogLevel :: log_level where
  "defaultLogLevel = InfoLevel"

definition ToLower :: "string \<Rightarrow> string" where
  "ToLower s = map lower_char s"

definition stringToLogLevel :: "string \<Rightarrow> log_level" where
  "stringToLogLevel level0 =
     (let level = ToLower level0 in
      if level = ''fatal'' then FatalLevel
      else if level = ''error'' then ErrorLevel
      else if level = ''warn'' \<or> level = ''warning'' then WarnLevel
      else if level = ''debug'' then DebugLevel
      else if level = ''info'' then InfoLevel
      else defaultLogLevel)"

section \<open>The hook\<close>

fun Contains :: "string \<Rightarrow> string \<Rightarrow> bool" where
  "Contains [] sub = (sub = [])"
| "Contains (c # cs) sub = (take (length sub) (c # cs) = sub \<or> Contains cs sub)"

definition isSkippedPackageName :: "string \<Rightarrow> bool" where
  "isSkippedPackageName name \<longleftrightarrow>
     Contains name ''github.com/sirupsen/logrus'' \<or> Contains name ''github.com/pingcap/dm/pkg/log''"

text \<open>A function on the call stack: its name and the file and line of the call; at most four are looked at.\<close>

record stack_frame =
  sf_Name :: string
  sf_File :: string
  sf_Line :: nat

definition path_Base :: "string \<Rightarrow> string" where
  "path_Base p =
     (if p = '''' then ''.''
      else (let q = rev (dropWhile (\<lambda>c. c = CHR ''/'') (rev p)) in
            if q = '''' then ''/'' else rev (takeWhile (\<lambda>c. c \<noteq> CHR ''/'') (rev q))))"

record log_entry =
  le_Time :: string
  le_Level :: log_level
  le_Message :: string
  le_Data :: "(string \<times> string) list"

definition data_set :: "string \<Rightarrow> string \<Rightarrow> (string \<times> string) list \<Rightarrow> (string \<times> string) list" where
  "data_set k v d = (k, v) # filter (\<lambda>(k', _). k' \<noteq> k) d"

fun contextHook_loop :: "stack_frame list \<Rightarrow> log_entry \<Rightarrow> log_entry" where
  "contextHook_loop [] entry = entry"
| "contextHook_loop (fu # fus) entry =
     (if isSkippedPackageName (sf_Name fu) then contextHook_loop fus entry
      else entry\<lparr>le_Data := data_set ''line'' (show_nat (sf_Line fu)) (data_set ''file'' (path_Base (sf_File fu)) (le_Data entry))\<rparr>)"

definition contextHook_Fire :: "stack_frame list \<Rightarrow> log_entry \<Rightarrow> log_entry" where
  "contextHook_Fire callers entry = contextHook_loop (take 4 callers) entry"

section \<open>The format\<close>

record textFormatter =
  tf_DisableTimestamp :: bool
  tf_EnableEntryOrder :: bool

text \<open>\<^verbatim>\<open>sort.Strings\<close> sorts by bytes: the lexicographic order of strings.\<close>

definition sort_Strings :: "string list \<Rightarrow> string list" where
  "sort_Strings ks = sort ks"

text \<open>The fields of an entry are in the order in which the iteration over the map visits them.\<close>

definition textFormatter_Format :: "(log_level \<Rightarrow> string) \<Rightarrow> textFormatter \<Rightarrow> log_entry \<Rightarrow> string" where
  "textFormatter_Format level_string f entry =
     (let d = le_Data entry;
          time = (if tf_DisableTimestamp f then '''' else le_Time entry @ '' '');
          pos = (case map_of d ''file'' of
                   None \<Rightarrow> ''''
                 | Some file \<Rightarrow> file @ '':'' @ (case map_of d ''line'' of None \<Rightarrow> ''<nil>'' | Some l \<Rightarrow> l) @ '':'');
          keys = filter (\<lambda>k. k \<noteq> ''file'' \<and> k \<noteq> ''line'') (map fst d);
          ordered = (if tf_EnableEntryOrder f then sort_Strings keys else keys)
      in time @ pos @ '' ['' @ level_string (le_Level entry) @ ''] '' @ le_Message entry @
         concat (map (\<lambda>k. '' '' @ k @ ''='' @ (case map_of d k of None \<Rightarrow> '''' | Some v \<Rightarrow> v)) ordered) @ [char_of (10 :: nat)])"

section \<open>The package\<close>

text \<open>
  The package passes everything on to logrus, whose functions are the parameter, on a state of its
  own. logrus has one function for each level, which is the first argument here; what is logged are
  values of any type, with a format or without.
\<close>

record ('l, 'v) logrus =
  lg_SetLevel :: "log_level \<Rightarrow> 'l \<Rightarrow> 'l"
  lg_GetLevel :: "'l \<Rightarrow> log_level"
  lg_AllLevels :: "log_level list"
  lg_AddHook :: "log_level list \<Rightarrow> (stack_frame list \<Rightarrow> log_entry \<Rightarrow> log_entry) \<Rightarrow> 'l \<Rightarrow> 'l"
  lg_SetFormatter :: "textFormatter \<Rightarrow> 'l \<Rightarrow> 'l"
  lg_SetOutput :: "string \<Rightarrow> bool \<Rightarrow> 'l \<Rightarrow> 'l"
  lg_Log :: "log_level \<Rightarrow> 'v list \<Rightarrow> 'l \<Rightarrow> 'l"
  lg_Logf :: "log_level \<Rightarrow> string \<Rightarrow> 'v list \<Rightarrow> 'l \<Rightarrow> 'l"

definition contextHook_Levels :: "('l, 'v) logrus \<Rightarrow> log_level list" where
  "contextHook_Levels lg = lg_AllLevels lg"

definition log_init :: "('l, 'v) logrus \<Rightarrow> 'l \<Rightarrow> 'l" where
  "log_init lg s =
     lg_SetFormatter lg \<lparr>tf_DisableTimestamp = False, tf_EnableEntryOrder = False\<rparr>
       (lg_AddHook lg (contextHook_Levels lg) contextHook_Fire (lg_SetLevel lg defaultLogLevel s))"

definition SetLevelByString :: "('l, 'v) logrus \<Rightarrow> string \<Rightarrow> 'l \<Rightarrow> 'l" where
  "SetLevelByString lg level s = lg_SetLevel lg (stringToLogLevel level) s"

definition GetLogLevelAsString :: "(log_level \<Rightarrow> string) \<Rightarrow> ('l, 'v) logrus \<Rightarrow> 'l \<Rightarrow> string" where
  "GetLogLevelAsString level_string lg s = level_string (lg_GetLevel lg s)"

text \<open>The output is a rotating file, with local times in the names of its backups.\<close>

definition SetOutputByName :: "('l, 'v) logrus \<Rightarrow> string \<Rightarrow> 'l \<Rightarrow> 'l" where
  "SetOutputByName lg filename s = lg_SetOutput lg filename True s"

definition log_Info :: "('l, 'v) logrus \<Rightarrow> 'v list \<Rightarrow> 'l \<Rightarrow> 'l" where
  "log_Info lg v s = lg_Log lg InfoLevel v s"

definition log_Infof :: "('l, 'v) logrus \<Rightarrow> string \<Rightarrow> 'v list \<Rightarrow> 'l \<Rightarrow> 'l" where
  "log_Infof lg format v s = lg_Logf lg InfoLevel format v s"

definition log_Debug :: "('l, 'v) logrus \<Rightarrow> 'v list \<Rightarrow> 'l \<Rightarrow> 'l" where
  "log_Debug lg v s = lg_Log lg DebugLevel v s"

definition log_Debugf :: "('l, 'v) logrus \<Rightarrow> string \<Rightarrow> 'v list \<Rightarrow> 'l \<Rightarrow> 'l" where
  "log_Debugf lg format v s = lg_Logf lg DebugLevel format v s"

definition log_Warn :: "('l, 'v) logrus \<Rightarrow> 'v list \<Rightarrow> 'l \<Rightarrow> 'l" where
  "log_Warn lg v s = lg_Log lg WarnLevel v s"

definition log_Warnf :: "('l, 'v) logrus \<Rightarrow> string \<Rightarrow> 'v list \<Rightarrow> 'l \<Rightarrow> 'l" where
  "log_Warnf lg format v s = lg_Logf lg WarnLevel format v s"

definition log_Error :: "('l, 'v) logrus \<Rightarrow> 'v list \<Rightarrow> 'l \<Rightarrow> 'l" where
  "log_Error lg v s = lg_Log lg ErrorLevel v s"

definition log_Errorf :: "('l, 'v) logrus \<Rightarrow> string \<Rightarrow> 'v list \<Rightarrow> 'l \<Rightarrow> 'l" where
  "log_Errorf lg format v s = lg_Logf lg ErrorLevel format v s"

definition log_Fatal :: "('l, 'v) logrus \<Rightarrow> 'v list \<Rightarrow> 'l \<Rightarrow> 'l" where
  "log_Fatal lg v s = lg_Log lg FatalLevel v s"

definition log_Fatalf :: "('l, 'v) logrus \<Rightarrow> string \<Rightarrow> 'v list \<Rightarrow> 'l \<Rightarrow> 'l" where
  "log_Fatalf lg format v s = lg_Logf lg FatalLevel format v s"

section \<open>Lemmas\<close>

text \<open>
  The hook skips the functions of logrus and of the package this one was copied from, but not those of
  this package: the line it reports is the one of the wrapper and not the one of its caller.
\<close>

lemma hook_reports_wrapper:
  "le_Data (contextHook_Fire
      [\<lparr>sf_Name = ''github.com/sirupsen/logrus.Infof'', sf_File = ''/x/exported.go'', sf_Line = 1\<rparr>,
       \<lparr>sf_Name = ''github.com/pepper-iot/pulsar-client-go/pkg/log.Infof'', sf_File = ''/x/log.go'', sf_Line = 68\<rparr>,
       \<lparr>sf_Name = ''main.main'', sf_File = ''/x/main.go'', sf_Line = 7\<rparr>]
      \<lparr>le_Time = '''', le_Level = InfoLevel, le_Message = '''', le_Data = []\<rparr>) =
   [(''line'', ''68''), (''file'', ''log.go'')]"
  by code_simp

text \<open>
  With the entry order enabled the line does not depend on the order in which the map is iterated: it
  is the same for every order of the same fields.
\<close>

lemma Format_order:
  assumes "tf_EnableEntryOrder f" "distinct (map fst d)" "mset d = mset d'"
  shows "textFormatter_Format level_string f (entry\<lparr>le_Data := d\<rparr>) = textFormatter_Format level_string f (entry\<lparr>le_Data := d'\<rparr>)"
proof -
  have "mset (map fst d) = mset (map fst d')" using assms(3) by (metis mset_map)
  then have d': "distinct (map fst d')" using assms(2) mset_eq_imp_distinct_iff by blast
  have "map_of d = map_of d'"
    unfolding map_of_inject_set [OF assms(2) d'] by (rule mset_eq_setD [OF assms(3)])
  moreover have "sort (filter P (map fst d)) = sort (filter P (map fst d'))" for P
    using \<open>mset (map fst d) = mset (map fst d')\<close> by (intro properties_for_sort) (simp_all del: mset_map)
  ultimately show ?thesis using assms(1) by (simp add: textFormatter_Format_def sort_Strings_def Let_def cong: option.case_cong)
qed

lemma ToLower_idem [simp]: "ToLower (ToLower s) = ToLower s"
proof -
  have "lower_char (lower_char c) = lower_char c" for c
    by (simp add: lower_char_def Let_def)
  then show ?thesis by (simp add: ToLower_def)
qed

lemma stringToLogLevel_lower: "stringToLogLevel (ToLower s) = stringToLogLevel s"
  by (simp add: stringToLogLevel_def)

text \<open>With a logger that keeps its level, setting a level by its name and reading it gives the name back.\<close>

lemma level_roundtrip:
  assumes "\<And>l s. lg_GetLevel lg (lg_SetLevel lg l s) = l"
    and "\<And>l. stringToLogLevel (level_string l) = l"
  shows "GetLogLevelAsString level_string lg (SetLevelByString lg (level_string l) s) = level_string l"
  using assms by (simp add: GetLogLevelAsString_def SetLevelByString_def)

lemma default_level:
  assumes "ToLower s \<notin> {''fatal'', ''error'', ''warn'', ''warning'', ''debug'', ''info''}"
  shows "stringToLogLevel s = InfoLevel"
  using assms by (simp add: stringToLogLevel_def defaultLogLevel_def Let_def)

end
