(* ===== verification/Utils.thy ===== *)
theory Utils
  imports Errors
begin

text \<open>
  The helpers of \<^verbatim>\<open>utils/util.go\<close> for tests: random names and the address of a test server. The random
  generator is a parameter: a function from its bound and its state to a number and the next state.
\<close>

definition randStringChars :: string where
  "randStringChars = ''abcdefghijklmnopqrstuvwxyzABCDEFGHIJKLMNOPQRSTUVWXYZ''"

text \<open>The loop over the \<open>n\<close> characters, under the lock; an index out of range panics.\<close>

fun rand_chars :: "(nat \<Rightarrow> 'g \<Rightarrow> nat \<times> 'g) \<Rightarrow> nat \<Rightarrow> 'g \<Rightarrow> (go_error + string) \<times> 'g" where
  "rand_chars Intn 0 g = (Inr '''', g)"
| "rand_chars Intn (Suc n) g =
     (let l = length randStringChars in
      case Intn l g of (i, g1) \<Rightarrow>
        if i < l
        then (case rand_chars Intn n g1 of
                (Inl p, g2) \<Rightarrow> (Inl p, g2)
              | (Inr s, g2) \<Rightarrow> (Inr (randStringChars ! i # s), g2))
        else (Inl (ErrPanic ''index out of range''), g1))"

definition RandString :: "(nat \<Rightarrow> 'g \<Rightarrow> nat \<times> 'g) \<Rightarrow> int \<Rightarrow> 'g \<Rightarrow> (go_error + string) \<times> 'g" where
  "RandString Intn n g = (if n < 0 then (Inl (ErrPanic ''makeslice: len out of range''), g) else rand_chars Intn (nat n) g)"

text \<open>\<open>None\<close> says that the test is skipped; \<open>v\<close> is the value of the flag.\<close>

definition PulsarAddr :: "string \<Rightarrow> string option" where
  "PulsarAddr v = (if v \<noteq> '''' then Some v else None)"

text \<open>With a generator that keeps its bound the result has the length asked for and only letters.\<close>

lemma RandString_letters:
  assumes "\<And>l g. 0 < l \<Longrightarrow> fst (Intn l g) < l" "0 \<le> n"
  shows "\<exists>s g'. RandString Intn n g = (Inr s, g') \<and> int (length s) = n \<and> set s \<subseteq> set randStringChars"
proof -
  have "0 < length randStringChars" by (simp add: randStringChars_def)
  with assms(1) have "\<exists>s g'. rand_chars Intn k g = (Inr s, g') \<and> length s = k \<and> set s \<subseteq> set randStringChars" for k
  proof (induction k arbitrary: g)
    case (Suc k)
    obtain i g1 where i: "Intn (length randStringChars) g = (i, g1)" by fastforce
    with Suc.prems have lt: "i < length randStringChars" by (metis fst_conv)
    from Suc obtain s g2 where "rand_chars Intn k g1 = (Inr s, g2)" "length s = k" "set s \<subseteq> set randStringChars" by blast
    with i lt show ?case by (auto simp: Let_def)
  qed simp
  from this [of "nat n"] assms(2) show ?thesis by (auto simp: RandString_def)
qed

end
